(* ===== verification/Menagerie_Prelude.thy ===== *)
theory Menagerie_Prelude
  imports Main "HOL-Library.Char_ord" "HOL-Library.Sublist"
begin

text \<open>
  Shared vocabulary of the development: the model of \<open>std::string_view\<close> searches, of
  \<open>std::to_string\<close> on unsigned integers, the sum type that carries thrown exceptions and
  \<open>std::expected\<close> errors, and the list lemmas that the component theories use.

  A \<open>std::string\<close> is a \<open>string\<close> (a list of 8-bit characters); a position \<open>npos\<close> is \<open>None\<close>.
\<close>

named_theorems seq_simps \<open>reading and writing lists by index\<close>
named_theorems result_simps \<open>the error monad\<close>

type_synonym ('e, 'a) result = "'e + 'a"

section \<open>Results\<close>

definition bind_result :: "('e, 'a) result \<Rightarrow> ('a \<Rightarrow> ('e, 'b) result) \<Rightarrow> ('e, 'b) result" where
  "bind_result r f = (case r of Inl e \<Rightarrow> Inl e | Inr a \<Rightarrow> f a)"

fun is_ok :: "('e, 'a) result \<Rightarrow> bool" where
  "is_ok (Inl _) = False"
| "is_ok (Inr _) = True"

lemma bind_result_Inl [simp, result_simps]: "bind_result (Inl e) f = Inl e"
  by (simp add: bind_result_def)

lemma bind_result_Inr [simp, result_simps]: "bind_result (Inr a) f = f a"
  by (simp add: bind_result_def)

lemma bind_result_eq_Inr [result_simps]:
  "bind_result r f = Inr b \<longleftrightarrow> (\<exists>a. r = Inr a \<and> f a = Inr b)"
  by (cases r) auto

lemma is_ok_iff: "is_ok r \<longleftrightarrow> (\<exists>a. r = Inr a)"
  by (cases r) auto

section \<open>Searching strings\<close>

text \<open>\<open>find_char c s\<close> is \<open>s.find(c)\<close>, \<open>find_char_from c s i\<close> is \<open>s.find(c, i)\<close>, and
  \<open>find_sub n s i\<close> is \<open>s.find(n, i)\<close> for a needle string.\<close>

fun find_char :: "char \<Rightarrow> string \<Rightarrow> nat option" where
  "find_char c [] = None"
| "find_char c (x # xs) = (if x = c then Some 0 else map_option Suc (find_char c xs))"

definition find_char_from :: "char \<Rightarrow> string \<Rightarrow> nat \<Rightarrow> nat option" where
  "find_char_from c s i = map_option ((+) i) (find_char c (drop i s))"

fun find_prefix :: "string \<Rightarrow> string \<Rightarrow> nat option" where
  "find_prefix n [] = (if n = [] then Some 0 else None)"
| "find_prefix n (x # xs) =
     (if prefix n (x # xs) then Some 0 else map_option Suc (find_prefix n xs))"

definition find_sub :: "string \<Rightarrow> string \<Rightarrow> nat \<Rightarrow> nat option" where
  "find_sub n s i = (if i \<le> length s then map_option ((+) i) (find_prefix n (drop i s)) else None)"

definition substr :: "string \<Rightarrow> nat \<Rightarrow> nat \<Rightarrow> string" where
  "substr s i n = take n (drop i s)"

text \<open>The test \<open>c >= lo && c <= hi\<close>.\<close>

definition in_range :: "char \<Rightarrow> char \<Rightarrow> char \<Rightarrow> bool" where
  "in_range lo hi c = (lo \<le> c \<and> c \<le> hi)"

lemma find_char_None [simp]: "find_char c s = None \<longleftrightarrow> c \<notin> set s"
  by (induction s) auto

lemma find_char_Some:
  "find_char c s = Some i \<longleftrightarrow> i < length s \<and> s ! i = c \<and> c \<notin> set (take i s)"
proof (induction s arbitrary: i)
  case (Cons x xs)
  then show ?case by (cases i) (auto split: if_splits)
qed simp

lemma find_char_append_notin [simp]:
  "c \<notin> set a \<Longrightarrow> find_char c (a @ c # b) = Some (length a)"
  by (induction a) auto

lemma find_char_split:
  assumes "find_char c s = Some i"
  shows "s = take i s @ c # drop (Suc i) s" "c \<notin> set (take i s)"
  using assms by (auto simp: find_char_Some dest: id_take_nth_drop)

lemma find_prefix_Some_le: "find_prefix n s = Some i \<Longrightarrow> i + length n \<le> length s"
proof (induction s arbitrary: i)
  case (Cons x xs)
  then show ?case by (auto split: if_splits dest: prefix_length_le)
qed (auto split: if_splits)

lemma find_prefix_Some_prefix: "find_prefix n s = Some i \<Longrightarrow> prefix n (drop i s)"
  by (induction s arbitrary: i) (auto split: if_splits)

lemma find_sub_Some_bounds:
  assumes "find_sub n s i = Some j"
  shows "i \<le> j" "j + length n \<le> length s"
  using assms find_prefix_Some_le [of n "drop i s" "j - i"]
  by (auto simp: find_sub_def split: if_splits)

lemma length_substr [simp]: "length (substr s i n) = min n (length s - i)"
  by (auto simp: substr_def)

section \<open>Decimal rendering of unsigned integers\<close>

definition digit_char :: "nat \<Rightarrow> char" where
  "digit_char d = char_of (48 + d)"

fun decimal :: "nat \<Rightarrow> string" where
  "decimal n = (if n < 10 then [digit_char n] else decimal (n div 10) @ [digit_char (n mod 10)])"

declare decimal.simps [simp del]

definition digit_val :: "char \<Rightarrow> nat" where
  "digit_val c = of_char c - 48"

definition undecimal :: "string \<Rightarrow> nat" where
  "undecimal s = foldl (\<lambda>a c. a * 10 + digit_val c) 0 s"

lemma digit_val_digit_char [simp]: "d < 10 \<Longrightarrow> digit_val (digit_char d) = d"
  by (simp add: digit_val_def digit_char_def)

lemma of_char_digit_char: "d < 10 \<Longrightarrow> of_char (digit_char d) = 48 + d"
  by (simp add: digit_char_def)

lemma undecimal_snoc: "undecimal (s @ [c]) = undecimal s * 10 + digit_val c"
  by (simp add: undecimal_def)

lemma undecimal_decimal [simp]: "undecimal (decimal n) = n"
proof (induction n rule: decimal.induct)
  case (1 n)
  show ?case
  proof (cases "n < 10")
    case True
    then show ?thesis by (subst decimal.simps) (simp add: undecimal_def)
  next
    case False
    then show ?thesis using 1 by (subst decimal.simps) (simp add: undecimal_snoc)
  qed
qed

lemma decimal_inject [simp]: "decimal m = decimal n \<longleftrightarrow> m = n"
  by (metis undecimal_decimal)

lemma decimal_not_Nil [simp]: "decimal n \<noteq> []"
  by (subst decimal.simps) simp

lemma decimal_digits: "c \<in> set (decimal n) \<Longrightarrow> c \<in> digit_char ` {..<10}"
proof (induction n rule: decimal.induct)
  case (1 n)
  show ?case
  proof (cases "n < 10")
    case True
    then show ?thesis using "1.prems" by (subst (asm) decimal.simps) simp
  next
    case False
    then show ?thesis using 1 by (subst (asm) (2) decimal.simps) auto
  qed
qed

lemma decimal_char_range: "c \<in> set (decimal n) \<Longrightarrow> (48 :: nat) \<le> of_char c \<and> of_char c \<le> (57 :: nat)"
  using decimal_digits [of c n] by (auto simp: of_char_digit_char)

section \<open>Lists\<close>

lemma take_update_snoc [seq_simps]:
  "n < length xs \<Longrightarrow> take (Suc n) (xs[n := x]) = take n xs @ [x]"
  by (simp add: take_Suc_conv_app_nth)

lemma drop_nth_Cons: "i < length xs \<Longrightarrow> drop i xs = xs ! i # drop (Suc i) xs"
  by (simp add: Cons_nth_drop_Suc)

lemma find_append: "find P (xs @ ys) = (case find P xs of None \<Rightarrow> find P ys | Some x \<Rightarrow> Some x)"
  by (induction xs) auto

lemma map_filter_append [seq_simps]:
  "List.map_filter f (xs @ ys) = List.map_filter f xs @ List.map_filter f ys"
  by (simp add: List.map_filter_def)

lemma filter_none [seq_simps]: "(\<And>x. x \<in> set xs \<Longrightarrow> \<not> P x) \<Longrightarrow> filter P xs = []"
  by (induction xs) auto

lemma filter_all [seq_simps]: "(\<And>x. x \<in> set xs \<Longrightarrow> P x) \<Longrightarrow> filter P xs = xs"
  by (induction xs) auto

section \<open>Counting threads\<close>

lemma card_fun_upd:
  fixes f :: "'p :: finite \<Rightarrow> 't"
  shows "card {x. P ((f(p := t)) x)} + (if P (f p) then 1 else 0) = card {x. P (f x)} + (if P t then 1 else 0)"
proof -
  define A where "A = {x. P (f x)} - {p}"
  have A: "p \<notin> A" "finite A" by (auto simp: A_def)
  have "{x. P (f x)} = (if P (f p) then insert p A else A)"
    "{x. P ((f(p := t)) x)} = (if P t then insert p A else A)"
    by (auto simp: A_def)
  with A show ?thesis by simp
qed

section \<open>Loops that may not end\<close>

text \<open>One turn of a \<open>while (true)\<close> loop ends the loop with a result or goes on from a new state; a loop that never ends
  has the value \<open>None\<close>.\<close>

partial_function (option) run_loop :: "('s \<Rightarrow> 'r + 's) \<Rightarrow> 's \<Rightarrow> 'r option" where
  "run_loop turn s = (case turn s of Inl r \<Rightarrow> Some r | Inr s \<Rightarrow> run_loop turn s)"

declare run_loop.simps [code]

fun stops_within :: "('s \<Rightarrow> 'r + 's) \<Rightarrow> nat \<Rightarrow> 's \<Rightarrow> bool" where
  "stops_within turn 0 s = False"
| "stops_within turn (Suc n) s = (case turn s of Inl _ \<Rightarrow> True | Inr s \<Rightarrow> stops_within turn n s)"

lemma run_loop_stops: "stops_within turn n s \<Longrightarrow> \<exists>r. run_loop turn s = Some r"
proof (induction n arbitrary: s)
  case (Suc n)
  then show ?case by (subst run_loop.simps) (auto split: sum.splits)
qed simp

lemma run_loop_ends:
  assumes "run_loop turn s = Some r"
  shows "\<exists>n. stops_within turn n s"
proof (rule run_loop.raw_induct [OF _ assms, of "\<lambda>turn s r. \<exists>n. stops_within turn n s"], goal_cases)
  case (1 run turn s r)
  show ?case
  proof (cases "turn s")
    case (Inl a)
    then have "stops_within turn 1 s" by simp
    then show ?thesis by blast
  next
    case (Inr s')
    then have "run turn s' = Some r" using 1(2) by simp
    from 1(1) [OF this] obtain n where "stops_within turn n s'" by blast
    then have "stops_within turn (Suc n) s" using Inr by simp
    then show ?thesis by blast
  qed
qed

lemma run_loop_trace:
  assumes "run_loop turn s = Some r"
  shows "\<exists>s'. (\<lambda>a b. turn a = Inr b)\<^sup>*\<^sup>* s s' \<and> turn s' = Inl r"
proof (rule run_loop.raw_induct [OF _ assms, of "\<lambda>turn s r. \<exists>s'. (\<lambda>a b. turn a = Inr b)\<^sup>*\<^sup>* s s' \<and> turn s' = Inl r"], goal_cases)
  case (1 run turn s r)
  show ?case
  proof (cases "turn s")
    case (Inl a)
    then show ?thesis using 1(2) by (intro exI [of _ s]) simp
  next
    case (Inr s')
    then have "run turn s' = Some r" using 1(2) by simp
    from 1(1) [OF this] obtain t where "(\<lambda>a b. turn a = Inr b)\<^sup>*\<^sup>* s' t" "turn t = Inl r" by blast
    then show ?thesis using Inr by (intro exI [of _ t] conjI converse_rtranclp_into_rtranclp [of _ s s'])
  qed
qed

lemma run_loop_iff: "(\<exists>r. run_loop turn s = Some r) \<longleftrightarrow> (\<exists>n. stops_within turn n s)"
  using run_loop_stops [of turn _ s] run_loop_ends [of turn s] by auto

lemma run_loop_variant:
  fixes m :: "'s \<Rightarrow> nat"
  assumes "\<And>s s'. turn s = Inr s' \<Longrightarrow> m s' < m s"
  shows "\<exists>r. run_loop turn s = Some r"
proof (induction "m s" arbitrary: s rule: less_induct)
  case less
  then show ?case using assms by (subst run_loop.simps) (auto split: sum.splits)
qed

end
