(* ===== verification/Url_Decode.thy ===== *)
theory Url_Decode
  imports Menagerie_Prelude
begin

text \<open>
  Percent-decoding: \<open>src/component/http-albatross/types/url_decode/url_decode.cpp\<close>.

  \<open>decode_into\<close> writes into a caller-supplied buffer by index, so the model keeps the buffer as a
  list that is updated in place and answers \<open>Out_of_bounds\<close> for a write past its end; the lemmas
  show that this never happens for the two callers. \<open>decode_spec\<close> is the structural reading of
  the loop, and \<open>tok\<close> the grammar of escaped strings that it accepts.
\<close>

unbundle bit_operations_syntax

definition hex_val :: "char \<Rightarrow> int" where
  "hex_val x =
     (if CHR ''0'' \<le> x \<and> x \<le> CHR ''9'' then of_char x - of_char CHR ''0''
      else if CHR ''a'' \<le> x \<and> x \<le> CHR ''f'' then 10 + of_char x - of_char CHR ''a''
      else if CHR ''A'' \<le> x \<and> x \<le> CHR ''F'' then 10 + of_char x - of_char CHR ''A''
      else - 1)"

datatype decode_outcome = Decoded nat string | Malformed | Out_of_bounds

definition store :: "string \<Rightarrow> nat \<Rightarrow> char \<Rightarrow> string option" where
  "store out n c = (if n < length out then Some (out[n := c]) else None)"

function decode_loop :: "string \<Rightarrow> bool \<Rightarrow> nat \<Rightarrow> nat \<Rightarrow> string \<Rightarrow> decode_outcome" where
  "decode_loop inp plus_is_space i n out =
     (if i < length inp then
        let c = inp ! i in
        if c = CHR ''+'' \<and> plus_is_space then
          (case store out n CHR '' '' of
             None \<Rightarrow> Out_of_bounds
           | Some out' \<Rightarrow> decode_loop inp plus_is_space (i + 1) (n + 1) out')
        else if c = CHR ''%'' then
          (if i + 2 \<ge> length inp then Malformed
           else
             let hi = hex_val (inp ! (i + 1)); lo = hex_val (inp ! (i + 2)) in
             if hi < 0 \<or> lo < 0 then Malformed
             else
               (case store out n (char_of (push_bit 4 hi OR lo)) of
                  None \<Rightarrow> Out_of_bounds
                | Some out' \<Rightarrow> decode_loop inp plus_is_space (i + 3) (n + 1) out'))
        else
          (case store out n c of
             None \<Rightarrow> Out_of_bounds
           | Some out' \<Rightarrow> decode_loop inp plus_is_space (i + 1) (n + 1) out')
      else Decoded n out)"
  by pat_completeness auto
termination
  by (relation "measure (\<lambda>(inp, p, i, n, out). length inp - i)") auto

declare decode_loop.simps [simp del]

definition decode_into :: "string \<Rightarrow> bool \<Rightarrow> string \<Rightarrow> decode_outcome" where
  "decode_into inp plus_is_space out = decode_loop inp plus_is_space 0 0 out"

definition url_decode :: "string \<Rightarrow> bool \<Rightarrow> string option" where
  "url_decode inp plus_is_space =
     (case decode_into inp plus_is_space (replicate (length inp) (CHR 0x00)) of
        Decoded n out \<Rightarrow> Some (take n out)
      | _ \<Rightarrow> None)"

text \<open>The arena is \<open>std::pmr\<close> storage: \<open>alloc n\<close> stands for the \<open>n\<close> bytes it hands out, whose
  content is arbitrary.\<close>

definition url_decode_arena :: "string \<Rightarrow> bool \<Rightarrow> (nat \<Rightarrow> string) \<Rightarrow> string option" where
  "url_decode_arena inp plus_is_space alloc =
     (let needs_rewrite = find_char CHR ''%'' inp \<noteq> None
                          \<or> (plus_is_space \<and> find_char CHR ''+'' inp \<noteq> None) in
      if \<not> needs_rewrite then Some inp
      else
        (case decode_into inp plus_is_space (alloc (length inp)) of
           Decoded n out \<Rightarrow> Some (take n out)
         | _ \<Rightarrow> None))"

section \<open>The structural reading of the loop\<close>

fun decode_spec :: "bool \<Rightarrow> string \<Rightarrow> string option" where
  "decode_spec p [] = Some []"
| "decode_spec p (c # cs) =
     (if c = CHR ''+'' \<and> p then map_option (Cons CHR '' '') (decode_spec p cs)
      else if c = CHR ''%'' then
        (case cs of
           h # l # rest \<Rightarrow>
             (if hex_val h < 0 \<or> hex_val l < 0 then None
              else map_option (Cons (char_of (push_bit 4 (hex_val h) OR hex_val l))) (decode_spec p rest))
         | _ \<Rightarrow> None)
      else map_option (Cons c) (decode_spec p cs))"

lemma decode_spec_length: "decode_spec p s = Some t \<Longrightarrow> length t \<le> length s"
proof (induction p s arbitrary: t rule: decode_spec.induct)
  case (2 p c cs)
  then show ?case
    by (auto split: if_splits list.splits) (metis le_SucI)+
qed simp

lemma decode_spec_short: "length cs < 2 \<Longrightarrow> decode_spec p (CHR ''%'' # cs) = None"
  by (auto split: list.splits)

text \<open>What one run of the loop leaves in the buffer: the bytes before \<open>n\<close> are kept and the decoded
  rest is written from \<open>n\<close> on.\<close>

definition spec_outcome :: "nat \<Rightarrow> string \<Rightarrow> string option \<Rightarrow> decode_outcome" where
  "spec_outcome n out r =
     (case r of
        None \<Rightarrow> Malformed
      | Some t \<Rightarrow> Decoded (n + length t) (take n out @ t @ drop (n + length t) out))"

lemma spec_outcome_None [simp]: "spec_outcome n out None = Malformed"
  by (simp add: spec_outcome_def)

lemma spec_outcome_step:
  assumes "n < length out"
  shows "spec_outcome (Suc n) (out[n := c]) r = spec_outcome n out (map_option (Cons c) r)"
  using assms by (cases r) (simp_all add: spec_outcome_def seq_simps)

lemma decode_loop_spec:
  assumes "n + (length inp - i) \<le> length out" "i \<le> length inp"
  shows "decode_loop inp p i n out = spec_outcome n out (decode_spec p (drop i inp))"
  using assms
proof (induction inp p i n out rule: decode_loop.induct)
  case (1 inp p i n out)
  show ?case
  proof (cases "i < length inp")
    case False
    then show ?thesis using "1.prems" by (subst decode_loop.simps) (simp add: spec_outcome_def)
  next
    case True
    then have n: "n < length out" using "1.prems" by simp
    have d: "drop i inp = inp ! i # drop (Suc i) inp" using True by (rule drop_nth_Cons)
    consider (pct) "inp ! i = CHR ''%''" "i + 2 < length inp"
      | (short) "inp ! i = CHR ''%''" "\<not> i + 2 < length inp"
      | (other) "inp ! i \<noteq> CHR ''%''"
      by blast
    then show ?thesis
    proof cases
      case pct
      then have d2: "drop (Suc i) inp = inp ! (i + 1) # inp ! (i + 2) # drop (i + 3) inp"
        using drop_nth_Cons [of "i + 1" inp] drop_nth_Cons [of "i + 2" inp] by (simp add: numeral_eq_Suc)
      show ?thesis
        using pct n "1.IH"(2) [OF True refl] "1.prems" True
        by (subst decode_loop.simps) (simp add: Let_def d d2 store_def spec_outcome_step)
    next
      case short
      then have "length (drop (Suc i) inp) < 2" using True by simp
      then show ?thesis
        using short True d
        by (subst decode_loop.simps) (simp add: Let_def decode_spec_short del: decode_spec.simps)
    next
      case other
      then show ?thesis
        using True n "1.IH"(1,3) [OF True refl] "1.prems"
        by (subst decode_loop.simps) (simp add: Let_def d store_def spec_outcome_step)
    qed
  qed
qed


lemma decode_into_spec:
  "length inp \<le> length out \<Longrightarrow> decode_into inp p out = spec_outcome 0 out (decode_spec p inp)"
  by (simp add: decode_into_def decode_loop_spec)

lemma url_decode_spec: "url_decode inp p = decode_spec p inp"
  by (cases "decode_spec p inp") (simp_all add: url_decode_def decode_into_spec spec_outcome_def)

text \<open>An arena hands out at least the bytes it is asked for.\<close>

definition arena_ok :: "(nat \<Rightarrow> string) \<Rightarrow> bool" where
  "arena_ok alloc \<longleftrightarrow> (\<forall>n. n \<le> length (alloc n))"

lemma decode_spec_id:
  assumes "CHR ''%'' \<notin> set s" "p \<Longrightarrow> CHR ''+'' \<notin> set s"
  shows "decode_spec p s = Some s"
  using assms by (induction s) auto

lemma url_decode_arena_spec:
  assumes "arena_ok alloc"
  shows "url_decode_arena inp p alloc = decode_spec p inp"
proof (cases "CHR ''%'' \<in> set inp \<or> (p \<and> CHR ''+'' \<in> set inp)")
  case True
  then show ?thesis
    using assms by (cases "decode_spec p inp")
      (auto simp: url_decode_arena_def arena_ok_def decode_into_spec spec_outcome_def)
next
  case False
  then show ?thesis by (auto simp: url_decode_arena_def decode_spec_id)
qed

section \<open>The grammar of escaped strings\<close>

text \<open>A token of an escaped string: a byte that stands for itself, a plus sign that stands for a
  space, or an escape with its two hexadecimal digits.\<close>

datatype tok = Lit char | Plus | Esc char char

text \<open>The hexadecimal digits and their numbers, as a table.\<close>

definition hex_number :: "char \<Rightarrow> nat option" where
  "hex_number = map_of (zip ''0123456789abcdefABCDEF'' ([0..<16] @ [10..<16]))"

fun tok_ok :: "bool \<Rightarrow> tok \<Rightarrow> bool" where
  "tok_ok p (Lit c) \<longleftrightarrow> c \<noteq> CHR ''%'' \<and> (p \<longrightarrow> c \<noteq> CHR ''+'')"
| "tok_ok p Plus \<longleftrightarrow> p"
| "tok_ok p (Esc h l) \<longleftrightarrow> hex_number h \<noteq> None \<and> hex_number l \<noteq> None"

fun tok_text :: "tok \<Rightarrow> string" where
  "tok_text (Lit c) = [c]"
| "tok_text Plus = ''+''"
| "tok_text (Esc h l) = [CHR ''%'', h, l]"

fun tok_byte :: "tok \<Rightarrow> char" where
  "tok_byte (Lit c) = c"
| "tok_byte Plus = CHR '' ''"
| "tok_byte (Esc h l) = char_of (16 * the (hex_number h) + the (hex_number l))"

lemma hex_val_table:
  "hex_val c = (case hex_number c of Some n \<Rightarrow> int n | None \<Rightarrow> - 1)"
proof -
  have "list_all (\<lambda>c. hex_val c = (case hex_number c of Some n \<Rightarrow> int n | None \<Rightarrow> - 1)) Enum.enum"
    by code_simp
  then show ?thesis by (simp add: list_all_iff UNIV_enum [symmetric])
qed

lemma hex_val_bounds: "hex_val c < 16" "- 1 \<le> hex_val c"
  by (auto simp: hex_val_def less_eq_char_def simp flip: of_nat_of_char [where ?'a = int])

lemma shift_or_eq_add:
  fixes h l :: int
  assumes "0 \<le> l" "l < 16"
  shows "push_bit 4 h OR l = 16 * h + l"
proof -
  have l: "take_bit 4 l = l" using assms by (simp add: take_bit_eq_mod)
  have "push_bit 4 h AND take_bit 4 l = 0" by (rule bit_eqI) (auto simp: bit_simps)
  then show ?thesis
    using plus_and_or [of "push_bit 4 h" l] by (simp add: l push_bit_eq_mult)
qed

lemma hex_number_less: "hex_number c = Some n \<Longrightarrow> n < 16"
  using hex_val_bounds(1) [of c] by (simp add: hex_val_table)

lemma escape_byte:
  assumes "hex_number h = Some m" "hex_number l = Some n"
  shows "char_of (push_bit 4 (hex_val h) OR hex_val l) = (char_of (16 * m + n) :: char)"
proof -
  have "push_bit 4 (hex_val h) OR hex_val l = int (16 * m + n)"
    using assms hex_number_less [OF assms(2)] by (simp add: hex_val_table shift_or_eq_add)
  then have "char_of (push_bit 4 (hex_val h) OR hex_val l) = (char_of (of_nat (16 * m + n) :: int) :: char)" by (rule arg_cong)
  then show ?thesis by (simp only: char_of_def bit_of_nat_iff_bit)
qed

lemma hex_val_neg: "hex_val c < 0 \<longleftrightarrow> hex_number c = None"
  by (simp add: hex_val_table split: option.split)

lemma decode_spec_toks:
  "list_all (tok_ok p) ts \<Longrightarrow> decode_spec p (concat (map tok_text ts)) = Some (map tok_byte ts)"
proof (induction ts)
  case (Cons t ts)
  then show ?case by (cases t) (auto simp: escape_byte hex_val_neg)
qed simp

lemma decode_spec_toksE:
  assumes "decode_spec p s = Some t"
  obtains ts where "list_all (tok_ok p) ts" "s = concat (map tok_text ts)" "t = map tok_byte ts"
proof -
  have "\<exists>ts. list_all (tok_ok p) ts \<and> s = concat (map tok_text ts) \<and> t = map tok_byte ts"
    using assms
  proof (induction p s arbitrary: t rule: decode_spec.induct)
    case (2 p c cs)
    consider (plus) "c = CHR ''+''" p | (pct) "c = CHR ''%''" | (lit) "tok_ok p (Lit c)"
      by auto
    then show ?case
    proof cases
      case plus
      with 2 obtain ts where "list_all (tok_ok p) ts" "cs = concat (map tok_text ts)" "t = map tok_byte (Plus # ts)"
        by fastforce
      with plus show ?thesis by (intro exI [of _ "Plus # ts"]) simp
    next
      case pct
      with "2.prems" obtain h l rest where cs: "cs = h # l # rest" by (auto split: list.splits)
      with pct 2 obtain ts where "list_all (tok_ok p) ts" "rest = concat (map tok_text ts)"
        "t = map tok_byte (Esc h l # ts)" "tok_ok p (Esc h l)"
        by (fastforce simp: escape_byte hex_val_neg split: if_splits)
      with pct cs show ?thesis by (intro exI [of _ "Esc h l # ts"]) simp
    next
      case lit
      with 2 obtain ts where "list_all (tok_ok p) ts" "cs = concat (map tok_text ts)" "t = map tok_byte (Lit c # ts)"
        by fastforce
      with lit show ?thesis by (intro exI [of _ "Lit c # ts"]) simp
    qed
  qed simp
  then show thesis using that by blast
qed

section \<open>Properties\<close>

text \<open>C16: The decoder accepts exactly the escaped strings. Decoding succeeds with \<open>t\<close> if and only if
  the input is a sequence of literal bytes, plus signs (when they mean a space) and escapes with two
  hexadecimal digits of either case, and then \<open>t\<close> is the sequence of the bytes they denote; every other input is
  rejected.\<close>

theorem url_decode_grammar:
  "url_decode s p = Some t \<longleftrightarrow>
     (\<exists>ts. list_all (tok_ok p) ts \<and> s = concat (map tok_text ts) \<and> t = map tok_byte ts)"
  by (auto simp: url_decode_spec decode_spec_toks elim: decode_spec_toksE)

theorem url_decode_grammar_witness: "url_decode ''a%2fb+%C3'' True = Some [CHR ''a'', CHR ''/'', CHR ''b'', CHR '' '', CHR 0xC3]"
  unfolding url_decode_grammar
  by (rule exI [of _ "[Lit CHR ''a'', Esc CHR ''2'' CHR ''f'', Lit CHR ''b'', Plus, Esc CHR ''C'' CHR ''3'']"])
    (code_simp)

text \<open>C28: The arena decoder agrees with the heap decoder and stays inside its buffer. Whatever bytes
  the arena hands out, the zero-copy path and the rewriting path give the result of \<open>url_decode\<close>,
  and a buffer as long as the input is never overrun.\<close>

theorem url_decode_arena_eq:
  assumes "arena_ok alloc"
  shows "url_decode_arena s p alloc = url_decode s p
       \<and> decode_into s p (alloc (length s)) \<noteq> Out_of_bounds"
  using assms by (auto simp: url_decode_arena_spec url_decode_spec decode_into_spec arena_ok_def
      spec_outcome_def split: option.split)

theorem url_decode_arena_eq_witness:
  "url_decode_arena ''a%2Fb'' False (\<lambda>n. replicate n CHR ''x'') = Some ''a/b''
   \<and> decode_into ''a%2Fb'' False (replicate 5 CHR ''x'') \<noteq> Out_of_bounds"
proof -
  have "url_decode ''a%2Fb'' False = Some ''a/b''"
    by code_simp
  then show ?thesis
    using url_decode_arena_eq [of "\<lambda>n. replicate n CHR ''x''" "''a%2Fb''" False]
    by (simp add: arena_ok_def eval_nat_numeral)
qed

end
