(* ===== verification/Keyed_Entries.thy ===== *)
theory Keyed_Entries
  imports Menagerie_Prelude
begin

text \<open>
  Ordered multimaps stored as vectors of pairs. Headers, path parameters, query parameters and the
  per-request bag all scan such a vector with an equality on keys; the scans are defined here once,
  with the equality as an argument, and their laws are proved in the locale \<open>key_equality\<close> for
  every equality that is an equivalence relation.
\<close>

type_synonym ('k, 'v) entries = "('k \<times> 'v) list"

fun first_by :: "('k \<Rightarrow> 'k \<Rightarrow> bool) \<Rightarrow> 'k \<Rightarrow> ('k, 'v) entries \<Rightarrow> 'v option" where
  "first_by eqk name [] = None"
| "first_by eqk name ((n, v) # es) = (if eqk n name then Some v else first_by eqk name es)"

definition all_by :: "('k \<Rightarrow> 'k \<Rightarrow> bool) \<Rightarrow> 'k \<Rightarrow> ('k, 'v) entries \<Rightarrow> 'v list" where
  "all_by eqk name es = map snd (filter (\<lambda>e. eqk (fst e) name) es)"

definition erase_by :: "('k \<Rightarrow> 'k \<Rightarrow> bool) \<Rightarrow> 'k \<Rightarrow> ('k, 'v) entries \<Rightarrow> ('k, 'v) entries" where
  "erase_by eqk name es = filter (\<lambda>e. \<not> eqk (fst e) name) es"

lemma all_by_Nil [simp]: "all_by eqk name [] = []"
  by (simp add: all_by_def)

lemma all_by_append [simp]: "all_by eqk name (xs @ ys) = all_by eqk name xs @ all_by eqk name ys"
  by (simp add: all_by_def)

lemma all_by_Cons [simp]:
  "all_by eqk name (e # es) = (if eqk (fst e) name then [snd e] else []) @ all_by eqk name es"
  by (simp add: all_by_def)

lemma first_by_all_by:
  "first_by eqk name es = (case all_by eqk name es of [] \<Rightarrow> None | v # _ \<Rightarrow> Some v)"
  by (induction eqk name es rule: first_by.induct) auto

lemma all_by_erase_same [simp]: "all_by eqk name (erase_by eqk name es) = []"
  by (simp add: all_by_def erase_by_def)

lemma length_all_by_erase:
  "length (erase_by eqk name es) + length (all_by eqk name es) = length es"
  by (induction es) (auto simp: erase_by_def)

lemma erase_by_idem [simp]: "erase_by eqk name (erase_by eqk name es) = erase_by eqk name es"
  by (simp add: erase_by_def)

locale key_equality =
  fixes eqk :: "'k \<Rightarrow> 'k \<Rightarrow> bool"
  assumes key_refl: "eqk a a"
    and key_sym: "eqk a b \<Longrightarrow> eqk b a"
    and key_trans: "eqk a b \<Longrightarrow> eqk b c \<Longrightarrow> eqk a c"
begin

lemma key_cong: "eqk a b \<Longrightarrow> eqk c a \<longleftrightarrow> eqk c b"
  by (blast intro: key_sym key_trans)

lemma all_by_key_cong:
  assumes "eqk a b"
  shows "all_by eqk a es = all_by eqk b es"
  by (simp only: all_by_def key_cong [OF assms])

lemma all_by_erase_other:
  assumes "\<not> eqk a b"
  shows "all_by eqk b (erase_by eqk a es) = all_by eqk b es"
proof -
  have "eqk k b \<Longrightarrow> \<not> eqk k a" for k using assms by (blast intro: key_sym key_trans)
  then have "filter (\<lambda>e. eqk (fst e) b \<and> \<not> eqk (fst e) a) es = filter (\<lambda>e. eqk (fst e) b) es"
    by (intro filter_cong) auto
  then show ?thesis by (simp add: all_by_def erase_by_def conj_commute)
qed

lemma all_by_replace_same: "eqk a b \<Longrightarrow> all_by eqk b (erase_by eqk a es @ [(a, v)]) = [v]"
  using all_by_key_cong [of a b "erase_by eqk a es"] by simp

lemma all_by_replace_other:
  "\<not> eqk a b \<Longrightarrow> all_by eqk b (erase_by eqk a es @ [(a, v)]) = all_by eqk b es"
  by (simp add: all_by_erase_other)

end

interpretation plain: key_equality "(=)"
  by unfold_locales auto

end
