(* ===== verification/Http_Headers.thy ===== *)
theory Http_Headers
  imports Keyed_Entries
begin

text \<open>
  \<open>Headers\<close>, \<open>src/component/http-albatross/types/headers/headers.{hpp,cpp}\<close>: a case-insensitive,
  insertion-ordered multimap over two backings. The Boost.Beast \<open>basic_fields\<close> container behind the
  viewing backing is a parameter: \<open>beast_ops\<close> bundles the three operations the code calls on it, and
  \<open>beast_ops_ok\<close> is their documented meaning in terms of the iteration order.

  A mutator on a viewing backing asserts (\<open>as_owned\<close>); the model answers \<open>None\<close> there.
\<close>

definition lower :: "char \<Rightarrow> char" where
  "lower c = (if CHR ''A'' \<le> c \<and> c \<le> CHR ''Z'' then char_of (of_char c + (32 :: nat)) else c)"

fun does_equal_loop :: "string \<Rightarrow> string \<Rightarrow> bool" where
  "does_equal_loop (x # a) (y # b) = (if lower x \<noteq> lower y then False else does_equal_loop a b)"
| "does_equal_loop _ _ = True"

definition does_equal :: "string \<Rightarrow> string \<Rightarrow> bool" where
  "does_equal a b = (if length a \<noteq> length b then False else does_equal_loop a b)"

record 'f beast_ops =
  bf_find :: "'f \<Rightarrow> string \<Rightarrow> string option"
  bf_equal_range :: "'f \<Rightarrow> string \<Rightarrow> string list"
  bf_iter :: "'f \<Rightarrow> (string \<times> string) list"

datatype 'f headers = BeastBacking 'f | OwnedBacking "(string, string) entries"

definition headers_owned :: "'f headers" where
  "headers_owned = OwnedBacking []"

definition view_of_beast :: "'f \<Rightarrow> 'f headers" where
  "view_of_beast f = BeastBacking f"

fun promote_to_owned :: "'f beast_ops \<Rightarrow> 'f headers \<Rightarrow> 'f headers" where
  "promote_to_owned B (OwnedBacking es) = OwnedBacking es"
| "promote_to_owned B (BeastBacking f) = OwnedBacking (bf_iter B f)"

fun as_owned :: "'f headers \<Rightarrow> (string, string) entries option" where
  "as_owned (OwnedBacking es) = Some es"
| "as_owned (BeastBacking f) = None"

fun headers_get :: "'f beast_ops \<Rightarrow> 'f headers \<Rightarrow> string \<Rightarrow> string option" where
  "headers_get B (BeastBacking f) name = bf_find B f name"
| "headers_get B (OwnedBacking es) name = first_by does_equal name es"

definition headers_get_or :: "'f beast_ops \<Rightarrow> 'f headers \<Rightarrow> string \<Rightarrow> string \<Rightarrow> string" where
  "headers_get_or B h name fallback =
     (case headers_get B h name of Some v \<Rightarrow> v | None \<Rightarrow> fallback)"

fun headers_get_all :: "'f beast_ops \<Rightarrow> 'f headers \<Rightarrow> string \<Rightarrow> string list" where
  "headers_get_all B (BeastBacking f) name = bf_equal_range B f name"
| "headers_get_all B (OwnedBacking es) name = all_by does_equal name es"

definition headers_contains :: "'f beast_ops \<Rightarrow> 'f headers \<Rightarrow> string \<Rightarrow> bool" where
  "headers_contains B h name = (headers_get B h name \<noteq> None)"

definition headers_add :: "string \<Rightarrow> string \<Rightarrow> 'f headers \<Rightarrow> 'f headers option" where
  "headers_add name value h =
     map_option (\<lambda>es. OwnedBacking (es @ [(name, value)])) (as_owned h)"

definition headers_set :: "string \<Rightarrow> string \<Rightarrow> 'f headers \<Rightarrow> 'f headers option" where
  "headers_set name value h =
     map_option (\<lambda>es. OwnedBacking (erase_by does_equal name es @ [(name, value)])) (as_owned h)"

definition headers_remove :: "string \<Rightarrow> 'f headers \<Rightarrow> 'f headers option" where
  "headers_remove name h = map_option (\<lambda>es. OwnedBacking (erase_by does_equal name es)) (as_owned h)"

fun headers_size :: "'f beast_ops \<Rightarrow> 'f headers \<Rightarrow> nat" where
  "headers_size B (BeastBacking f) = length (bf_iter B f)"
| "headers_size B (OwnedBacking es) = length es"

text \<open>The iterator: a position, and for the viewing backing the rest of the Beast iteration.\<close>

record headers_iterator =
  idx :: nat
  beast_it :: "(string \<times> string) list"

fun headers_begin :: "'f beast_ops \<Rightarrow> 'f headers \<Rightarrow> headers_iterator" where
  "headers_begin B (BeastBacking f) = \<lparr>idx = 0, beast_it = bf_iter B f\<rparr>"
| "headers_begin B (OwnedBacking es) = \<lparr>idx = 0, beast_it = []\<rparr>"

fun headers_deref :: "'f headers \<Rightarrow> headers_iterator \<Rightarrow> (string \<times> string) option" where
  "headers_deref (BeastBacking f) it =
     (case beast_it it of [] \<Rightarrow> None | e # _ \<Rightarrow> Some e)"
| "headers_deref (OwnedBacking es) it = (if idx it < length es then Some (es ! idx it) else None)"

fun headers_next :: "'f headers \<Rightarrow> headers_iterator \<Rightarrow> headers_iterator" where
  "headers_next (BeastBacking f) it = it\<lparr>idx := idx it + 1, beast_it := tl (beast_it it)\<rparr>"
| "headers_next (OwnedBacking es) it = it\<lparr>idx := idx it + 1\<rparr>"

text \<open>\<open>for (auto [n, v] : headers)\<close>: dereference and advance until the position reaches \<open>end()\<close>,
  that is \<open>size()\<close>.\<close>

function iterate_from :: "'f beast_ops \<Rightarrow> 'f headers \<Rightarrow> headers_iterator \<Rightarrow> (string \<times> string) option list" where
  "iterate_from B h it =
     (if idx it < headers_size B h then headers_deref h it # iterate_from B h (headers_next h it) else [])"
  by pat_completeness auto
termination
proof (relation "measure (\<lambda>(B, h, it). headers_size B h - idx it)")
  fix B :: "'f beast_ops" and h :: "'f headers" and it :: headers_iterator
  assume "idx it < headers_size B h"
  then show "((B, h, headers_next h it), B, h, it) \<in> measure (\<lambda>(B, h, it). headers_size B h - idx it)"
    by (cases h) auto
qed simp

declare iterate_from.simps [simp del]

definition headers_iterate :: "'f beast_ops \<Rightarrow> 'f headers \<Rightarrow> (string \<times> string) option list" where
  "headers_iterate B h = iterate_from B h (headers_begin B h)"

definition beast_ops_ok :: "'f beast_ops \<Rightarrow> bool" where
  "beast_ops_ok B \<longleftrightarrow>
     (\<forall>f n. bf_find B f n = first_by does_equal n (bf_iter B f))
     \<and> (\<forall>f n. bf_equal_range B f n = all_by does_equal n (bf_iter B f))"

text \<open>A field container that is a plain list meets the documented behaviour.\<close>

definition list_fields :: "(string, string) entries beast_ops" where
  "list_fields = \<lparr>bf_find = (\<lambda>f n. first_by does_equal n f), bf_equal_range = (\<lambda>f n. all_by does_equal n f),
     bf_iter = (\<lambda>f. f)\<rparr>"

section \<open>Case-insensitive equality\<close>

lemma does_equal_map: "does_equal a b \<longleftrightarrow> map lower a = map lower b"
proof -
  have "length a = length b \<Longrightarrow> does_equal_loop a b \<longleftrightarrow> map lower a = map lower b"
    by (induction a b rule: list_induct2) auto
  moreover have "map lower a = map lower b \<Longrightarrow> length a = length b"
    by (metis length_map)
  ultimately show ?thesis by (auto simp: does_equal_def)
qed

interpretation hdr: key_equality does_equal
  by unfold_locales (auto simp: does_equal_map)

section \<open>The backings\<close>

fun entries_of :: "'f beast_ops \<Rightarrow> 'f headers \<Rightarrow> (string, string) entries" where
  "entries_of B (BeastBacking f) = bf_iter B f"
| "entries_of B (OwnedBacking es) = es"

lemma entries_of_promote [simp]: "entries_of B (promote_to_owned B h) = entries_of B h"
  by (cases h) auto

lemma headers_get_all_entries:
  "beast_ops_ok B \<Longrightarrow> headers_get_all B h name = all_by does_equal name (entries_of B h)"
  by (cases h) (auto simp: beast_ops_ok_def)

lemma headers_get_entries:
  "beast_ops_ok B \<Longrightarrow> headers_get B h name = first_by does_equal name (entries_of B h)"
  by (cases h) (auto simp: beast_ops_ok_def)

lemma headers_size_entries: "headers_size B h = length (entries_of B h)"
  by (cases h) auto

lemma iterate_from_owned:
  "iterate_from B (OwnedBacking es) it = map Some (drop (idx it) es)"
proof (induction "length es - idx it" arbitrary: it)
  case 0
  then show ?case by (subst iterate_from.simps) simp
next
  case (Suc n)
  then show ?case by (subst iterate_from.simps) (simp add: drop_nth_Cons [of "idx it"])
qed

lemma iterate_from_beast:
  assumes "beast_it it = drop (idx it) (bf_iter B f)"
  shows "iterate_from B (BeastBacking f) it = map Some (drop (idx it) (bf_iter B f))"
  using assms
proof (induction "length (bf_iter B f) - idx it" arbitrary: it)
  case 0
  then show ?case by (subst iterate_from.simps) simp
next
  case (Suc n)
  then show ?case
    by (subst iterate_from.simps) (simp add: drop_nth_Cons [of "idx it"] drop_Suc [symmetric] tl_drop)
qed

lemma headers_iterate_entries: "headers_iterate B h = map Some (entries_of B h)"
  by (cases h) (simp_all add: headers_iterate_def iterate_from_owned iterate_from_beast)

section \<open>Properties\<close>

text \<open>C29: Replacing a header. After \<open>set(name, value)\<close> on owned headers, the values of every
  spelling of that name are exactly the new value, the values of every other name are unchanged
  and in their order, and the number of entries drops by the number of replaced values, plus one.\<close>

theorem headers_set_correct:
  assumes "headers_set name value h = Some h'"
  shows "headers_get_all B h' other =
           (if does_equal name other then [value] else headers_get_all B h other)
       \<and> headers_size B h' + length (headers_get_all B h name) = headers_size B h + 1"
proof -
  obtain es where h: "h = OwnedBacking es" using assms by (cases h) (auto simp: headers_set_def)
  then have h': "h' = OwnedBacking (erase_by does_equal name es @ [(name, value)])"
    using assms by (simp add: headers_set_def)
  show ?thesis
    using length_all_by_erase [of does_equal name es]
      hdr.all_by_replace_same [of name other es "value"] hdr.all_by_replace_other [of name other es "value"]
    by (cases "does_equal name other") (simp_all add: h h')
qed

theorem headers_set_correct_witness:
  "headers_set ''A'' ''1'' (OwnedBacking [(''a'', ''0''), (''b'', ''2'')])
     = Some (OwnedBacking [(''b'', ''2''), (''A'', ''1'')] :: (string, string) entries headers)
   \<and> headers_get_all list_fields (OwnedBacking [(''b'', ''2''), (''A'', ''1'')]) ''a'' = [''1'']"
proof -
  have s: "headers_set ''A'' ''1'' (OwnedBacking [(''a'', ''0''), (''b'', ''2'')])
      = Some (OwnedBacking [(''b'', ''2''), (''A'', ''1'')] :: (string, string) entries headers)"
    by code_simp
  moreover have "does_equal ''A'' ''a''" by code_simp
  ultimately show ?thesis using headers_set_correct [OF s, of list_fields "''a''"] by presburger
qed

text \<open>C30: Promotion is invisible to readers. Copying a viewing backing into an owned one keeps the
  result of every lookup, of every multi-value lookup, the size and the iteration, and makes the
  headers writable.\<close>

theorem promote_to_owned_reads:
  assumes "beast_ops_ok B"
  shows "headers_get B (promote_to_owned B h) name = headers_get B h name
       \<and> headers_get_all B (promote_to_owned B h) name = headers_get_all B h name
       \<and> headers_size B (promote_to_owned B h) = headers_size B h
       \<and> headers_iterate B (promote_to_owned B h) = headers_iterate B h
       \<and> headers_set name value (promote_to_owned B h) \<noteq> None"
  using assms
  by (cases h) (simp_all add: headers_get_entries headers_get_all_entries headers_iterate_entries
      headers_size_entries headers_set_def del: headers_get.simps headers_get_all.simps)

theorem promote_to_owned_reads_witness:
  "beast_ops_ok list_fields
   \<and> headers_get list_fields (promote_to_owned list_fields (view_of_beast [(''a'', ''0'')])) ''A''
     = headers_get list_fields (view_of_beast [(''a'', ''0'')]) ''A''"
proof -
  have ok: "beast_ops_ok list_fields" by (simp add: beast_ops_ok_def list_fields_def)
  show ?thesis using ok promote_to_owned_reads [OF ok, of "view_of_beast [(''a'', ''0'')]" "''A''"] by blast
qed

end
