(* ===== verification/Http_Enums.thy ===== *)
theory Http_Enums
  imports Menagerie_Prelude
begin

text \<open>
  The wire vocabulary of the HTTP component,
  \<open>src/component/http-albatross/types/enums/http_enums.hpp\<close>. Boost.Beast's \<open>verb\<close> enumeration is
  represented by the enumerators the source names and one constructor for all others.
\<close>

datatype HttpMethod = unknown | get | post | put | patch | del | head | options

datatype HttpStatus =
    ok | created | accepted | no_content | moved_permanently | found | see_other | not_modified
  | temporary_redirect | permanent_redirect | bad_request | unauthorized | forbidden | not_found
  | method_not_allowed | conflict | gone | payload_too_large | unsupported_media_type
  | unprocessable_entity | too_many_requests | internal_server_error | not_implemented
  | bad_gateway | service_unavailable | gateway_timeout

datatype HttpVersion = http_1_0 | http_1_1 | http_2 | http_3

datatype beast_verb =
    V_get | V_post | V_put | V_patch | V_delete | V_head | V_options | V_unknown | V_other nat

definition HTTP_METHOD_COUNT :: nat where
  "HTTP_METHOD_COUNT = 8"

fun method_index :: "HttpMethod \<Rightarrow> nat" where
  "method_index unknown = 0"
| "method_index get = 1"
| "method_index post = 2"
| "method_index put = 3"
| "method_index patch = 4"
| "method_index del = 5"
| "method_index head = 6"
| "method_index options = 7"

definition method_of_index :: "nat \<Rightarrow> HttpMethod" where
  "method_of_index i = [unknown, get, post, put, patch, del, head, options] ! i"

fun status_code :: "HttpStatus \<Rightarrow> nat" where
  "status_code ok = 200"
| "status_code created = 201"
| "status_code accepted = 202"
| "status_code no_content = 204"
| "status_code moved_permanently = 301"
| "status_code found = 302"
| "status_code see_other = 303"
| "status_code not_modified = 304"
| "status_code temporary_redirect = 307"
| "status_code permanent_redirect = 308"
| "status_code bad_request = 400"
| "status_code unauthorized = 401"
| "status_code forbidden = 403"
| "status_code not_found = 404"
| "status_code method_not_allowed = 405"
| "status_code conflict = 409"
| "status_code gone = 410"
| "status_code payload_too_large = 413"
| "status_code unsupported_media_type = 415"
| "status_code unprocessable_entity = 422"
| "status_code too_many_requests = 429"
| "status_code internal_server_error = 500"
| "status_code not_implemented = 501"
| "status_code bad_gateway = 502"
| "status_code service_unavailable = 503"
| "status_code gateway_timeout = 504"

fun method_to_string_view :: "HttpMethod \<Rightarrow> string" where
  "method_to_string_view get = ''GET''"
| "method_to_string_view post = ''POST''"
| "method_to_string_view put = ''PUT''"
| "method_to_string_view patch = ''PATCH''"
| "method_to_string_view del = ''DELETE''"
| "method_to_string_view head = ''HEAD''"
| "method_to_string_view options = ''OPTIONS''"
| "method_to_string_view unknown = ''UNKNOWN''"

fun method_from_beast :: "beast_verb \<Rightarrow> HttpMethod" where
  "method_from_beast V_get = get"
| "method_from_beast V_post = post"
| "method_from_beast V_put = put"
| "method_from_beast V_patch = patch"
| "method_from_beast V_delete = del"
| "method_from_beast V_head = head"
| "method_from_beast V_options = options"
| "method_from_beast _ = unknown"

fun method_to_beast :: "HttpMethod \<Rightarrow> beast_verb" where
  "method_to_beast get = V_get"
| "method_to_beast post = V_post"
| "method_to_beast put = V_put"
| "method_to_beast patch = V_patch"
| "method_to_beast del = V_delete"
| "method_to_beast head = V_head"
| "method_to_beast options = V_options"
| "method_to_beast unknown = V_unknown"

fun version_to_beast :: "HttpVersion \<Rightarrow> nat" where
  "version_to_beast http_1_0 = 10"
| "version_to_beast http_1_1 = 11"
| "version_to_beast http_2 = 20"
| "version_to_beast http_3 = 30"

definition version_from_beast :: "nat \<Rightarrow> HttpVersion" where
  "version_from_beast v =
     (if v = 10 then http_1_0 else if v = 11 then http_1_1
      else if v = 20 then http_2 else if v = 30 then http_3 else http_1_1)"

lemma method_index_less [simp]: "method_index m < HTTP_METHOD_COUNT"
  by (cases m) (simp_all add: HTTP_METHOD_COUNT_def)

lemma method_of_index_index [simp]: "method_of_index (method_index m) = m"
  by (cases m) (simp_all add: method_of_index_def)

lemma method_index_inject [simp]: "method_index m = method_index m' \<longleftrightarrow> m = m'"
  by (metis method_of_index_index)

lemma method_index_of_index [simp]: "i < HTTP_METHOD_COUNT \<Longrightarrow> method_index (method_of_index i) = i"
  by (auto simp: method_of_index_def HTTP_METHOD_COUNT_def less_Suc_eq numeral_eq_Suc)

lemma method_index_0 [simp]: "method_index m = 0 \<longleftrightarrow> m = unknown"
  by (cases m) auto

lemma method_beast_roundtrip: "method_from_beast (method_to_beast m) = m"
  by (cases m) auto

lemma version_beast_roundtrip: "version_from_beast (version_to_beast v) = v"
  by (cases v) (auto simp: version_from_beast_def)

lemma method_to_string_view_inject: "inj method_to_string_view"
proof (rule injI)
  fix x y
  show "method_to_string_view x = method_to_string_view y \<Longrightarrow> x = y" by (cases x; cases y) simp_all
qed

end
