(* ===== verification/Http_Errors.thy ===== *)
theory Http_Errors
  imports Http_Enums
begin

text \<open>
  The typed errors of the HTTP component,
  \<open>src/component/http-albatross/types/errors/errors.hpp\<close>: one constructor per error struct, with the
  struct's members as arguments. A \<open>std::variant\<close> of some of them is a value of this type.
\<close>

record FieldError =
  field_name :: string
  field_detail :: string

datatype http_error =
    BadRequestError string
  | UnauthorizedError string
  | ForbiddenError string
  | NotFoundError string string
  | ConflictError string
  | UnprocessableEntityError string "FieldError list"
  | PayloadTooLargeError nat
  | MethodNotAllowedError "HttpMethod list"
  | JsonParseError string
  | FormParseError string
  | MultipartParseError string
  | BodyLimitExceeded nat

end
