(* ===== verification/Http_Body.thy ===== *)
theory Http_Body
  imports Url_Decode Http_Errors
begin

text \<open>
  Request and response bodies, \<open>src/component/http-albatross/types/body/body.{hpp,cpp}\<close>. A body is
  one of three payloads; the type-erased calls through the vtable are the functions on the
  \<open>body\<close> datatype. Asynchronous reads are sequential from the reader's point of view and become
  state passing: each read returns the body it leaves behind.

  \<open>drain\<close> is the loop behind every buffered helper. \<open>read_form\<close> is the strict parser of
  \<open>application/x-www-form-urlencoded\<close> bodies. The JSON parser (JsonCpp) is a parameter of
  \<open>read_json\<close>.
\<close>

datatype body =
    EmptyPayload
  | BeastRequestBody string bool
  | OwnedBufferPayload string bool

definition body_empty :: body where
  "body_empty = EmptyPayload"

definition body_owned :: "string \<Rightarrow> body" where
  "body_owned bytes = OwnedBufferPayload bytes False"

definition beast_view :: "string \<Rightarrow> body" where
  "beast_view bytes = BeastRequestBody bytes False"

text \<open>Move construction: the new body, and what is left in the source.\<close>

definition body_move :: "body \<Rightarrow> body \<times> body" where
  "body_move o' = (o', EmptyPayload)"

text \<open>Move assignment from a body to another one (first argument), or to itself.\<close>

definition body_move_assign :: "body \<Rightarrow> body \<Rightarrow> bool \<Rightarrow> body \<times> body" where
  "body_move_assign self o' same_object = (if same_object then (self, self) else (o', EmptyPayload))"

fun read_chunk :: "body \<Rightarrow> string option \<times> body" where
  "read_chunk EmptyPayload = (None, EmptyPayload)"
| "read_chunk (BeastRequestBody bytes consumed) =
     (if consumed \<or> bytes = [] then (None, BeastRequestBody bytes True)
      else (Some bytes, BeastRequestBody bytes True))"
| "read_chunk (OwnedBufferPayload bytes consumed) =
     (if consumed \<or> bytes = [] then (None, OwnedBufferPayload bytes True)
      else (Some bytes, OwnedBufferPayload bytes True))"

fun size_hint :: "body \<Rightarrow> nat option" where
  "size_hint EmptyPayload = Some 0"
| "size_hint (BeastRequestBody bytes _) = Some (length bytes)"
| "size_hint (OwnedBufferPayload bytes _) = Some (length bytes)"

fun buffered_view :: "body \<Rightarrow> string option" where
  "buffered_view EmptyPayload = Some []"
| "buffered_view (BeastRequestBody bytes _) = Some bytes"
| "buffered_view (OwnedBufferPayload bytes _) = Some bytes"

text \<open>The number of chunks a body still has to give.\<close>

fun chunks_left :: "body \<Rightarrow> nat" where
  "chunks_left EmptyPayload = 0"
| "chunks_left (BeastRequestBody bytes consumed) = (if consumed \<or> bytes = [] then 0 else 1)"
| "chunks_left (OwnedBufferPayload bytes consumed) = (if consumed \<or> bytes = [] then 0 else 1)"

lemma read_chunk_progress: "read_chunk b = (Some c, b') \<Longrightarrow> chunks_left b' < chunks_left b"
  by (cases b) (auto split: if_splits)

function drain_loop :: "body \<Rightarrow> nat \<Rightarrow> string \<Rightarrow> (http_error, string) result \<times> body" where
  "drain_loop b limit out =
     (case read_chunk b of
        (None, b') \<Rightarrow> (Inr out, b')
      | (Some chunk, b') \<Rightarrow>
          (if length out + length chunk > limit then (Inl (BodyLimitExceeded limit), b')
           else drain_loop b' limit (out @ chunk)))"
  by pat_completeness auto
termination
  by (relation "measure (\<lambda>(b, limit, out). chunks_left b)") (auto dest!: read_chunk_progress [OF sym])

declare drain_loop.simps [simp del]

definition drain :: "body \<Rightarrow> nat \<Rightarrow> (http_error, string) result \<times> body" where
  "drain b limit = drain_loop b limit []"

definition read_to_string :: "body \<Rightarrow> nat \<Rightarrow> (http_error, string) result \<times> body" where
  "read_to_string b limit = drain b limit"

text \<open>\<open>parseFromStream\<close> is \<open>parse\<close>: a value or the error text.\<close>

definition read_json ::
    "(string \<Rightarrow> (string, 'j) result) \<Rightarrow> body \<Rightarrow> nat \<Rightarrow> (http_error, 'j) result \<times> body" where
  "read_json parse b limit =
     (case drain b limit of
        (Inl e, b') \<Rightarrow> (Inl e, b')
      | (Inr d, b') \<Rightarrow>
          (case parse d of
             Inl err \<Rightarrow> (Inl (JsonParseError err), b')
           | Inr root \<Rightarrow> (Inr root, b')))"

text \<open>One \<open>key=value\<close> pair: the raw key and the raw value around the first equals sign.\<close>

definition split_pair :: "string \<Rightarrow> string \<times> string" where
  "split_pair pair =
     (case find_char CHR ''='' pair of
        None \<Rightarrow> (pair, [])
      | Some eq \<Rightarrow> (take eq pair, drop (eq + 1) pair))"

text \<open>The pair that starts at \<open>i\<close>, up to the next ampersand \<open>amp\<close> or the end.\<close>

definition pair_at :: "string \<Rightarrow> nat \<Rightarrow> nat option \<Rightarrow> string" where
  "pair_at body i amp =
     (case amp of None \<Rightarrow> substr body i (length body - i) | Some a \<Rightarrow> substr body i (a - i))"

lemma find_char_from_ge: "find_char_from c s i = Some j \<Longrightarrow> i \<le> j \<and> j < length s"
  by (auto simp: find_char_from_def find_char_Some)

function form_loop :: "string \<Rightarrow> nat \<Rightarrow> (string \<rightharpoonup> string) \<Rightarrow> (http_error, string \<rightharpoonup> string) result" where
  "form_loop body i out =
     (if i < length body then
        let amp = find_char_from CHR ''&'' body i;
            (rk, rv) = split_pair (pair_at body i amp) in
        if rk = [] then Inl (FormParseError ''empty key'')
        else
          (case (url_decode rk True, url_decode rv True) of
             (Some k, Some v) \<Rightarrow>
               (case amp of
                  None \<Rightarrow> Inr (out(k \<mapsto> v))
                | Some a \<Rightarrow> form_loop body (a + 1) (out(k \<mapsto> v)))
           | _ \<Rightarrow> Inl (FormParseError ''invalid percent-escape''))
      else Inr out)"
  by pat_completeness auto
termination
  by (relation "measure (\<lambda>(body, i, out). length body - i)") (auto dest!: sym [THEN find_char_from_ge])

declare form_loop.simps [simp del]

definition read_form :: "body \<Rightarrow> nat \<Rightarrow> (http_error, string \<rightharpoonup> string) result \<times> body" where
  "read_form b limit =
     (case drain b limit of
        (Inl e, b') \<Rightarrow> (Inl e, b')
      | (Inr d, b') \<Rightarrow> (form_loop d 0 Map.empty, b'))"

section \<open>Draining\<close>

text \<open>What a body has not yet delivered.\<close>

fun pending :: "body \<Rightarrow> string" where
  "pending EmptyPayload = []"
| "pending (BeastRequestBody bytes consumed) = (if consumed then [] else bytes)"
| "pending (OwnedBufferPayload bytes consumed) = (if consumed then [] else bytes)"

lemma drain_pending:
  "fst (drain b limit) =
     (if length (pending b) \<le> limit then Inr (pending b) else Inl (BodyLimitExceeded limit))"
  by (cases b) (simp_all add: drain_def drain_loop.simps)

lemma drain_leaves_nothing: "pending (snd (drain b limit)) = []"
  by (cases b) (simp_all add: drain_def drain_loop.simps)

section \<open>Forms\<close>

text \<open>One turn of the loop, on the pair it looks at.\<close>

definition add_pair :: "string \<Rightarrow> (string \<rightharpoonup> string) \<Rightarrow> (http_error, string \<rightharpoonup> string) result" where
  "add_pair pair out =
     (let (rk, rv) = split_pair pair in
      if rk = [] then Inl (FormParseError ''empty key'')
      else
        (case (url_decode rk True, url_decode rv True) of
           (Some k, Some v) \<Rightarrow> Inr (out(k \<mapsto> v))
         | _ \<Rightarrow> Inl (FormParseError ''invalid percent-escape'')))"

lemma form_loop_end: "length body \<le> i \<Longrightarrow> form_loop body i out = Inr out"
  by (subst form_loop.simps) simp

lemma form_loop_last:
  assumes "i < length body" "CHR ''&'' \<notin> set (drop i body)"
  shows "form_loop body i out = add_pair (drop i body) out"
proof -
  have "find_char_from CHR ''&'' body i = None" using assms by (simp add: find_char_from_def)
  then show ?thesis
    using assms by (subst form_loop.simps)
      (auto simp: add_pair_def pair_at_def substr_def split: option.split prod.split)
qed

lemma form_loop_more:
  assumes "drop i body = p @ CHR ''&'' # rest" "CHR ''&'' \<notin> set p"
  shows "form_loop body i out = bind_result (add_pair p out) (form_loop body (i + length p + 1))"
proof -
  have i: "i < length body" using assms(1) by (metis append_is_Nil_conv drop_all leI list.distinct(1))
  have "find_char_from CHR ''&'' body i = Some (i + length p)"
    using assms by (simp add: find_char_from_def)
  moreover have "pair_at body i (Some (i + length p)) = p"
    using assms by (simp add: pair_at_def substr_def)
  ultimately show ?thesis
    using i by (subst form_loop.simps)
      (auto simp: add_pair_def split: option.split prod.split)
qed

fun join_amp :: "string list \<Rightarrow> string" where
  "join_amp [] = []"
| "join_amp [p] = p"
| "join_amp (p # q # ps) = p @ CHR ''&'' # join_amp (q # ps)"

fun add_pairs :: "string list \<Rightarrow> (string \<rightharpoonup> string) \<Rightarrow> (http_error, string \<rightharpoonup> string) result" where
  "add_pairs [] out = Inr out"
| "add_pairs (p # ps) out = bind_result (add_pair p out) (add_pairs ps)"

lemma form_loop_join:
  assumes "drop i body = join_amp ps" "\<And>p. p \<in> set ps \<Longrightarrow> p \<noteq> [] \<and> CHR ''&'' \<notin> set p"
  shows "form_loop body i out = add_pairs ps out"
  using assms
proof (induction ps arbitrary: i out rule: join_amp.induct)
  case 1
  then show ?case by (simp add: form_loop_end)
next
  case (2 p)
  then have "i < length body" by (metis drop_all join_amp.simps(2) leI list.set_intros(1))
  moreover have "bind_result r Inr = r" for r :: "(http_error, string \<rightharpoonup> string) result"
    by (cases r) auto
  ultimately show ?case using 2 by (simp add: form_loop_last bind_result_def) (simp split: sum.splits)
next
  case (3 p q ps)
  then have d: "drop i body = p @ CHR ''&'' # join_amp (q # ps)" and p: "CHR ''&'' \<notin> set p" by auto
  have "drop (i + length p + 1) body = drop (length p + 1) (drop i body)" by (simp add: ac_simps)
  also have "\<dots> = join_amp (q # ps)" by (simp add: d)
  finally have "form_loop body (i + length p + 1) out' = add_pairs (q # ps) out'" for out'
    using "3.IH" "3.prems"(2) by (metis list.set_intros(2))
  then show ?case using form_loop_more [OF d p]
    by (simp add: bind_result_def split: sum.splits)
qed

text \<open>A pair as a client escapes it: the tokens of its key and of its value.\<close>

type_synonym form_pair = "tok list \<times> tok list"

definition render_pair :: "form_pair \<Rightarrow> string" where
  "render_pair p = concat (map tok_text (fst p)) @ CHR ''='' # concat (map tok_text (snd p))"

definition form_pair_ok :: "form_pair \<Rightarrow> bool" where
  "form_pair_ok p \<longleftrightarrow>
     fst p \<noteq> [] \<and> list_all (tok_ok True) (fst p) \<and> list_all (tok_ok True) (snd p)
     \<and> Lit CHR ''='' \<notin> set (fst p) \<and> Lit CHR ''&'' \<notin> set (fst p) \<and> Lit CHR ''&'' \<notin> set (snd p)"

definition decode_pair :: "form_pair \<Rightarrow> string \<times> string" where
  "decode_pair p = (map tok_byte (fst p), map tok_byte (snd p))"

definition render_form :: "form_pair list \<Rightarrow> string" where
  "render_form ps = join_amp (map render_pair ps)"

lemma hex_number_separators [simp]: "hex_number CHR ''='' = None" "hex_number CHR ''&'' = None"
  by (code_simp, code_simp)

lemma tok_text_notin:
  assumes "list_all (tok_ok True) ts" "Lit c \<notin> set ts" "c \<in> {CHR ''='', CHR ''&''}"
  shows "c \<notin> set (concat (map tok_text ts))"
proof -
  have "c \<notin> set (tok_text t)" if t: "t \<in> set ts" for t
  proof -
    have "tok_ok True t" "t \<noteq> Lit c" using t assms by (auto simp: list_all_iff)
    then show ?thesis using assms(3) by (cases t) auto
  qed
  then show ?thesis by auto
qed

lemma split_pair_render:
  assumes "form_pair_ok p"
  shows "split_pair (render_pair p) = (concat (map tok_text (fst p)), concat (map tok_text (snd p)))"
  using assms tok_text_notin [of "fst p" "CHR ''=''"]
  by (simp add: split_pair_def render_pair_def form_pair_ok_def)

lemma add_pair_render:
  assumes "form_pair_ok p"
  shows "add_pair (render_pair p) out = Inr (out(fst (decode_pair p) \<mapsto> snd (decode_pair p)))"
proof -
  note split_pair_render [OF assms]
  moreover have "concat (map tok_text (fst p)) \<noteq> []"
    using assms by (cases "fst p"; cases "hd (fst p)") (auto simp: form_pair_ok_def)
  ultimately show ?thesis
    using assms by (simp add: add_pair_def url_decode_spec form_pair_ok_def decode_spec_toks decode_pair_def)
qed

lemma add_pairs_render:
  assumes "list_all form_pair_ok ps"
  shows "add_pairs (map render_pair ps) out = Inr (out ++ map_of (rev (map decode_pair ps)))"
  using assms
proof (induction ps arbitrary: out)
  case (Cons p ps)
  have "out(fst (decode_pair p) \<mapsto> snd (decode_pair p)) ++ m = out ++ (map_of [decode_pair p] ++ m)" for m
    by (cases "decode_pair p") (simp add: map_add_assoc [symmetric] map_add_def fun_eq_iff split: option.split)
  with Cons show ?case by (simp add: add_pair_render map_of_append) 
qed simp

lemma render_pair_pieces:
  "form_pair_ok p \<Longrightarrow> render_pair p \<noteq> [] \<and> CHR ''&'' \<notin> set (render_pair p)"
  using tok_text_notin [of "fst p" "CHR ''&''"] tok_text_notin [of "snd p" "CHR ''&''"]
  by (auto simp: render_pair_def form_pair_ok_def)

section \<open>Properties\<close>

text \<open>C20: Form round trip. A form body in which every key and value is percent-escaped in any
  admissible way is parsed into exactly the decoded pairs, a later pair overriding an earlier one
  with the same key, provided it fits the size limit.\<close>

theorem read_form_roundtrip:
  assumes "list_all form_pair_ok ps" and "length (render_form ps) \<le> limit"
  shows "fst (read_form (body_owned (render_form ps)) limit)
         = Inr (map_of (rev (map decode_pair ps)))"
proof -
  have "form_loop (render_form ps) 0 Map.empty = add_pairs (map render_pair ps) Map.empty"
    using assms(1) render_pair_pieces
    by (intro form_loop_join) (auto simp: render_form_def list_all_iff)
  moreover have "fst (drain (body_owned (render_form ps)) limit) = Inr (render_form ps)"
    using assms(2) by (simp add: drain_pending body_owned_def)
  ultimately show ?thesis
    using assms(1) by (auto simp: read_form_def add_pairs_render split: prod.split sum.split)
qed

theorem read_form_roundtrip_witness:
  "fst (read_form (body_owned (render_form [([Lit CHR ''k''], [Plus, Esc CHR ''4'' CHR ''1''])])) 8)
   = Inr [''k'' \<mapsto> '' A'']"
proof -
  have "list_all form_pair_ok [([Lit CHR ''k''], [Plus, Esc CHR ''4'' CHR ''1''])]" by code_simp
  moreover have "length (render_form [([Lit CHR ''k''], [Plus, Esc CHR ''4'' CHR ''1''])]) \<le> 8" by code_simp
  moreover have "decode_pair ([Lit CHR ''k''], [Plus, Esc CHR ''4'' CHR ''1'']) = (''k'', '' A'')" by code_simp
  ultimately show ?thesis
    using read_form_roundtrip [of "[([Lit CHR ''k''], [Plus, Esc CHR ''4'' CHR ''1''])]" 8] by simp
qed

text \<open>C31: The body limit is enforced on every buffered read. Draining a body returns all of the
  bytes it has not yet delivered when they fit the limit and the limit error otherwise, never a
  truncated body, and leaves nothing to be read a second time.\<close>

theorem read_to_string_limit:
  "fst (read_to_string b limit) =
     (if length (pending b) \<le> limit then Inr (pending b) else Inl (BodyLimitExceeded limit))
   \<and> pending (snd (read_to_string b limit)) = []"
  by (simp add: read_to_string_def drain_pending drain_leaves_nothing)

end
