(* ===== verification/Http_Response.thy ===== *)
theory Http_Response
  imports Http_Headers Http_Body
begin

text \<open>
  Responses, their factory and the mapping of errors to responses:
  \<open>types/response/response.hpp\<close>, \<open>types/response_factory/response_factory.cpp\<close> and
  \<open>types/errors/errors.cpp\<close> of \<open>src/component/http-albatross\<close>.

  A response is constructed with owned headers and is only ever move-assigned from another response,
  so the record keeps the owned entries directly. The sticky allocator carries no observable state.
\<close>

record Response =
  status :: HttpStatus
  version :: HttpVersion
  keep_alive :: bool
  resp_headers :: "(string, string) entries"
  resp_body :: body

definition new_response :: Response where
  "new_response =
     \<lparr>status = ok, version = http_1_1, keep_alive = True, resp_headers = [], resp_body = body_empty\<rparr>"

definition with_status :: "HttpStatus \<Rightarrow> Response \<Rightarrow> Response" where
  "with_status s r = r\<lparr>status := s\<rparr>"

definition with_version :: "HttpVersion \<Rightarrow> Response \<Rightarrow> Response" where
  "with_version v r = r\<lparr>version := v\<rparr>"

definition with_keep_alive :: "bool \<Rightarrow> Response \<Rightarrow> Response" where
  "with_keep_alive k r = r\<lparr>keep_alive := k\<rparr>"

definition set_header :: "string \<Rightarrow> string \<Rightarrow> Response \<Rightarrow> Response" where
  "set_header n v r = r\<lparr>resp_headers := erase_by does_equal n (resp_headers r) @ [(n, v)]\<rparr>"

definition add_header :: "string \<Rightarrow> string \<Rightarrow> Response \<Rightarrow> Response" where
  "add_header n v r = r\<lparr>resp_headers := resp_headers r @ [(n, v)]\<rparr>"

definition with_body :: "string \<Rightarrow> Response \<Rightarrow> Response" where
  "with_body content r = r\<lparr>resp_body := body_owned content\<rparr>"

section \<open>The factory\<close>

definition factory_with_body :: "HttpStatus \<Rightarrow> string \<Rightarrow> string \<Rightarrow> Response" where
  "factory_with_body s body ct =
     (add_header ''Content-Type'' ct (new_response\<lparr>status := s\<rparr>))\<lparr>resp_body := body_owned body\<rparr>"

definition factory_ok :: "string \<Rightarrow> string \<Rightarrow> Response" where
  "factory_ok body ct = factory_with_body ok body ct"

definition factory_json :: "string \<Rightarrow> Response" where
  "factory_json body = factory_with_body ok body ''application/json''"

definition factory_created :: "string \<Rightarrow> string \<Rightarrow> Response" where
  "factory_created body ct = factory_with_body created body ct"

definition factory_no_content :: Response where
  "factory_no_content = new_response\<lparr>status := no_content\<rparr>"

definition factory_redirect :: "string \<Rightarrow> HttpStatus \<Rightarrow> Response" where
  "factory_redirect location s = add_header ''Location'' location (new_response\<lparr>status := s\<rparr>)"

definition factory_not_found :: "string \<Rightarrow> Response" where
  "factory_not_found body = factory_with_body not_found body ''text/plain''"

definition factory_bad_request :: "string \<Rightarrow> Response" where
  "factory_bad_request body = factory_with_body bad_request body ''text/plain''"

definition factory_unauthorized :: "string \<Rightarrow> Response" where
  "factory_unauthorized body = factory_with_body unauthorized body ''text/plain''"

definition factory_forbidden :: "string \<Rightarrow> Response" where
  "factory_forbidden body = factory_with_body forbidden body ''text/plain''"

definition factory_conflict :: "string \<Rightarrow> Response" where
  "factory_conflict body = factory_with_body conflict body ''text/plain''"

definition factory_payload_too_large :: "string \<Rightarrow> Response" where
  "factory_payload_too_large body = factory_with_body payload_too_large body ''text/plain''"

definition factory_unprocessable_entity :: "string \<Rightarrow> Response" where
  "factory_unprocessable_entity body = factory_with_body unprocessable_entity body ''text/plain''"

definition factory_internal_error :: "string \<Rightarrow> Response" where
  "factory_internal_error body = factory_with_body internal_server_error body ''text/plain''"

fun allow_loop :: "bool \<Rightarrow> string \<Rightarrow> HttpMethod list \<Rightarrow> string" where
  "allow_loop first v [] = v"
| "allow_loop first v (m # ms) =
     allow_loop False ((if first then v else v @ '', '') @ method_to_string_view m) ms"

definition factory_method_not_allowed :: "HttpMethod list \<Rightarrow> Response" where
  "factory_method_not_allowed allow =
     add_header ''Allow'' (allow_loop True [] allow) (new_response\<lparr>status := method_not_allowed\<rparr>)"

definition factory_custom :: "HttpStatus \<Rightarrow> string \<Rightarrow> string \<Rightarrow> Response" where
  "factory_custom s body ct = factory_with_body s body ct"

section \<open>Errors as responses\<close>

fun to_http_response :: "http_error \<Rightarrow> Response" where
  "to_http_response (BadRequestError msg) = factory_bad_request msg"
| "to_http_response (UnauthorizedError msg) = factory_unauthorized msg"
| "to_http_response (ForbiddenError msg) = factory_forbidden msg"
| "to_http_response (NotFoundError resource ident) =
     factory_not_found ((if ident = [] then resource else resource @ '' '' @ ident) @ '' not found'')"
| "to_http_response (ConflictError msg) = factory_conflict msg"
| "to_http_response (UnprocessableEntityError msg fs) =
     factory_unprocessable_entity
       (msg @ concat (map (\<lambda>f. [CHR 0x0A] @ field_name f @ '': '' @ field_detail f) fs))"
| "to_http_response (PayloadTooLargeError limit) =
     factory_payload_too_large (''Payload Too Large (limit '' @ decimal limit @ '' bytes)'')"
| "to_http_response (MethodNotAllowedError allowed) = factory_method_not_allowed allowed"
| "to_http_response (JsonParseError detail) = factory_bad_request (''JSON parse error: '' @ detail)"
| "to_http_response (FormParseError detail) = factory_bad_request (''Form parse error: '' @ detail)"
| "to_http_response (MultipartParseError detail) = factory_bad_request (''Multipart parse error: '' @ detail)"
| "to_http_response (BodyLimitExceeded limit) =
     factory_payload_too_large (''Body Limit Exceeded ('' @ decimal limit @ '' bytes)'')"

lemmas factory_defs =
  factory_ok_def factory_json_def factory_created_def factory_no_content_def factory_redirect_def
  factory_not_found_def factory_bad_request_def factory_unauthorized_def factory_forbidden_def
  factory_conflict_def factory_payload_too_large_def factory_unprocessable_entity_def
  factory_internal_error_def factory_method_not_allowed_def factory_custom_def factory_with_body_def
  new_response_def add_header_def

section \<open>The Allow header\<close>

text \<open>Reading a list of tokens separated by a comma and a space back.\<close>

fun comma_tokens :: "string \<Rightarrow> string list" where
  "comma_tokens (c # d # cs) =
     (if c = CHR '','' \<and> d = CHR '' '' then [] # comma_tokens cs
      else (case comma_tokens (d # cs) of [] \<Rightarrow> [[c]] | p # ps \<Rightarrow> (c # p) # ps))"
| "comma_tokens p = [p]"

lemma allow_loop_rest:
  "allow_loop False v ms = v @ concat (map (\<lambda>m. '', '' @ method_to_string_view m) ms)"
  by (induction ms arbitrary: v) auto

lemma comma_tokens_single: "CHR '','' \<notin> set p \<Longrightarrow> comma_tokens p = [p]"
  by (induction p rule: comma_tokens.induct) auto

lemma comma_tokens_append: "CHR '','' \<notin> set p \<Longrightarrow> comma_tokens (p @ '', '' @ r) = p # comma_tokens r"
proof (induction p)
  case (Cons c p)
  then show ?case by (cases p) auto
qed simp

lemma method_name_no_comma [simp]: "CHR '','' \<notin> set (method_to_string_view m)"
  by (cases m) auto

lemma comma_tokens_allow:
  "comma_tokens (method_to_string_view m @ concat (map (\<lambda>m. '', '' @ method_to_string_view m) ms))
   = map method_to_string_view (m # ms)"
proof (induction ms arbitrary: m)
  case (Cons m' ms)
  then show ?case using comma_tokens_append [OF method_name_no_comma [of m]] by simp
qed (simp add: comma_tokens_single)

lemma allow_header_tokens:
  "ms \<noteq> [] \<Longrightarrow> comma_tokens (allow_loop True [] ms) = map method_to_string_view ms"
  using comma_tokens_allow [of "hd ms" "tl ms"]
  by (cases ms) (simp_all add: allow_loop_rest del: comma_tokens.simps)

end
