(* ===== verification/Request_Context.thy ===== *)
theory Request_Context
  imports Http_Response "HOL-Library.Multiset"
begin

text \<open>
  The handler-facing request, \<open>types/request_context/request_context.{hpp,cpp}\<close> of
  \<open>src/component/http-albatross\<close>.

  The memoised members of the class are fields of the record; an accessor that fills a cache returns
  the updated context beside its result. The type-keyed bag stores payload pointers: a payload is
  identified by the address it was constructed at, \<open>destroyed\<close> lists the destructor calls that have
  run, and \<open>next_addr\<close> is the next free arena address.
\<close>

record 'f Request =
  req_method :: HttpMethod
  req_target :: string
  req_version :: HttpVersion
  req_headers :: "'f headers"
  req_body :: body

record ('k, 'v) bag_entry =
  bag_key :: 'k
  bag_ptr :: "(nat \<times> 'v) option"

record ('f, 'k, 'v) RequestContext =
  request :: "'f Request"
  path_param_vec :: "(string, string) entries"
  query_parsed :: bool
  query_param_vec :: "(string, string) entries"
  bag :: "('k, 'v) bag_entry list"
  next_addr :: nat
  destroyed :: "nat list"
  cached_path :: "string option"
  cached_query :: "string option"

definition new_context :: "'f Request \<Rightarrow> ('f, 'k, 'v) RequestContext" where
  "new_context req =
     \<lparr>request = req, path_param_vec = [], query_parsed = False, query_param_vec = [], bag = [],
      next_addr = 0, destroyed = [], cached_path = None, cached_query = None\<rparr>"

section \<open>Target\<close>

definition ensure_split :: "('f, 'k, 'v) RequestContext \<Rightarrow> ('f, 'k, 'v) RequestContext" where
  "ensure_split ctx =
     (if cached_path ctx \<noteq> None then ctx
      else
        let t = req_target (request ctx) in
        (case find_char CHR ''?'' t of
           None \<Rightarrow> ctx\<lparr>cached_path := Some t, cached_query := Some []\<rparr>
         | Some q \<Rightarrow> ctx\<lparr>cached_path := Some (take q t), cached_query := Some (drop (q + 1) t)\<rparr>))"

definition ctx_path :: "('f, 'k, 'v) RequestContext \<Rightarrow> string option \<times> ('f, 'k, 'v) RequestContext" where
  "ctx_path ctx = (let ctx' = ensure_split ctx in (cached_path ctx', ctx'))"

definition query_string :: "('f, 'k, 'v) RequestContext \<Rightarrow> string option \<times> ('f, 'k, 'v) RequestContext" where
  "query_string ctx = (let ctx' = ensure_split ctx in (cached_query ctx', ctx'))"

section \<open>Headers\<close>

definition contains_substr :: "string \<Rightarrow> string \<Rightarrow> bool" where
  "contains_substr hay needle = (find_sub needle hay 0 \<noteq> None)"

definition ctx_header :: "'f beast_ops \<Rightarrow> ('f, 'k, 'v) RequestContext \<Rightarrow> string \<Rightarrow> string option" where
  "ctx_header B ctx name = headers_get B (req_headers (request ctx)) name"

definition header_matches ::
    "'f beast_ops \<Rightarrow> ('f, 'k, 'v) RequestContext \<Rightarrow> string \<Rightarrow> string list \<Rightarrow> bool" where
  "header_matches B ctx name needles =
     (case ctx_header B ctx name of None \<Rightarrow> False | Some v \<Rightarrow> list_ex (contains_substr v) needles)"

definition is_json :: "'f beast_ops \<Rightarrow> ('f, 'k, 'v) RequestContext \<Rightarrow> bool" where
  "is_json B ctx = header_matches B ctx ''content-type'' [''application/json'']"

definition is_form :: "'f beast_ops \<Rightarrow> ('f, 'k, 'v) RequestContext \<Rightarrow> bool" where
  "is_form B ctx = header_matches B ctx ''content-type'' [''application/x-www-form-urlencoded'']"

definition is_multipart :: "'f beast_ops \<Rightarrow> ('f, 'k, 'v) RequestContext \<Rightarrow> bool" where
  "is_multipart B ctx = header_matches B ctx ''content-type'' [''multipart/form-data'']"

definition accepts_json :: "'f beast_ops \<Rightarrow> ('f, 'k, 'v) RequestContext \<Rightarrow> bool" where
  "accepts_json B ctx = header_matches B ctx ''accept'' [''application/json'', ''*/*'']"

definition accepts_html :: "'f beast_ops \<Rightarrow> ('f, 'k, 'v) RequestContext \<Rightarrow> bool" where
  "accepts_html B ctx = header_matches B ctx ''accept'' [''text/html'', ''*/*'']"

section \<open>Path and query parameters\<close>

definition set_path_param :: "string \<Rightarrow> string \<Rightarrow> ('f, 'k, 'v) RequestContext \<Rightarrow> ('f, 'k, 'v) RequestContext" where
  "set_path_param name v ctx = ctx\<lparr>path_param_vec := path_param_vec ctx @ [(name, v)]\<rparr>"

definition raw_path_param :: "('f, 'k, 'v) RequestContext \<Rightarrow> string \<Rightarrow> string option" where
  "raw_path_param ctx name = first_by (=) name (path_param_vec ctx)"

text \<open>The query loop: a malformed escape skips its pair.\<close>

function query_loop :: "string \<Rightarrow> nat \<Rightarrow> (string, string) entries \<Rightarrow> (string, string) entries" where
  "query_loop qs i out =
     (if i < length qs then
        let amp = find_char_from CHR ''&'' qs i;
            (rk, rv) = split_pair (pair_at qs i amp);
            out' = (case (url_decode rk True, url_decode rv True) of
                      (Some k, Some v) \<Rightarrow> out @ [(k, v)]
                    | _ \<Rightarrow> out) in
        (case amp of None \<Rightarrow> out' | Some a \<Rightarrow> query_loop qs (a + 1) out')
      else out)"
  by pat_completeness auto
termination
  by (relation "measure (\<lambda>(qs, i, out). length qs - i)") (auto dest!: find_char_from_ge [OF sym])

declare query_loop.simps [simp del]

definition ensure_query_parsed :: "('f, 'k, 'v) RequestContext \<Rightarrow> ('f, 'k, 'v) RequestContext" where
  "ensure_query_parsed ctx =
     (if query_parsed ctx then ctx
      else
        let (qs, ctx') = query_string (ctx\<lparr>query_parsed := True\<rparr>) in
        ctx'\<lparr>query_param_vec := query_loop (case qs of None \<Rightarrow> [] | Some s \<Rightarrow> s) 0 (query_param_vec ctx')\<rparr>)"

definition raw_query ::
    "('f, 'k, 'v) RequestContext \<Rightarrow> string \<Rightarrow> string option \<times> ('f, 'k, 'v) RequestContext" where
  "raw_query ctx name =
     (let ctx' = ensure_query_parsed ctx in (first_by (=) name (query_param_vec ctx'), ctx'))"

definition convert_bool :: "string \<Rightarrow> bool option" where
  "convert_bool v =
     (if v = ''1'' \<or> v = ''true'' then Some True
      else if v = ''0'' \<or> v = ''false'' then Some False
      else None)"

section \<open>The type-keyed bag\<close>

definition has_key :: "'k \<Rightarrow> ('k, 'v) bag_entry \<Rightarrow> bool" where
  "has_key k e = (bag_key e = k)"

definition find_bag_entry :: "'k \<Rightarrow> ('k, 'v) bag_entry list \<Rightarrow> ('k, 'v) bag_entry option" where
  "find_bag_entry k es = find (has_key k) es"

fun replace_first ::
    "'k \<Rightarrow> nat \<times> 'v \<Rightarrow> ('k, 'v) bag_entry list \<Rightarrow> ('k, 'v) bag_entry list" where
  "replace_first k p [] = []"
| "replace_first k p (e # es) =
     (if has_key k e then e\<lparr>bag_ptr := Some p\<rparr> # es else e # replace_first k p es)"

text \<open>\<open>set\<close>: the new payload is constructed first, then the old one is destroyed. A stored pointer is
  never null here (only a moved-from context has null pointers).\<close>

definition bag_set :: "'k \<Rightarrow> 'v \<Rightarrow> ('f, 'k, 'v) RequestContext \<Rightarrow> ('f, 'k, 'v) RequestContext" where
  "bag_set k v ctx =
     (let mem = (next_addr ctx, v) in
      case find_bag_entry k (bag ctx) of
        Some e \<Rightarrow>
          ctx\<lparr>next_addr := next_addr ctx + 1,
              destroyed := destroyed ctx @ (case bag_ptr e of None \<Rightarrow> [] | Some p \<Rightarrow> [fst p]),
              bag := replace_first k mem (bag ctx)\<rparr>
      | None \<Rightarrow>
          ctx\<lparr>next_addr := next_addr ctx + 1,
              bag := bag ctx @ [\<lparr>bag_key = k, bag_ptr = Some mem\<rparr>]\<rparr>)"

definition bag_get :: "('f, 'k, 'v) RequestContext \<Rightarrow> 'k \<Rightarrow> 'v option" where
  "bag_get ctx k = (case find_bag_entry k (bag ctx) of None \<Rightarrow> None | Some e \<Rightarrow> map_option snd (bag_ptr e))"

definition bag_has :: "('f, 'k, 'v) RequestContext \<Rightarrow> 'k \<Rightarrow> bool" where
  "bag_has ctx k = (find_bag_entry k (bag ctx) \<noteq> None)"

text \<open>Move construction hands the entries over and nulls the source's pointers; the destructor runs
  the destroyers of the pointers that are left.\<close>

definition ctx_move ::
    "('f, 'k, 'v) RequestContext \<Rightarrow> ('f, 'k, 'v) RequestContext \<times> ('f, 'k, 'v) RequestContext" where
  "ctx_move ctx = (ctx, ctx\<lparr>bag := map (\<lambda>e. e\<lparr>bag_ptr := None\<rparr>) (bag ctx)\<rparr>)"

definition ctx_destroy :: "('f, 'k, 'v) RequestContext \<Rightarrow> nat list" where
  "ctx_destroy ctx = map fst (List.map_filter bag_ptr (bag ctx))"

section \<open>Responses bound to the request arena\<close>

definition make_response :: "HttpStatus \<Rightarrow> string \<Rightarrow> bool \<Rightarrow> string \<Rightarrow> Response" where
  "make_response s ct with_ct content =
     (let r = new_response\<lparr>status := s\<rparr>;
          r = (if with_ct then add_header ''Content-Type'' ct r else r) in
      if content \<noteq> [] then r\<lparr>resp_body := body_owned content\<rparr> else r)"

definition ctx_ok :: "string \<Rightarrow> string \<Rightarrow> Response" where
  "ctx_ok content ct = make_response ok ct True content"

definition ctx_json :: "string \<Rightarrow> Response" where
  "ctx_json content = make_response ok ''application/json'' True content"

definition ctx_created :: "string \<Rightarrow> string \<Rightarrow> Response" where
  "ctx_created content ct = make_response created ct True content"

definition ctx_no_content :: Response where
  "ctx_no_content = new_response\<lparr>status := no_content\<rparr>"

definition ctx_redirect :: "string \<Rightarrow> HttpStatus \<Rightarrow> Response" where
  "ctx_redirect location s = add_header ''Location'' location (new_response\<lparr>status := s\<rparr>)"

definition ctx_status :: "HttpStatus \<Rightarrow> string \<Rightarrow> string \<Rightarrow> Response" where
  "ctx_status s content ct = make_response s ct True content"

section \<open>Query parsing as a fold over the pairs\<close>

definition pair_entries :: "string \<Rightarrow> (string, string) entries" where
  "pair_entries pair =
     (let (rk, rv) = split_pair pair in
      case (url_decode rk True, url_decode rv True) of (Some k, Some v) \<Rightarrow> [(k, v)] | _ \<Rightarrow> [])"

lemma query_loop_end: "length qs \<le> i \<Longrightarrow> query_loop qs i out = out"
  by (subst query_loop.simps) simp

lemma query_loop_last:
  assumes "i < length qs" "CHR ''&'' \<notin> set (drop i qs)"
  shows "query_loop qs i out = out @ pair_entries (drop i qs)"
proof -
  have "find_char_from CHR ''&'' qs i = None" using assms by (simp add: find_char_from_def)
  then show ?thesis
    using assms by (subst query_loop.simps)
      (auto simp: pair_entries_def pair_at_def substr_def split: option.split prod.split)
qed

lemma query_loop_more:
  assumes "drop i qs = p @ CHR ''&'' # rest" "CHR ''&'' \<notin> set p"
  shows "query_loop qs i out = query_loop qs (i + length p + 1) (out @ pair_entries p)"
proof -
  have i: "i < length qs" using assms(1) by (metis append_is_Nil_conv drop_all leI list.distinct(1))
  have "find_char_from CHR ''&'' qs i = Some (i + length p)"
    using assms by (simp add: find_char_from_def)
  moreover have "pair_at qs i (Some (i + length p)) = p"
    using assms by (simp add: pair_at_def substr_def)
  ultimately show ?thesis
    using i by (subst query_loop.simps) (auto simp: pair_entries_def split: option.split prod.split)
qed

lemma query_loop_join:
  assumes "drop i qs = join_amp ps" "\<And>p. p \<in> set ps \<Longrightarrow> p \<noteq> [] \<and> CHR ''&'' \<notin> set p"
  shows "query_loop qs i out = out @ concat (map pair_entries ps)"
  using assms
proof (induction ps arbitrary: i out rule: join_amp.induct)
  case 1
  then show ?case by (simp add: query_loop_end)
next
  case (2 p)
  then have "i < length qs" by (metis drop_all join_amp.simps(2) leI list.set_intros(1))
  then show ?case using 2 by (simp add: query_loop_last)
next
  case (3 p q ps)
  then have d: "drop i qs = p @ CHR ''&'' # join_amp (q # ps)" and p: "CHR ''&'' \<notin> set p" by auto
  have "drop (i + length p + 1) qs = drop (length p + 1) (drop i qs)" by (simp add: ac_simps)
  also have "\<dots> = join_amp (q # ps)" by (simp add: d)
  finally have "query_loop qs (i + length p + 1) out' = out' @ concat (map pair_entries (q # ps))" for out'
    using "3.IH" "3.prems"(2) by (metis list.set_intros(2))
  then show ?case by (simp add: query_loop_more [OF d p])
qed

lemma pair_entries_render:
  "form_pair_ok p \<Longrightarrow> pair_entries (render_pair p) = [decode_pair p]"
  using split_pair_render [of p]
  by (simp add: pair_entries_def url_decode_spec form_pair_ok_def decode_spec_toks decode_pair_def)

lemma first_by_eq_map_of: "first_by (=) name es = map_of es name"
  by (induction es) auto

section \<open>Bag lifetime\<close>

definition bag_sets :: "('k \<times> 'v) list \<Rightarrow> ('f, 'k, 'v) RequestContext \<Rightarrow> ('f, 'k, 'v) RequestContext" where
  "bag_sets kvs ctx = foldl (\<lambda>c (k, v). bag_set k v c) ctx kvs"

text \<open>Every entry holds a live payload, and every payload constructed so far is either held by exactly
  one entry or already destroyed.\<close>

definition bag_ok :: "('f, 'k, 'v) RequestContext \<Rightarrow> bool" where
  "bag_ok ctx \<longleftrightarrow>
     (\<forall>e \<in> set (bag ctx). bag_ptr e \<noteq> None)
     \<and> mset (destroyed ctx @ ctx_destroy ctx) = mset [0..<next_addr ctx]"

lemma ctx_destroy_replace:
  assumes "find_bag_entry k es = Some e" "bag_ptr e = Some p"
  shows "add_mset (fst p) (mset (map fst (List.map_filter bag_ptr (replace_first k (a, v) es))))
         = add_mset a (mset (map fst (List.map_filter bag_ptr es)))"
  using assms
proof (induction es)
  case (Cons e' es)
  then show ?case
    by (cases "bag_ptr e'") (auto simp: find_bag_entry_def map_filter_simps add_mset_commute split: if_splits)
qed (simp add: find_bag_entry_def)

lemma replace_first_live:
  "\<forall>e \<in> set es. bag_ptr e \<noteq> None \<Longrightarrow> \<forall>e \<in> set (replace_first k p es). bag_ptr e \<noteq> None"
  by (induction es) auto

lemma bag_set_ok: "bag_ok ctx \<Longrightarrow> bag_ok (bag_set k v ctx)"
proof (cases "find_bag_entry k (bag ctx)")
  case None
  moreover assume "bag_ok ctx"
  ultimately show ?thesis
    by (auto simp: bag_ok_def bag_set_def ctx_destroy_def map_filter_append map_filter_simps)
next
  case (Some e)
  moreover assume ok: "bag_ok ctx"
  moreover from Some have "e \<in> set (bag ctx)" by (auto simp: find_bag_entry_def find_Some_iff)
  ultimately obtain p where p: "bag_ptr e = Some p" by (auto simp: bag_ok_def)
  have "mset (destroyed (bag_set k v ctx) @ ctx_destroy (bag_set k v ctx))
        = add_mset (next_addr ctx) (mset (destroyed ctx @ ctx_destroy ctx))"
    using ctx_destroy_replace [OF Some p, of "next_addr ctx" v]
    by (simp add: bag_set_def Some p ctx_destroy_def)
  then show ?thesis
    using ok replace_first_live [of "bag ctx" k "(next_addr ctx, v)"]
    by (simp add: bag_ok_def del: mset_upt) (simp add: bag_set_def Some del: mset_upt)
qed

lemma find_bag_replace:
  "find_bag_entry k es = Some e \<Longrightarrow>
   find_bag_entry k' (replace_first k p es) =
     (if k' = k then Some (e\<lparr>bag_ptr := Some p\<rparr>) else find_bag_entry k' es)"
  by (induction es) (auto simp: find_bag_entry_def has_key_def)

lemma bag_get_set: "bag_get (bag_set k v ctx) k' = (if k' = k then Some v else bag_get ctx k')"
proof (cases "find_bag_entry k (bag ctx)")
  case None
  then show ?thesis
    by (auto simp: bag_get_def bag_set_def find_bag_entry_def find_append has_key_def split: option.split)
next
  case (Some e)
  then show ?thesis by (simp add: bag_get_def bag_set_def find_bag_replace)
qed

lemma bag_sets_snoc: "bag_sets (kvs @ [kv]) ctx = bag_set (fst kv) (snd kv) (bag_sets kvs ctx)"
  by (simp add: bag_sets_def case_prod_beta)

lemma next_addr_set [simp]: "next_addr (bag_set k v ctx) = next_addr ctx + 1"
  by (simp add: bag_set_def Let_def split: option.split)

section \<open>Properties\<close>

text \<open>C22: The middleware bag neither leaks nor destroys twice. After any sequence of \<open>set\<close> calls on a
  fresh context, looking up a type gives the value stored last for it; the destructor calls made by
  replacements together with those of the context's destructor hit every payload ever constructed
  exactly once; and a moved-from context destroys nothing.\<close>

theorem bag_lifetime:
  "let ctx = bag_sets kvs (new_context req) in
     bag_get ctx k = map_of (rev kvs) k
     \<and> mset (destroyed ctx @ ctx_destroy (fst (ctx_move ctx))) = mset [0..<length kvs]
     \<and> ctx_destroy (snd (ctx_move ctx)) = []"
proof -
  define ctx where "ctx = bag_sets kvs (new_context req)"
  have "bag_ok ctx \<and> next_addr ctx = length kvs \<and> bag_get ctx k = map_of (rev kvs) k"
    unfolding ctx_def
  proof (induction kvs rule: rev_induct)
    case Nil
    then show ?case
      by (simp add: bag_sets_def new_context_def bag_ok_def ctx_destroy_def bag_get_def find_bag_entry_def
          map_filter_simps)
  next
    case (snoc kv kvs)
    then show ?case by (cases kv) (auto simp: bag_sets_snoc bag_set_ok bag_get_set)
  qed
  moreover have "ctx_destroy (snd (ctx_move ctx)) = []"
    by (simp add: ctx_move_def ctx_destroy_def map_filter_def comp_def)
  ultimately show ?thesis by (simp add: Let_def ctx_def [symmetric] bag_ok_def ctx_move_def)
qed

text \<open>C21: Query parameters round-trip, and the first value of a name wins. For a request target made of
  a path, a question mark and any admissible percent-escaping of a list of pairs, the path is
  recovered, and looking up a name gives the decoded value of the first pair with that name.\<close>

theorem raw_query_roundtrip:
  assumes "CHR ''?'' \<notin> set path" "list_all form_pair_ok ps"
    and "req_target req = path @ ''?'' @ render_form ps"
  shows "fst (ctx_path (new_context req)) = Some path
       \<and> fst (raw_query (new_context req) name) = map_of (map decode_pair ps) name"
proof -
  have "query_loop (render_form ps) 0 [] = [] @ concat (map pair_entries (map render_pair ps))"
    using assms(2) render_pair_pieces
    by (intro query_loop_join) (auto simp: render_form_def list_all_iff)
  also have "[] @ concat (map pair_entries (map render_pair ps)) = map decode_pair ps"
    using assms(2) by (induction ps) (auto simp: pair_entries_render)
  finally have q: "query_loop (render_form ps) 0 [] = map decode_pair ps" .
  show ?thesis
    using assms(1,3) q
    by (simp add: ctx_path_def raw_query_def ensure_query_parsed_def query_string_def ensure_split_def
        new_context_def first_by_eq_map_of)
qed

theorem raw_query_roundtrip_witness:
  "let req = \<lparr>req_method = get, req_target = ''/p?k=+'', req_version = http_1_1,
              req_headers = (headers_owned :: unit headers), req_body = body_empty\<rparr>
   in fst (ctx_path (new_context req :: (unit, unit, unit) RequestContext)) = Some ''/p''
      \<and> fst (raw_query (new_context req :: (unit, unit, unit) RequestContext) ''k'') = Some '' ''"
proof -
  let ?ps = "[([Lit CHR ''k''], [Plus])]"
  have "list_all form_pair_ok ?ps" by code_simp
  moreover have "''/p?k=+'' = ''/p'' @ ''?'' @ render_form ?ps" by code_simp
  moreover have "map decode_pair ?ps = [(''k'', '' '')]" by code_simp
  ultimately show ?thesis
    using raw_query_roundtrip [of "''/p''" ?ps "\<lparr>req_method = get, req_target = ''/p?k=+'', req_version = http_1_1,
              req_headers = (headers_owned :: unit headers), req_body = body_empty\<rparr>" "''k''"]
    by (simp add: Let_def)
qed

end
