(* ===== verification/Http11_Driver.thy ===== *)
theory Http11_Driver
  imports Request_Context
begin

text \<open>
  The HTTP/1.1 driver, \<open>src/component/http-albatross/drivers/http11/http11_driver.{hpp,cpp}\<close>: the
  request context built from a parsed message, the flat serialisation of responses, and the keep-alive
  session loop with its batched writes.

  Boost.Beast and the clock are the parameter \<open>wire_env\<close>: the reason phrase of a status code, the
  case-insensitive comparison, and the date line. The parser is represented by the outcome of each
  read phase: a message, with the outcome of its dispatch, whether the client keeps the connection
  alive and whether more bytes are already buffered, or the error code that ended the phase. Each
  \<open>async_write\<close> takes its outcome from a list, \<open>True\<close> for an error.
\<close>

record wire_env =
  obsolete_reason :: "nat \<Rightarrow> string"
  beast_iequals :: "string \<Rightarrow> string \<Rightarrow> bool"
  imf_fixdate_now :: string

definition CRLF :: string where
  "CRLF = [CHR 0x0D, CHR 0x0A]"

section \<open>From a parsed message to a context\<close>

record 'f beast_request =
  br_method :: beast_verb
  br_version :: nat
  br_target :: string
  br_fields :: 'f
  br_body :: string

definition build_request_context :: "'f beast_request \<Rightarrow> ('f, 'k, 'v) RequestContext" where
  "build_request_context req =
     new_context
       \<lparr>req_method = method_from_beast (br_method req), req_target = br_target req,
        req_version = version_from_beast (br_version req), req_headers = view_of_beast (br_fields req),
        req_body = beast_view (br_body req)\<rparr>"

section \<open>Serialisation\<close>

text \<open>The header loop; its state is the two flags and the output.\<close>

fun header_loop ::
    "wire_env \<Rightarrow> (string, string) entries \<Rightarrow> bool \<times> bool \<times> string \<Rightarrow> bool \<times> bool \<times> string" where
  "header_loop env [] st = st"
| "header_loop env ((name, v) # hs) (has_date, has_server, out) =
     (let flags = (if \<not> has_date \<and> beast_iequals env name ''Date'' then (True, has_server)
                   else if \<not> has_server \<and> beast_iequals env name ''Server'' then (has_date, True)
                   else (has_date, has_server)) in
      header_loop env hs (fst flags, snd flags, out @ name @ '': '' @ v @ CRLF))"

definition serialize_response :: "wire_env \<Rightarrow> Response \<Rightarrow> string \<Rightarrow> string" where
  "serialize_response env resp out =
     (let out = out @ (if version resp = http_1_0 then ''HTTP/1.0 '' else ''HTTP/1.1 '');
          code = status_code (status resp);
          out = out @ decimal code @ '' '' @ obsolete_reason env code @ CRLF;
          (has_date, has_server, out) = header_loop env (resp_headers resp) (False, False, out);
          out = (if has_date then out else out @ ''Date: '' @ imf_fixdate_now env @ CRLF);
          out = (if has_server then out else out @ ''Server: Menagerie'' @ CRLF);
          content = (case buffered_view (resp_body resp) of None \<Rightarrow> [] | Some b \<Rightarrow> b);
          out = out @ ''Content-Length: '' @ decimal (length content) @ CRLF;
          out = (if keep_alive resp then out else out @ ''Connection: close'' @ CRLF) in
      out @ CRLF @ content)"

section \<open>The session loop\<close>

datatype beast_error =
    end_of_stream | partial_message | header_limit | body_limit
  | bad_line_ending | bad_method | bad_target | bad_version | bad_field | bad_value
  | bad_content_length | bad_transfer_encoding | bad_chunk | bad_chunk_extension | bad_obs_fold
  | other_error nat

definition is_malformed_request :: "beast_error \<Rightarrow> bool" where
  "is_malformed_request ec =
     (ec = bad_line_ending \<or> ec = bad_method \<or> ec = bad_target \<or> ec = bad_version \<or> ec = bad_field
      \<or> ec = bad_value \<or> ec = bad_content_length \<or> ec = bad_transfer_encoding \<or> ec = bad_chunk
      \<or> ec = bad_chunk_extension \<or> ec = bad_obs_fold)"

datatype 'x read_outcome =
    Message "('x, Response) result" bool bool
  | Failed beast_error

record session =
  outbuf :: string
  written :: "string list"
  closed :: bool

definition batch_cap :: nat where
  "batch_cap = 256 * 1024"

text \<open>\<open>asio::async_write\<close>: the next outcome of the list, no error when the list is used up. The bytes
  count as written when there is no error.\<close>

definition async_write :: "bool list \<Rightarrow> string \<Rightarrow> session \<Rightarrow> bool \<times> bool list \<times> session" where
  "async_write outcomes bytes st =
     (case outcomes of
        True # rest \<Rightarrow> (True, rest, st)
      | _ \<Rightarrow> (False, tl outcomes, st\<lparr>written := written st @ [bytes]\<rparr>))"

text \<open>The final flush and \<open>async_close\<close>.\<close>

definition finish :: "bool list \<Rightarrow> session \<Rightarrow> session" where
  "finish outcomes st =
     (let st' = (if outbuf st \<noteq> [] then (snd (snd (async_write outcomes (outbuf st) st)))\<lparr>outbuf := []\<rparr> else st) in
      st'\<lparr>closed := True\<rparr>)"

definition final_response :: "wire_env \<Rightarrow> Response \<Rightarrow> session \<Rightarrow> session" where
  "final_response env r st = st\<lparr>outbuf := serialize_response env (r\<lparr>keep_alive := False\<rparr>) (outbuf st)\<rparr>"

fun serve :: "wire_env \<Rightarrow> 'x read_outcome list \<Rightarrow> bool list \<Rightarrow> session \<Rightarrow> session" where
  "serve env [] outcomes st = st"
| "serve env (Failed ec # _) outcomes st =
     finish outcomes
       (if ec = end_of_stream then st
        else if ec = header_limit then
          final_response env (factory_bad_request ''Request Header Fields Too Large'') st
        else if ec = body_limit then
          final_response env (factory_payload_too_large ''Payload Too Large'') st
        else if is_malformed_request ec then
          final_response env (factory_bad_request ''Bad Request'') st
        else st)"
| "serve env (Message dispatched client_keep_alive buffered # es) outcomes st =
     (let response = (case dispatched of
                        Inr r \<Rightarrow> r
                      | Inl _ \<Rightarrow> (factory_internal_error ''Internal Server Error'')\<lparr>keep_alive := False\<rparr>);
          ka = (keep_alive response \<and> client_keep_alive);
          response = response\<lparr>keep_alive := ka, version := http_1_1\<rparr>;
          out = serialize_response env response (outbuf st) in
      if \<not> ka \<or> \<not> buffered \<or> length out \<ge> batch_cap then
        (case async_write outcomes out (st\<lparr>outbuf := out\<rparr>) of
           (err, outcomes', st') \<Rightarrow>
             if err \<or> \<not> ka then finish outcomes' (st'\<lparr>outbuf := []\<rparr>)
             else serve env es outcomes' (st'\<lparr>outbuf := []\<rparr>))
      else serve env es outcomes (st\<lparr>outbuf := out\<rparr>))"

definition new_session :: session where
  "new_session = \<lparr>outbuf = [], written = [], closed = False\<rparr>"

section \<open>What is on the wire\<close>

text \<open>The header fields that a response is sent with.\<close>

definition content_of :: "Response \<Rightarrow> string" where
  "content_of resp = (case buffered_view (resp_body resp) of None \<Rightarrow> [] | Some b \<Rightarrow> b)"

definition wire_headers :: "wire_env \<Rightarrow> Response \<Rightarrow> (string, string) entries" where
  "wire_headers env resp =
     resp_headers resp
     @ (if first_by does_equal ''Date'' (resp_headers resp) = None then [(''Date'', imf_fixdate_now env)] else [])
     @ (if first_by does_equal ''Server'' (resp_headers resp) = None then [(''Server'', ''Menagerie'')] else [])
     @ [(''Content-Length'', decimal (length (content_of resp)))]
     @ (if keep_alive resp then [] else [(''Connection'', ''close'')])"

definition status_line :: "wire_env \<Rightarrow> Response \<Rightarrow> string" where
  "status_line env resp =
     (if version resp = http_1_0 then ''HTTP/1.0 '' else ''HTTP/1.1 '')
     @ decimal (status_code (status resp)) @ '' '' @ obsolete_reason env (status_code (status resp))"

definition header_line :: "string \<times> string \<Rightarrow> string" where
  "header_line h = fst h @ '': '' @ snd h"

definition env_ok :: "wire_env \<Rightarrow> bool" where
  "env_ok env \<longleftrightarrow> (\<forall>a b. beast_iequals env a b = does_equal a b)"

lemma header_loop_env:
  assumes "env_ok env"
  shows "header_loop env hs (d, s, out) =
     (d \<or> first_by does_equal ''Date'' hs \<noteq> None, s \<or> first_by does_equal ''Server'' hs \<noteq> None,
      out @ concat (map (\<lambda>h. header_line h @ CRLF) hs))"
proof (induction hs arbitrary: d s out)
  case (Cons h hs)
  obtain n v where h: "h = (n, v)" by (cases h)
  have "does_equal n ''Date'' \<Longrightarrow> \<not> does_equal n ''Server''"
    by (auto simp: does_equal_def split: if_splits)
  then show ?case
    using assms by (auto simp: h Cons.IH header_line_def env_ok_def Let_def)
qed simp

lemma serialize_response_wire:
  assumes "env_ok env"
  shows "serialize_response env resp out =
     out @ status_line env resp @ CRLF
     @ concat (map (\<lambda>h. header_line h @ CRLF) (wire_headers env resp)) @ CRLF @ content_of resp"
  by (simp add: serialize_response_def header_loop_env [OF assms] status_line_def wire_headers_def
      header_line_def content_of_def Let_def)

section \<open>Reading a response back\<close>

text \<open>A reader of one response message: the lines up to the first empty one, each header split at its
  first colon and space, and as many body bytes as the one \<open>Content-Length\<close> field announces.\<close>

fun read_line :: "string \<Rightarrow> (string \<times> string) option" where
  "read_line (c # d # cs) =
     (if c = CHR 0x0D \<and> d = CHR 0x0A then Some ([], cs)
      else map_option (\<lambda>(l, r). (c # l, r)) (read_line (d # cs)))"
| "read_line _ = None"

lemma read_line_shorter: "read_line s = Some (l, r) \<Longrightarrow> length r < length s"
  by (induction s arbitrary: l r rule: read_line.induct) (fastforce split: if_splits)+

function read_headers :: "string \<Rightarrow> ((string, string) entries \<times> string) option" where
  "read_headers s =
     (case read_line s of
        None \<Rightarrow> None
      | Some (l, r) \<Rightarrow>
          if l = [] then Some ([], r)
          else (case find_prefix '': '' l of
                  None \<Rightarrow> None
                | Some i \<Rightarrow> map_option (\<lambda>(hs, r'). ((take i l, drop (i + 2) l) # hs, r')) (read_headers r)))"
  by pat_completeness auto
termination
  by (relation "measure length") (auto dest: read_line_shorter read_line_shorter [OF sym])

declare read_headers.simps [simp del]

definition read_response :: "string \<Rightarrow> (string \<times> (string, string) entries \<times> string \<times> string) option" where
  "read_response s =
     (case read_line s of
        None \<Rightarrow> None
      | Some (sl, r) \<Rightarrow>
          (case read_headers r of
             None \<Rightarrow> None
           | Some (hs, r') \<Rightarrow>
               (case all_by does_equal ''Content-Length'' hs of
                  [v] \<Rightarrow> if undecimal v \<le> length r'
                          then Some (sl, hs, take (undecimal v) r', drop (undecimal v) r') else None
                | _ \<Rightarrow> None)))"

text \<open>Text that can stand in a line, and header fields whose name has no colon.\<close>

definition line_safe :: "string \<Rightarrow> bool" where
  "line_safe s \<longleftrightarrow> CHR 0x0D \<notin> set s"

definition header_safe :: "string \<times> string \<Rightarrow> bool" where
  "header_safe h \<longleftrightarrow> line_safe (fst h) \<and> line_safe (snd h) \<and> CHR '':'' \<notin> set (fst h)"

lemma read_line_safe: "line_safe l \<Longrightarrow> read_line (l @ CRLF @ r) = Some (l, r)"
proof (induction l)
  case (Cons c l)
  then show ?case by (cases l) (auto simp: line_safe_def CRLF_def)
qed (simp add: CRLF_def)

lemma find_prefix_colon: "CHR '':'' \<notin> set n \<Longrightarrow> find_prefix '': '' (n @ '': '' @ v) = Some (length n)"
  by (induction n) auto

lemma read_headers_safe:
  assumes "list_all header_safe hs"
  shows "read_headers (concat (map (\<lambda>h. header_line h @ CRLF) hs) @ CRLF @ r) = Some (hs, r)"
  using assms
proof (induction hs)
  case Nil
  then show ?case using read_line_safe [of "[]" r] by (subst read_headers.simps) (simp add: line_safe_def)
next
  case (Cons h hs)
  have "line_safe (header_line h)" "header_line h \<noteq> []"
    using Cons.prems by (auto simp: header_safe_def line_safe_def header_line_def)
  moreover have "find_prefix '': '' (header_line h) = Some (length (fst h))"
    using Cons.prems find_prefix_colon [of "fst h" "snd h"] by (simp add: header_line_def header_safe_def)
  ultimately show ?case
    using Cons read_line_safe [of "header_line h" "concat (map (\<lambda>h. header_line h @ CRLF) hs) @ CRLF @ r"]
    by (subst read_headers.simps) (simp add: header_line_def)
qed

lemma decimal_line_safe: "line_safe (decimal n)"
  using decimal_char_range [of "CHR 0x0D" n] by (auto simp: line_safe_def)

lemma serialize_response_append:
  "env_ok env \<Longrightarrow> serialize_response env resp out = out @ serialize_response env resp []"
  by (simp add: serialize_response_wire)

section \<open>Batched writing\<close>

definition answer_of :: "('x, Response) result \<Rightarrow> bool \<Rightarrow> Response" where
  "answer_of dispatched client_keep_alive =
     (let r = (case dispatched of
                 Inr r \<Rightarrow> r
               | Inl _ \<Rightarrow> (factory_internal_error ''Internal Server Error'')\<lparr>keep_alive := False\<rparr>) in
      r\<lparr>keep_alive := keep_alive r \<and> client_keep_alive, version := http_1_1\<rparr>)"

definition error_answer :: "beast_error \<Rightarrow> Response option" where
  "error_answer ec =
     map_option (\<lambda>r. r\<lparr>keep_alive := False\<rparr>)
       (if ec = header_limit then Some (factory_bad_request ''Request Header Fields Too Large'')
        else if ec = body_limit then Some (factory_payload_too_large ''Payload Too Large'')
        else if is_malformed_request ec then Some (factory_bad_request ''Bad Request'')
        else None)"

text \<open>The bytes a client is owed: one response per message in order, up to the first one that ends the
  connection, then the answer to a failed read if it has one.\<close>

fun owed :: "wire_env \<Rightarrow> 'x read_outcome list \<Rightarrow> string" where
  "owed env [] = []"
| "owed env (Failed ec # _) =
     (case error_answer ec of None \<Rightarrow> [] | Some r \<Rightarrow> serialize_response env r [])"
| "owed env (Message d cka buffered # es) =
     serialize_response env (answer_of d cka) [] @ (if keep_alive (answer_of d cka) then owed env es else [])"

lemma serve_Failed:
  "serve env (Failed ec # es) outcomes st =
     finish outcomes (case error_answer ec of
                        None \<Rightarrow> st
                      | Some r \<Rightarrow> st\<lparr>outbuf := serialize_response env r (outbuf st)\<rparr>)"
  by (auto simp: error_answer_def final_response_def is_malformed_request_def)

lemma serve_Message:
  "serve env (Message d cka buffered # es) outcomes st =
     (let r = answer_of d cka; out = serialize_response env r (outbuf st) in
      if \<not> keep_alive r \<or> \<not> buffered \<or> length out \<ge> batch_cap then
        (case async_write outcomes out (st\<lparr>outbuf := out\<rparr>) of
           (err, outcomes', st') \<Rightarrow>
             if err \<or> \<not> keep_alive r then finish outcomes' (st'\<lparr>outbuf := []\<rparr>)
             else serve env es outcomes' (st'\<lparr>outbuf := []\<rparr>))
      else serve env es outcomes (st\<lparr>outbuf := out\<rparr>))"
  by (simp add: answer_of_def Let_def)

lemma async_write_ok:
  "True \<notin> set outcomes \<Longrightarrow>
     async_write outcomes bytes st = (False, tl outcomes, st\<lparr>written := written st @ [bytes]\<rparr>)"
  by (cases outcomes) (auto simp: async_write_def)

lemma finish_sends:
  "True \<notin> set outcomes \<Longrightarrow>
     concat (written (finish outcomes st)) = concat (written st) @ outbuf st"
  by (simp add: finish_def async_write_ok)

lemma finish_closed [simp]: "closed (finish outcomes st)" "outbuf (finish outcomes st) = []"
  by (auto simp: finish_def)

lemma tl_no_error: "True \<notin> set outcomes \<Longrightarrow> True \<notin> set (tl outcomes)"
  by (cases outcomes) auto

lemma serve_owed:
  assumes "env_ok env" "True \<notin> set outcomes"
  shows "concat (written (serve env es outcomes st)) @ outbuf (serve env es outcomes st)
         = concat (written st) @ outbuf st @ owed env es"
  using assms(2)
proof (induction es arbitrary: outcomes st)
  case (Cons e es)
  note app = serialize_response_append [OF assms(1)]
  show ?case
  proof (cases e)
    case (Failed ec)
    then show ?thesis
      using Cons.prems app [where out = "outbuf st"]
      by (simp add: serve_Failed finish_sends del: serve.simps split: option.split)
  next
    case (Message d cka buffered)
    then show ?thesis
      using Cons.prems app [of "answer_of d cka" "outbuf st"] tl_no_error [OF Cons.prems]
      by (auto simp: serve_Message Let_def async_write_ok finish_sends Cons.IH simp del: serve.simps)
  qed
qed simp

lemma serve_closed:
  "closed (serve env es outcomes st) \<Longrightarrow> \<not> closed st \<Longrightarrow> outbuf (serve env es outcomes st) = []"
proof (induction es arbitrary: outcomes st)
  case (Cons e es)
  then show ?case
  proof (cases e)
    case (Message d cka buffered)
    then show ?thesis
      using Cons.prems
      by (auto simp: serve_Message Let_def async_write_def simp del: serve.simps
          split: if_splits list.splits prod.splits bool.splits intro!: Cons.IH)
  qed (simp add: serve_Failed del: serve.simps)
qed simp

section \<open>Properties\<close>

text \<open>C6: A serialised response frames itself. For a response whose fields contain no carriage return and
  for which the handler set no \<open>Content-Length\<close>, a reader that splits lines, headers and body by the
  announced length recovers the status line, the handler's fields followed by exactly one \<open>Date\<close>,
  \<open>Server\<close> and \<open>Content-Length\<close> where the handler left them out, and the whole body, and stops
  exactly where the next response starts.\<close>

theorem serialize_response_roundtrip:
  assumes "env_ok env"
    and "list_all header_safe (resp_headers resp)"
    and "first_by does_equal ''Content-Length'' (resp_headers resp) = None"
    and "line_safe (imf_fixdate_now env)" and "line_safe (obsolete_reason env (status_code (status resp)))"
  shows "read_response (serialize_response env resp [] @ rest)
         = Some (status_line env resp, wire_headers env resp, content_of resp, rest)"
proof -
  have sl: "line_safe (status_line env resp)"
    using assms(5) decimal_line_safe [of "status_code (status resp)"] by (simp add: status_line_def line_safe_def)
  have hs: "list_all header_safe (wire_headers env resp)"
    using assms(2,4) decimal_line_safe by (simp add: wire_headers_def header_safe_def line_safe_def)
  have none: "all_by does_equal ''Content-Length'' (resp_headers resp) = []"
    using assms(3) by (simp add: first_by_all_by split: list.splits)
  have "all_by does_equal ''Content-Length'' (wire_headers env resp) = [decimal (length (content_of resp))]"
    by (simp add: wire_headers_def none does_equal_def)
  then show ?thesis
    by (simp add: serialize_response_wire [OF assms(1)] read_response_def read_line_safe [OF sl]
        read_headers_safe [OF hs])
qed

text \<open>An environment with the documented comparison.\<close>

definition plain_env :: wire_env where
  "plain_env = \<lparr>obsolete_reason = (\<lambda>_. ''OK''), beast_iequals = does_equal, imf_fixdate_now = ''now''\<rparr>"

lemma plain_env_ok: "env_ok plain_env"
  by (simp add: env_ok_def plain_env_def)

theorem serialize_response_roundtrip_witness:
  "env_ok plain_env \<and>
   read_response (serialize_response plain_env (factory_ok ''hi'' ''t'') [] @ ''rest'')
   = Some (status_line plain_env (factory_ok ''hi'' ''t''), wire_headers plain_env (factory_ok ''hi'' ''t''),
           content_of (factory_ok ''hi'' ''t''), ''rest'')"
proof -
  have "list_all header_safe (resp_headers (factory_ok ''hi'' ''t''))" by code_simp
  moreover have "first_by does_equal ''Content-Length'' (resp_headers (factory_ok ''hi'' ''t'')) = None" by code_simp
  moreover have "line_safe (imf_fixdate_now plain_env)" by code_simp
  moreover have "line_safe (obsolete_reason plain_env (status_code (status (factory_ok ''hi'' ''t''))))"
    by (simp add: plain_env_def line_safe_def)
  ultimately show ?thesis using serialize_response_roundtrip [OF plain_env_ok] plain_env_ok by blast
qed

text \<open>The announced lengths. The \<open>Content-Length\<close> fields on the wire are the ones the handler set, kept,
  followed by one with the true length of the body; a handler that sets the field itself therefore
  makes the message carry it twice.\<close>

theorem serialize_response_content_length:
  assumes "env_ok env"
  shows "serialize_response env resp [] = status_line env resp @ CRLF
           @ concat (map (\<lambda>h. header_line h @ CRLF) (wire_headers env resp)) @ CRLF @ content_of resp
       \<and> all_by does_equal ''Content-Length'' (wire_headers env resp)
         = all_by does_equal ''Content-Length'' (resp_headers resp) @ [decimal (length (content_of resp))]"
  by (simp add: serialize_response_wire [OF assms] wire_headers_def does_equal_def)

theorem serialize_response_content_length_witness:
  "env_ok plain_env
   \<and> all_by does_equal ''Content-Length'' (wire_headers plain_env (set_header ''Content-Length'' ''9'' (factory_ok ''hi'' ''t'')))
     = [''9'', decimal 2]"
proof -
  let ?r = "set_header ''Content-Length'' ''9'' (factory_ok ''hi'' ''t'')"
  have "all_by does_equal ''Content-Length'' (resp_headers ?r) = [''9'']" by code_simp
  moreover have "length (content_of ?r) = 2" by code_simp
  ultimately show ?thesis
    using serialize_response_content_length [OF plain_env_ok, of ?r] plain_env_ok by simp
qed

text \<open>C4: Batching loses and reorders nothing. In a session whose writes succeed, the bytes written so far
  followed by the batch still held back are the responses to the messages in the order they arrived,
  each once, up to the first one that ends the connection, followed by the answer to a malformed or
  oversized request; and a closed session holds nothing back.\<close>

theorem serve_writes_in_order:
  assumes "env_ok env" "True \<notin> set outcomes"
  shows "let st = serve env es outcomes new_session in
           concat (written st) @ outbuf st = owed env es \<and> (closed st \<longrightarrow> outbuf st = [])"
  using serve_owed [OF assms, of es new_session] serve_closed [of env es outcomes new_session]
  by (simp add: Let_def new_session_def)

theorem serve_writes_in_order_witness:
  "env_ok plain_env \<and> True \<notin> set [False]
   \<and> (let es = [Message (Inr (factory_ok ''a'' ''t'')) True True, Message (Inr (factory_ok ''b'' ''t'')) False True] :: unit read_outcome list;
          st = serve plain_env es [False] new_session
      in concat (written st) @ outbuf st = owed plain_env es)"
proof -
  have f: "True \<notin> set [False]" by simp
  show ?thesis
    using serve_writes_in_order [OF plain_env_ok f,
        of "[Message (Inr (factory_ok ''a'' ''t'')) True True, Message (Inr (factory_ok ''b'' ''t'')) False True] :: unit read_outcome list"]
      plain_env_ok f
    unfolding Let_def by blast
qed

end
