(* ===== verification/Route_Registry.thy ===== *)
theory Route_Registry
  imports Url_Decode Http_Errors
begin

text \<open>
  The method and path route table,
  \<open>src/component/http-albatross/routing/route_registry/route_registry.{hpp,cpp}\<close>.

  The registry is a record that the registration calls thread; a thrown exception is \<open>Inl\<close> and
  leaves the registry as it was. \<open>exact\<close> is the hash map of literal paths, \<open>templates\<close> the vector
  of templates, and a handler slot is \<open>None\<close> for an empty \<open>std::function\<close>. \<open>find_route\<close> answers
  \<open>None\<close> where the code asserts that the registry is frozen. The request arena is the parameter
  \<open>alloc\<close> of the percent-decoder.

  \<open>spec_find\<close> is the contract: a lookup in the plain list of accepted registrations. The theorem
  \<open>find_route_refines\<close> shows that the two indexes implement it for every sequence of registrations.
\<close>

datatype PathNormalization = norm_none | collapse_trailing_slash | collapse_multi_slash

datatype registry_error = Logic_error string | Invalid_argument string

record PathSegment =
  seg_text :: string
  is_param :: bool

type_synonym 'h MethodSlots = "'h option list"

record 'h ParamTemplate =
  segments :: "PathSegment list"
  by_method :: "'h MethodSlots"

record RouteConflictError =
  conflict_method :: HttpMethod
  conflict_path :: string
  conflict_detail :: string

record 'h ResolvedRoute =
  handler :: 'h
  path_params :: "(string \<times> string) list"

record 'h RouteRegistry =
  frozen :: bool
  norm :: PathNormalization
  exact :: "string \<rightharpoonup> 'h MethodSlots"
  templates :: "'h ParamTemplate list"
  conflicts :: "RouteConflictError list"

definition new_registry :: "PathNormalization \<Rightarrow> 'h RouteRegistry" where
  "new_registry n = \<lparr>frozen = False, norm = n, exact = Map.empty, templates = [], conflicts = []\<rparr>"

definition no_handlers :: "'h MethodSlots" where
  "no_handlers = replicate HTTP_METHOD_COUNT None"

section \<open>Paths\<close>

lemma find_char_from_bounds: "find_char_from c s i = Some j \<Longrightarrow> i \<le> j \<and> j < length s"
  by (auto simp: find_char_from_def find_char_Some)

function for_each_loop ::
    "string \<Rightarrow> (string \<Rightarrow> 's \<Rightarrow> (registry_error, 's \<times> bool) result) \<Rightarrow> nat \<Rightarrow> 's
     \<Rightarrow> (registry_error, 's \<times> bool) result" where
  "for_each_loop path fn pos s =
     (if pos \<le> length path then
        let nxt = find_char_from CHR ''/'' path pos;
            seg = (case nxt of None \<Rightarrow> drop pos path | Some n \<Rightarrow> substr path pos (n - pos)) in
        (case fn seg s of
           Inl e \<Rightarrow> Inl e
         | Inr (s', go) \<Rightarrow>
             (if \<not> go then Inr (s', False)
              else (case nxt of
                      None \<Rightarrow> Inr (s', True)
                    | Some n \<Rightarrow> for_each_loop path fn (n + 1) s')))
      else Inr (s, True))"
  by pat_completeness auto
termination
  by (relation "measure (\<lambda>(path, fn, pos, s). Suc (length path) - pos)")
     (auto dest!: find_char_from_bounds [OF sym])

declare for_each_loop.simps [simp del]

definition for_each_segment ::
    "string \<Rightarrow> (string \<Rightarrow> 's \<Rightarrow> (registry_error, 's \<times> bool) result) \<Rightarrow> 's
     \<Rightarrow> (registry_error, 's \<times> bool) result" where
  "for_each_segment path fn s = for_each_loop path fn 1 s"

fun strip_trailing_slashes :: "string \<Rightarrow> string" where
  "strip_trailing_slashes out =
     (if out \<noteq> [] \<and> last out = CHR ''/'' then strip_trailing_slashes (butlast out) else out)"

declare strip_trailing_slashes.simps [simp del]

definition join_path :: "string \<Rightarrow> string \<Rightarrow> string" where
  "join_path pref path =
     (let out = strip_trailing_slashes pref in
      if path = [] \<or> path = ''/'' then (if out = [] then ''/'' else out)
      else (if hd path \<noteq> CHR ''/'' then out @ ''/'' else out) @ path)"

fun collapse_loop :: "bool \<Rightarrow> string \<Rightarrow> string" where
  "collapse_loop prev_slash [] = []"
| "collapse_loop prev_slash (c # cs) =
     (if c = CHR ''/'' \<and> prev_slash then collapse_loop prev_slash cs
      else c # collapse_loop (c = CHR ''/'') cs)"

definition drop_trailing_slash :: "string \<Rightarrow> string" where
  "drop_trailing_slash out = (if length out > 1 \<and> last out = CHR ''/'' then butlast out else out)"

definition normalize_owned :: "PathNormalization \<Rightarrow> string \<Rightarrow> string" where
  "normalize_owned n path =
     (let out = (if n = collapse_multi_slash then collapse_loop False path else path) in
      if n \<noteq> norm_none then drop_trailing_slash out else out)"

definition normalize_lookup :: "PathNormalization \<Rightarrow> string \<Rightarrow> string" where
  "normalize_lookup n path =
     (if n = norm_none then path
      else if n = collapse_multi_slash \<and> find_sub ''//'' path 0 \<noteq> None
      then drop_trailing_slash (collapse_loop False path)
      else drop_trailing_slash path)"

section \<open>Registration\<close>

definition in_quotes :: "string \<Rightarrow> string" where
  "in_quotes s = [CHR 0x27] @ s @ [CHR 0x27]"

text \<open>The callback of \<open>parse_segments\<close>; its state is the segments so far and the names seen.\<close>

definition parse_segment ::
    "string \<Rightarrow> string \<Rightarrow> PathSegment list \<times> string list
     \<Rightarrow> (registry_error, (PathSegment list \<times> string list) \<times> bool) result" where
  "parse_segment normalized seg st =
     (let (out, seen_names) = st in
      if length seg \<ge> 2 \<and> hd seg = CHR ''{'' \<and> last seg = CHR ''}'' then
        let name = substr seg 1 (length seg - 2) in
        if name = [] then
          Inl (Invalid_argument (''RouteRegistry: empty parameter name in route '' @ in_quotes normalized))
        else if list_ex (\<lambda>c. c \<in> set ''{}'') name then
          Inl (Invalid_argument (''RouteRegistry: nested braces in route '' @ in_quotes normalized))
        else if List.member seen_names name then
          Inl (Invalid_argument (''RouteRegistry: duplicate parameter name '' @ in_quotes name
                                 @ '' in route '' @ in_quotes normalized))
        else Inr ((out @ [\<lparr>seg_text = name, is_param = True\<rparr>], seen_names @ [name]), True)
      else if list_ex (\<lambda>c. c \<in> set ''%{}'') seg then
        Inl (Invalid_argument (''RouteRegistry: '' @ in_quotes ''%'' @ '', '' @ in_quotes ''{'' @ '' and '' @ in_quotes ''}''
                               @ '' are not allowed in literal route segments ('' @ in_quotes normalized @ '')''))
      else Inr ((out @ [\<lparr>seg_text = seg, is_param = False\<rparr>], seen_names), True))"

definition parse_segments :: "string \<Rightarrow> (registry_error, PathSegment list) result" where
  "parse_segments normalized =
     (case for_each_segment normalized (parse_segment normalized) ([], []) of
        Inl e \<Rightarrow> Inl e
      | Inr ((out, _), _) \<Rightarrow> Inr out)"

definition same_shape :: "PathSegment list \<Rightarrow> PathSegment list \<Rightarrow> bool" where
  "same_shape a b =
     list_all2 (\<lambda>x y. is_param x = is_param y \<and> (is_param x \<or> seg_text x = seg_text y)) a b"

definition names_match :: "PathSegment list \<Rightarrow> PathSegment list \<Rightarrow> bool" where
  "names_match a b = list_all2 (\<lambda>x y. seg_text x = seg_text y) a b"

definition conflict_of :: "HttpMethod \<Rightarrow> string \<Rightarrow> string \<Rightarrow> RouteConflictError" where
  "conflict_of m p d = \<lparr>conflict_method = m, conflict_path = p, conflict_detail = d\<rparr>"

text \<open>The scan of the template vector: the first template of the same shape decides; with none, a
  new template is appended.\<close>

fun add_template ::
    "HttpMethod \<Rightarrow> string \<Rightarrow> PathSegment list \<Rightarrow> 'h \<Rightarrow> 'h ParamTemplate list
     \<Rightarrow> 'h ParamTemplate list \<times> RouteConflictError list" where
  "add_template m normalized segs h [] =
     ([\<lparr>segments = segs, by_method = no_handlers[method_index m := Some h]\<rparr>], [])"
| "add_template m normalized segs h (t # ts) =
     (if \<not> same_shape (segments t) segs then
        (let (ts', cs) = add_template m normalized segs h ts in (t # ts', cs))
      else if \<not> names_match (segments t) segs then
        (t # ts,
         [conflict_of m normalized ''parametric route already registered with different parameter names''])
      else if by_method t ! method_index m \<noteq> None then
        (t # ts, [conflict_of m normalized ''duplicate route''])
      else (t\<lparr>by_method := (by_method t)[method_index m := Some h]\<rparr> # ts, []))"

definition add_route ::
    "HttpMethod \<Rightarrow> string \<Rightarrow> 'h option \<Rightarrow> 'h RouteRegistry
     \<Rightarrow> (registry_error, 'h RouteRegistry) result" where
  "add_route m path hopt reg =
     (if frozen reg then Inl (Logic_error ''RouteRegistry: registration after freeze()'')
      else if m = unknown then
        Inl (Invalid_argument ''RouteRegistry: cannot register HttpMethod::unknown'')
      else case hopt of
        None \<Rightarrow> Inl (Invalid_argument ''RouteRegistry: null handler'')
      | Some h \<Rightarrow>
        if path = [] \<or> hd path \<noteq> CHR ''/'' then
          Inl (Invalid_argument (''RouteRegistry: route path must start with '' @ in_quotes ''/'' @ '': '' @ in_quotes path))
        else
          let normalized = normalize_owned (norm reg) path in
          case parse_segments normalized of
            Inl e \<Rightarrow> Inl e
          | Inr segs \<Rightarrow>
            if \<not> list_ex is_param segs then
              let slots = (case exact reg normalized of None \<Rightarrow> no_handlers | Some s \<Rightarrow> s) in
              if slots ! method_index m \<noteq> None then
                Inr (reg\<lparr>exact := (exact reg)(normalized \<mapsto> slots),
                         conflicts := conflicts reg @ [conflict_of m normalized ''duplicate route'']\<rparr>)
              else
                Inr (reg\<lparr>exact := (exact reg)(normalized \<mapsto> slots[method_index m := Some h])\<rparr>)
            else
              let (ts, cs) = add_template m normalized segs h (templates reg) in
              Inr (reg\<lparr>templates := ts, conflicts := conflicts reg @ cs\<rparr>))"

definition freeze :: "'h RouteRegistry \<Rightarrow> RouteConflictError list \<times> 'h RouteRegistry" where
  "freeze reg = (conflicts reg, reg\<lparr>frozen := True, conflicts := []\<rparr>)"

section \<open>Lookup\<close>

text \<open>The callback of \<open>match_template\<close>; its state is the segment index and the captures so far.\<close>

definition match_segment ::
    "PathSegment list \<Rightarrow> (nat \<Rightarrow> string) \<Rightarrow> string \<Rightarrow> nat \<times> (string \<times> string) list
     \<Rightarrow> (registry_error, (nat \<times> (string \<times> string) list) \<times> bool) result" where
  "match_segment tmpl alloc seg st =
     (let (i, out_params) = st in
      if i \<ge> length tmpl then Inr ((i, out_params), False)
      else
        let t = tmpl ! i in
        if \<not> is_param t then Inr ((i + 1, out_params), seg = seg_text t)
        else if seg = [] then Inr ((i + 1, out_params), False)
        else (case url_decode_arena seg False alloc of
                None \<Rightarrow> Inr ((i + 1, out_params), False)
              | Some decoded \<Rightarrow> Inr ((i + 1, out_params @ [(seg_text t, decoded)]), True)))"

definition match_template ::
    "PathSegment list \<Rightarrow> string \<Rightarrow> (nat \<Rightarrow> string) \<Rightarrow> (string \<times> string) list option" where
  "match_template tmpl path alloc =
     (case for_each_segment path (match_segment tmpl alloc) (0, []) of
        Inl _ \<Rightarrow> None
      | Inr ((i, out_params), walked) \<Rightarrow>
          (if walked \<and> i = length tmpl then Some out_params else None))"

definition allowed_methods :: "'h MethodSlots \<Rightarrow> HttpMethod list" where
  "allowed_methods slots =
     map method_of_index (filter (\<lambda>i. slots ! i \<noteq> None) [1..<HTTP_METHOD_COUNT])"

fun find_template ::
    "(nat \<Rightarrow> string) \<Rightarrow> HttpMethod \<Rightarrow> string \<Rightarrow> 'h ParamTemplate list
     \<Rightarrow> (http_error, 'h ResolvedRoute) result" where
  "find_template alloc m normalized [] = Inl (NotFoundError ''route'' normalized)"
| "find_template alloc m normalized (t # ts) =
     (case match_template (segments t) normalized alloc of
        None \<Rightarrow> find_template alloc m normalized ts
      | Some params \<Rightarrow>
          (case by_method t ! method_index m of
             Some h \<Rightarrow> Inr \<lparr>handler = h, path_params = params\<rparr>
           | None \<Rightarrow> Inl (MethodNotAllowedError (allowed_methods (by_method t)))))"

definition find_route ::
    "(nat \<Rightarrow> string) \<Rightarrow> 'h RouteRegistry \<Rightarrow> HttpMethod \<Rightarrow> string
     \<Rightarrow> (http_error, 'h ResolvedRoute) result option" where
  "find_route alloc reg m path =
     (if \<not> frozen reg then None
      else
        let normalized = normalize_lookup (norm reg) path in
        Some (case exact reg normalized of
                Some slots \<Rightarrow>
                  (case slots ! method_index m of
                     Some h \<Rightarrow> Inr \<lparr>handler = h, path_params = []\<rparr>
                   | None \<Rightarrow> Inl (MethodNotAllowedError (allowed_methods slots)))
              | None \<Rightarrow> find_template alloc m normalized (templates reg)))"

definition conflict_line :: "RouteConflictError \<Rightarrow> string" where
  "conflict_line c =
     [CHR 0x0A] @ ''  '' @ method_to_string_view (conflict_method c) @ '' '' @ conflict_path c
     @ (if conflict_detail c = [] then []
        else [CHR '' '', CHR 0xE2, CHR 0x80, CHR 0x94, CHR '' ''] @ conflict_detail c)"

definition format_message :: "RouteConflictError list \<Rightarrow> string" where
  "format_message cs = decimal (length cs) @ '' route conflict(s):'' @ concat (map conflict_line cs)"

section \<open>Walking the segments of a path\<close>

fun split_slash :: "string \<Rightarrow> string list" where
  "split_slash [] = [[]]"
| "split_slash (c # cs) =
     (if c = CHR ''/'' then [] # split_slash cs
      else (case split_slash cs of [] \<Rightarrow> [[c]] | p # ps \<Rightarrow> (c # p) # ps))"

fun walk ::
    "(string \<Rightarrow> 's \<Rightarrow> (registry_error, 's \<times> bool) result) \<Rightarrow> string list \<Rightarrow> 's
     \<Rightarrow> (registry_error, 's \<times> bool) result" where
  "walk fn [] s = Inr (s, True)"
| "walk fn (seg # segs) s =
     (case fn seg s of
        Inl e \<Rightarrow> Inl e
      | Inr (s', go) \<Rightarrow> if \<not> go then Inr (s', False) else walk fn segs s')"

text \<open>The segments that \<open>for_each_segment\<close> visits; the empty path has none.\<close>

definition path_segments :: "string \<Rightarrow> string list" where
  "path_segments path = (if path = [] then [] else split_slash (tl path))"

lemma split_slash_not_Nil [simp]: "split_slash s \<noteq> []"
  by (induction s) (auto split: list.splits)

lemma split_slash_single: "CHR ''/'' \<notin> set s \<Longrightarrow> split_slash s = [s]"
  by (induction s) auto

lemma split_slash_append: "CHR ''/'' \<notin> set p \<Longrightarrow> split_slash (p @ CHR ''/'' # r) = p # split_slash r"
  by (induction p) auto

lemma for_each_loop_walk:
  "pos \<le> length path \<Longrightarrow> for_each_loop path fn pos s = walk fn (split_slash (drop pos path)) s"
proof (induction path fn pos s rule: for_each_loop.induct)
  case (1 path fn pos s)
  show ?case
  proof (cases "find_char CHR ''/'' (drop pos path)")
    case None
    then have "split_slash (drop pos path) = [drop pos path]" by (simp add: split_slash_single)
    moreover have "find_char_from CHR ''/'' path pos = None" using None by (simp add: find_char_from_def)
    ultimately show ?thesis
      using "1.prems" by (subst for_each_loop.simps) (auto split: sum.split)
  next
    case (Some j)
    note sp = find_char_split [OF Some]
    have f: "find_char_from CHR ''/'' path pos = Some (pos + j)"
      using Some by (simp add: find_char_from_def)
    have "split_slash (drop pos path) = take j (drop pos path) # split_slash (drop (Suc j) (drop pos path))"
      using sp split_slash_append by metis
    then have ss: "split_slash (drop pos path) = substr path pos j # split_slash (drop (pos + j + 1) path)"
      by (simp add: substr_def ac_simps)
    have "pos + j + 1 \<le> length path" using find_char_from_bounds [OF f] by simp
    then show ?thesis
      using "1.prems" "1.IH" [of "Some (pos + j)" "substr path pos j"]
      by (subst for_each_loop.simps) (auto simp: f ss Let_def split: sum.split)
  qed
qed

lemma for_each_segment_walk: "for_each_segment path fn s = walk fn (path_segments path) s"
proof (cases path)
  case Nil
  then show ?thesis by (simp add: for_each_segment_def path_segments_def for_each_loop.simps)
next
  case (Cons c cs)
  then show ?thesis by (simp add: for_each_segment_def path_segments_def for_each_loop_walk)
qed

section \<open>Templates against paths\<close>

fun match_segs :: "PathSegment list \<Rightarrow> string list \<Rightarrow> (string \<times> string) list option" where
  "match_segs [] [] = Some []"
| "match_segs (t # ts) (seg # segs) =
     (if \<not> is_param t then (if seg = seg_text t then match_segs ts segs else None)
      else if seg = [] then None
      else (case url_decode seg False of
              None \<Rightarrow> None
            | Some d \<Rightarrow> map_option (Cons (seg_text t, d)) (match_segs ts segs)))"
| "match_segs _ _ = None"

lemma walk_match_segment:
  assumes "arena_ok alloc" "i \<le> length tmpl"
  shows "(case walk (match_segment tmpl alloc) segs (i, ps) of
            Inl _ \<Rightarrow> None
          | Inr ((i', ps'), walked) \<Rightarrow> if walked \<and> i' = length tmpl then Some ps' else None)
         = map_option ((@) ps) (match_segs (drop i tmpl) segs)"
  using assms(2)
proof (induction segs arbitrary: i ps)
  case Nil
  then show ?case by (cases "drop i tmpl") auto
next
  case (Cons seg segs)
  show ?case
  proof (cases "i < length tmpl")
    case False
    then show ?thesis using Cons.prems by (simp add: match_segment_def)
  next
    case True
    have d: "drop i tmpl = tmpl ! i # drop (i + 1) tmpl" using drop_nth_Cons [OF True] by simp
    have dec: "url_decode_arena seg False alloc = url_decode seg False"
      using assms(1) by (simp add: url_decode_arena_spec url_decode_spec)
    show ?thesis
      using True Cons.IH [of "i + 1" ps]
        Cons.IH [of "i + 1" "ps @ [(seg_text (tmpl ! i), the (url_decode seg False))]"]
      by (auto simp: d match_segment_def dec option.map_comp comp_def split: option.split)
  qed
qed

lemma match_template_segs:
  "arena_ok alloc \<Longrightarrow> match_template tmpl path alloc = match_segs tmpl (path_segments path)"
  using walk_match_segment [of alloc 0 tmpl "path_segments path" "[]"]
  by (cases "match_segs tmpl (path_segments path)") (simp_all add: match_template_def for_each_segment_walk)

section \<open>Normalisation\<close>

lemma find_sub_slashes:
  "find_sub ''//'' path 0 = None \<Longrightarrow> collapse_loop b path = (if b \<and> path \<noteq> [] \<and> hd path = CHR ''/'' then tl path else path)"
proof -
  assume "find_sub ''//'' path 0 = None"
  then have "find_prefix ''//'' path = None" by (simp add: find_sub_def)
  then show ?thesis
  proof (induction path arbitrary: b)
    case (Cons c cs)
    then have "find_prefix ''//'' cs = None" "\<not> prefix ''//'' (c # cs)" by (auto split: if_splits)
    with Cons.IH show ?case by (cases cs) auto
  qed simp
qed

lemma normalize_lookup_owned: "normalize_lookup n path = normalize_owned n path"
  using find_sub_slashes [of path False] by (cases n) (auto simp: normalize_lookup_def normalize_owned_def)

section \<open>The contract: a list of accepted registrations\<close>

record 'h registration =
  reg_method :: HttpMethod
  reg_path :: string
  reg_segs :: "PathSegment list"
  reg_handler :: 'h

abbreviation has_params :: "'h registration \<Rightarrow> bool" where
  "has_params r \<equiv> list_ex is_param (reg_segs r)"

text \<open>A registration clashes with an accepted one of the same literal path and method, with one whose
  template has its shape but other parameter names, or with one of its template and method.\<close>

definition clashes :: "'h registration \<Rightarrow> 'h registration \<Rightarrow> bool" where
  "clashes r r' =
     (if has_params r then
        has_params r' \<and> same_shape (reg_segs r') (reg_segs r)
        \<and> (reg_segs r' \<noteq> reg_segs r \<or> reg_method r' = reg_method r)
      else \<not> has_params r' \<and> reg_path r' = reg_path r \<and> reg_method r' = reg_method r)"

text \<open>A call of \<open>add_route\<close> that the code does not reject by an exception.\<close>

definition valid_registration ::
    "PathNormalization \<Rightarrow> HttpMethod \<times> string \<times> 'h option \<Rightarrow> 'h registration option" where
  "valid_registration n call =
     (case call of (m, path, hopt) \<Rightarrow>
       (case (hopt, parse_segments (normalize_owned n path)) of
          (Some h, Inr segs) \<Rightarrow>
            (if m \<noteq> unknown \<and> path \<noteq> [] \<and> hd path = CHR ''/''
             then Some \<lparr>reg_method = m, reg_path = normalize_owned n path, reg_segs = segs, reg_handler = h\<rparr>
             else None)
        | _ \<Rightarrow> None))"

definition spec_add ::
    "PathNormalization \<Rightarrow> 'h registration list \<Rightarrow> HttpMethod \<times> string \<times> 'h option \<Rightarrow> 'h registration list" where
  "spec_add n regs call =
     (case valid_registration n call of
        None \<Rightarrow> regs
      | Some r \<Rightarrow> if list_ex (clashes r) regs then regs else regs @ [r])"

definition spec_answer ::
    "'h registration list \<Rightarrow> HttpMethod \<Rightarrow> (string \<times> string) list \<Rightarrow> (http_error, 'h ResolvedRoute) result" where
  "spec_answer rs m params =
     (case find (\<lambda>r. reg_method r = m) rs of
        Some r \<Rightarrow> Inr \<lparr>handler = reg_handler r, path_params = params\<rparr>
      | None \<Rightarrow> Inl (MethodNotAllowedError
                       (filter (\<lambda>m'. m' \<in> reg_method ` set rs) [get, post, put, patch, del, head, options])))"

definition literal_for :: "'h registration list \<Rightarrow> string \<Rightarrow> 'h registration list" where
  "literal_for regs p = filter (\<lambda>r. \<not> has_params r \<and> reg_path r = p) regs"

definition spec_find ::
    "'h registration list \<Rightarrow> HttpMethod \<Rightarrow> string \<Rightarrow> (http_error, 'h ResolvedRoute) result" where
  "spec_find regs m p =
     (if literal_for regs p \<noteq> [] then spec_answer (literal_for regs p) m []
      else (case find (\<lambda>r. has_params r \<and> match_segs (reg_segs r) (path_segments p) \<noteq> None) regs of
              None \<Rightarrow> Inl (NotFoundError ''route'' p)
            | Some r \<Rightarrow> spec_answer (filter (\<lambda>r'. reg_segs r' = reg_segs r) regs) m
                          (the (match_segs (reg_segs r) (path_segments p)))))"

text \<open>A sequence of calls on a new registry; a call that throws leaves the registry unchanged.\<close>

definition register :: "'h RouteRegistry \<Rightarrow> HttpMethod \<times> string \<times> 'h option \<Rightarrow> 'h RouteRegistry" where
  "register reg call =
     (case call of (m, path, hopt) \<Rightarrow>
        (case add_route m path hopt reg of Inl _ \<Rightarrow> reg | Inr reg' \<Rightarrow> reg'))"

section \<open>The two indexes represent the list\<close>

definition slots_of :: "'h registration list \<Rightarrow> 'h MethodSlots" where
  "slots_of rs =
     map (\<lambda>i. map_option reg_handler (find (\<lambda>r. method_index (reg_method r) = i) rs)) [0..<HTTP_METHOD_COUNT]"

definition shapes :: "'h registration list \<Rightarrow> PathSegment list list" where
  "shapes regs =
     foldl (\<lambda>acc r. if has_params r \<and> reg_segs r \<notin> set acc then acc @ [reg_segs r] else acc) [] regs"

definition template_for :: "'h registration list \<Rightarrow> PathSegment list \<Rightarrow> 'h ParamTemplate" where
  "template_for regs segs =
     \<lparr>segments = segs, by_method = slots_of (filter (\<lambda>r. reg_segs r = segs) regs)\<rparr>"

definition represents :: "'h RouteRegistry \<Rightarrow> 'h registration list \<Rightarrow> bool" where
  "represents reg regs \<longleftrightarrow>
     exact reg = (\<lambda>p. if literal_for regs p = [] then None else Some (slots_of (literal_for regs p)))
     \<and> templates reg = map (template_for regs) (shapes regs)"

lemma length_slots_of [simp]: "length (slots_of rs) = HTTP_METHOD_COUNT"
  by (simp add: slots_of_def)

lemma slots_of_Nil: "slots_of [] = no_handlers"
  by (simp add: slots_of_def no_handlers_def map_replicate_const)

lemma slots_of_nth [simp]:
  "slots_of rs ! method_index m = map_option reg_handler (find (\<lambda>r. reg_method r = m) rs)"
  by (simp add: slots_of_def)

lemma slots_of_snoc:
  assumes "slots_of rs ! method_index (reg_method r) = None"
  shows "slots_of (rs @ [r]) = (slots_of rs)[method_index (reg_method r) := Some (reg_handler r)]"
proof (rule nth_equalityI)
  fix i assume "i < length (slots_of (rs @ [r]))"
  then have "i < HTTP_METHOD_COUNT" by simp
  then obtain m where "i = method_index m" by (metis method_index_of_index)
  then show "slots_of (rs @ [r]) ! i = (slots_of rs)[method_index (reg_method r) := Some (reg_handler r)] ! i"
    using assms by (cases "m = reg_method r") (auto simp: find_append split: option.splits)
qed simp

lemma allowed_methods_slots_of:
  assumes "unknown \<notin> reg_method ` set rs"
  shows "allowed_methods (slots_of rs)
         = filter (\<lambda>m. m \<in> reg_method ` set rs) [get, post, put, patch, del, head, options]"
proof -
  have taken: "slots_of rs ! method_index m \<noteq> None \<longleftrightarrow> m \<in> reg_method ` set rs" for m
    by (auto simp: find_None_iff)
  have "[1..<HTTP_METHOD_COUNT] = map method_index [get, post, put, patch, del, head, options]"
    by (simp add: HTTP_METHOD_COUNT_def upt_rec)
  then show ?thesis
    by (simp only: allowed_methods_def filter_map comp_def taken map_map method_of_index_index) simp
qed

lemma shapes_snoc:
  "shapes (regs @ [r]) =
     (if has_params r \<and> reg_segs r \<notin> set (shapes regs) then shapes regs @ [reg_segs r] else shapes regs)"
  by (simp add: shapes_def)

lemma set_shapes: "set (shapes regs) = reg_segs ` {r \<in> set regs. has_params r}"
  by (induction regs rule: rev_induct) (auto simp: shapes_snoc, simp add: shapes_def)

lemma find_shapes:
  "find P (shapes regs) = map_option reg_segs (find (\<lambda>r. has_params r \<and> P (reg_segs r)) regs)"
proof (induction regs rule: rev_induct)
  case Nil
  then show ?case by (simp add: shapes_def)
next
  case (snoc r regs)
  have "find P (shapes regs) = None \<Longrightarrow> has_params r \<Longrightarrow> reg_segs r \<in> set (shapes regs) \<Longrightarrow> \<not> P (reg_segs r)"
    by (simp add: find_None_iff)
  with snoc show ?case by (auto simp: shapes_snoc find_append split: option.splits)
qed

section \<open>Registration preserves the representation\<close>

text \<open>What holds of an accepted list: no two entries clash, no entry is for an unknown method, and the
  segments are those of the path.\<close>

definition accepted_ok :: "'h registration list \<Rightarrow> bool" where
  "accepted_ok regs \<longleftrightarrow>
     (\<forall>r \<in> set regs. reg_method r \<noteq> unknown \<and> parse_segments (reg_path r) = Inr (reg_segs r))
     \<and> (\<forall>r \<in> set regs. \<forall>r' \<in> set regs.
          has_params r \<longrightarrow> has_params r' \<longrightarrow> same_shape (reg_segs r) (reg_segs r') \<longrightarrow> reg_segs r = reg_segs r')"

lemma accepted_okD:
  assumes "accepted_ok regs" "r \<in> set regs"
  shows "reg_method r \<noteq> unknown"
    and "r' \<in> set regs \<Longrightarrow> has_params r \<Longrightarrow> has_params r' \<Longrightarrow> same_shape (reg_segs r) (reg_segs r')
         \<Longrightarrow> reg_segs r = reg_segs r'"
  using assms unfolding accepted_ok_def by blast+

lemma same_shape_sym: "same_shape a b \<Longrightarrow> same_shape b a"
  by (auto simp: same_shape_def list_all2_conv_all_nth)

lemma same_shape_trans: "same_shape a b \<Longrightarrow> same_shape b c \<Longrightarrow> same_shape a c"
  by (auto simp: same_shape_def list_all2_conv_all_nth) metis

lemma same_shape_refl [simp]: "same_shape a a"
  by (simp add: same_shape_def list.rel_refl)

lemma same_shape_names: "same_shape a b \<Longrightarrow> names_match a b \<longleftrightarrow> a = b"
proof
  assume "same_shape a b" "names_match a b"
  then have "list_all2 (=) a b"
    by (auto simp: same_shape_def names_match_def list_all2_conv_all_nth)
  then show "a = b" by (simp add: list.rel_eq)
qed (simp add: names_match_def list.rel_refl)

lemma distinct_shapes: "distinct (shapes regs)"
  by (induction regs rule: rev_induct) (auto simp: shapes_snoc, simp add: shapes_def)

lemma template_for_snoc_other:
  "segs \<noteq> reg_segs r \<Longrightarrow> template_for (regs @ [r]) segs = template_for regs segs"
  by (simp add: template_for_def)

lemma template_for_snoc_same:
  assumes "by_method (template_for regs (reg_segs r)) ! method_index (reg_method r) = None"
  shows "template_for (regs @ [r]) (reg_segs r) =
         (template_for regs (reg_segs r))
           \<lparr>by_method := (by_method (template_for regs (reg_segs r)))
                           [method_index (reg_method r) := Some (reg_handler r)]\<rparr>"
  using assms by (simp add: template_for_def slots_of_snoc)

lemma add_template_new:
  assumes "\<forall>t \<in> set ts. \<not> same_shape (segments t) segs"
  shows "add_template m p segs h ts =
         (ts @ [\<lparr>segments = segs, by_method = no_handlers[method_index m := Some h]\<rparr>], [])"
  using assms by (induction ts) auto

lemma add_template_skip:
  assumes "\<forall>t \<in> set pre. \<not> same_shape (segments t) segs"
  shows "add_template m p segs h (pre @ ts) =
         (let (ts', cs) = add_template m p segs h ts in (pre @ ts', cs))"
  using assms by (induction pre) (auto simp: Let_def split: prod.split)

lemma map_template_for_other:
  "reg_segs r \<notin> set ss \<Longrightarrow> map (template_for (regs @ [r])) ss = map (template_for regs) ss"
  by (auto intro!: template_for_snoc_other)

text \<open>The template part of a registration: the scan finds the one stored template of that shape.\<close>

lemma add_template_represents:
  fixes r :: "'h registration" and p :: string
  assumes ok: "accepted_ok regs" and params: "has_params r"
  defines "res \<equiv> add_template (reg_method r) p (reg_segs r) (reg_handler r) (map (template_for regs) (shapes regs))"
  shows "if list_ex (clashes r) regs then fst res = map (template_for regs) (shapes regs) \<and> length (snd res) = 1
         else res = (map (template_for (regs @ [r])) (shapes (regs @ [r])), [])"
proof (cases "\<exists>s \<in> set (shapes regs). same_shape s (reg_segs r)")
  case False
  then have none: "reg_segs r \<notin> set (shapes regs)" by auto
  have "\<not> list_ex (clashes r) regs"
    using False params by (auto simp: list_ex_iff clashes_def set_shapes)
  moreover have "filter (\<lambda>r'. reg_segs r' = reg_segs r) regs = []"
    using none params
    by (simp add: set_shapes filter_empty_conv) (metis (mono_tags, lifting) imageI mem_Collect_eq)
  ultimately show ?thesis
    using False params none slots_of_snoc [of "[]" r] unfolding res_def
    by (subst add_template_new)
       (auto simp: shapes_snoc map_template_for_other template_for_def slots_of_Nil no_handlers_def)
next
  case True
  then obtain pre s post where sp: "shapes regs = pre @ s # post" "same_shape s (reg_segs r)"
    "\<forall>s' \<in> set pre. \<not> same_shape s' (reg_segs r)"
    using split_list_first_prop [OF True] by blast
  obtain r' where r': "r' \<in> set regs" "has_params r'" "reg_segs r' = s"
  proof -
    have "s \<in> reg_segs ` {r \<in> set regs. has_params r}" using sp(1) by (simp flip: set_shapes)
    then show thesis using that by (elim imageE CollectE conjE) simp
  qed
  have only: "reg_segs q = s" if "q \<in> set regs" "has_params q" "same_shape (reg_segs q) (reg_segs r)" for q
    using accepted_okD(2) [OF ok that(1) r'(1) that(2) r'(2)] r'(3)
      same_shape_trans [OF that(3) same_shape_sym [OF sp(2)]] by simp
  have skip: "res = (let (ts', cs) = add_template (reg_method r) p (reg_segs r) (reg_handler r)
                  (map (template_for regs) (s # post)) in (map (template_for regs) pre @ ts', cs))"
    unfolding res_def sp(1) map_append by (rule add_template_skip) (use sp(3) in \<open>auto simp: template_for_def\<close>)
  show ?thesis
  proof (cases "s = reg_segs r")
    case False
    have "list_ex (clashes r) regs"
      using False params r' sp(2) by (auto simp: list_ex_iff clashes_def intro!: bexI [of _ r'])
    then show ?thesis
      using False sp(2) by (simp add: skip sp(1) template_for_def same_shape_names)
  next
    case s: True
    let ?slot = "by_method (template_for regs s) ! method_index (reg_method r)"
    have cl: "clashes r q \<longleftrightarrow> reg_segs q = reg_segs r \<and> reg_method q = reg_method r" if "q \<in> set regs" for q
      using params only [OF that] s by (auto simp: clashes_def)
    have slot: "?slot \<noteq> None \<longleftrightarrow> list_ex (clashes r) regs"
      using s cl by (auto simp: template_for_def list_ex_iff find_None_iff)
    show ?thesis
    proof (cases "?slot = None")
      case False
      then show ?thesis using slot s by (simp add: skip sp(1) template_for_def same_shape_names)
    next
      case True
      have "reg_segs r \<notin> set pre \<union> set post" using distinct_shapes [of regs] sp(1) s by auto
      moreover have "shapes (regs @ [r]) = pre @ s # post" using sp(1) s by (simp add: shapes_snoc)
      ultimately show ?thesis
        using True slot s template_for_snoc_same [of regs r]
        by (simp add: skip map_template_for_other same_shape_names) (simp add: template_for_def)
    qed
  qed
qed

lemma parse_segments_Inr_valid:
  "valid_registration n (m, path, hopt) = Some r \<Longrightarrow>
     parse_segments (reg_path r) = Inr (reg_segs r) \<and> reg_method r \<noteq> unknown"
  by (auto simp: valid_registration_def split: option.splits sum.splits if_splits)

lemma spec_add_ok: "accepted_ok regs \<Longrightarrow> accepted_ok (spec_add n regs call)"
proof -
  assume ok: "accepted_ok regs"
  obtain m path hopt where call: "call = (m, path, hopt)" by (cases call) auto
  show ?thesis
  proof (cases "valid_registration n call")
    case (Some r)
    then have "same_shape (reg_segs q) (reg_segs r) \<Longrightarrow> reg_segs q = reg_segs r"
      if "\<not> list_ex (clashes r) regs" "q \<in> set regs" "has_params q" "has_params r" for q
      using that by (auto simp: list_ex_iff clashes_def)
    then show ?thesis
      using ok parse_segments_Inr_valid [of n m path hopt r] Some call
      by (auto simp: accepted_ok_def spec_add_def) (metis same_shape_sym)
  qed (use ok in \<open>simp add: spec_add_def\<close>)
qed

lemma literal_for_snoc:
  "literal_for (regs @ [r]) p = literal_for regs p @ (if \<not> has_params r \<and> reg_path r = p then [r] else [])"
  by (simp add: literal_for_def)

lemma represents_literal:
  assumes rep: "represents reg regs" and lit: "\<not> has_params r"
  shows "represents (reg\<lparr>exact := (exact reg)(reg_path r \<mapsto> slots_of (literal_for regs (reg_path r) @ [r]))\<rparr>)
           (regs @ [r])"
proof -
  have "template_for (regs @ [r]) s = template_for regs s" if "s \<in> set (shapes regs)" for s
    using that lit by (intro template_for_snoc_other) (auto simp: set_shapes)
  then show ?thesis
    using assms by (auto simp: represents_def literal_for_snoc shapes_snoc fun_eq_iff)
qed

lemma exact_represents:
  "represents reg regs \<Longrightarrow>
     (case exact reg p of None \<Rightarrow> no_handlers | Some s \<Rightarrow> s) = slots_of (literal_for regs p)"
  by (auto simp: represents_def slots_of_Nil)

lemma literal_slot_clashes:
  "\<not> has_params r \<Longrightarrow>
     slots_of (literal_for regs (reg_path r)) ! method_index (reg_method r) \<noteq> None \<longleftrightarrow> list_ex (clashes r) regs"
  by (auto simp: find_None_iff literal_for_def list_ex_iff clashes_def)

text \<open>A call that the code accepts without an exception, in terms of the registration it makes.\<close>

lemma add_route_valid:
  assumes "\<not> frozen reg" "valid_registration (norm reg) (m, path, hopt) = Some r"
  shows "add_route m path hopt reg =
     (if \<not> has_params r then
        let slots = (case exact reg (reg_path r) of None \<Rightarrow> no_handlers | Some s \<Rightarrow> s) in
        if slots ! method_index (reg_method r) \<noteq> None then
          Inr (reg\<lparr>exact := (exact reg)(reg_path r \<mapsto> slots),
                   conflicts := conflicts reg @ [conflict_of (reg_method r) (reg_path r) ''duplicate route'']\<rparr>)
        else Inr (reg\<lparr>exact := (exact reg)(reg_path r \<mapsto> slots[method_index (reg_method r) := Some (reg_handler r)])\<rparr>)
      else
        let (ts, cs) = add_template (reg_method r) (reg_path r) (reg_segs r) (reg_handler r) (templates reg) in
        Inr (reg\<lparr>templates := ts, conflicts := conflicts reg @ cs\<rparr>))"
  using assms by (auto simp: add_route_def valid_registration_def Let_def split: option.splits sum.splits if_splits)

lemma add_route_invalid:
  assumes "\<not> frozen reg" "valid_registration (norm reg) (m, path, hopt) = None"
  shows "\<exists>e. add_route m path hopt reg = Inl (Invalid_argument e)
             \<or> (\<exists>e'. parse_segments (normalize_owned (norm reg) path) = Inl e' \<and> add_route m path hopt reg = Inl e')"
  using assms by (auto simp: add_route_def valid_registration_def Let_def split: option.splits sum.splits if_splits)

text \<open>One registration call: the represented list grows by the registration exactly when it is valid
  and clashes with no accepted one, and a clash adds exactly one recorded conflict.\<close>

lemma register_step:
  assumes rep: "represents reg regs" and ok: "accepted_ok regs" and live: "\<not> frozen reg"
  shows "represents (register reg call) (spec_add (norm reg) regs call)
       \<and> \<not> frozen (register reg call) \<and> norm (register reg call) = norm reg
       \<and> length (conflicts (register reg call)) = length (conflicts reg)
           + (case valid_registration (norm reg) call of
                None \<Rightarrow> 0 | Some r \<Rightarrow> if list_ex (clashes r) regs then 1 else 0)"
proof -
  obtain m path hopt where call: "call = (m, path, hopt)" by (cases call) auto
  show ?thesis
  proof (cases "valid_registration (norm reg) call")
    case None
    then have "register reg call = reg"
      using add_route_invalid [OF live, of m path hopt] by (auto simp: register_def call)
    then show ?thesis using None rep live by (simp add: spec_add_def)
  next
    case (Some r)
    note ar = add_route_valid [OF live, of m path hopt r]
    note ex = exact_represents [OF rep, of "reg_path r"]
    show ?thesis
    proof (cases "has_params r")
      case False
      show ?thesis
      proof (cases "list_ex (clashes r) regs")
        case True
        then have "literal_for regs (reg_path r) \<noteq> []"
          using literal_slot_clashes [OF False, of regs] by auto
        then have "(exact reg)(reg_path r \<mapsto> slots_of (literal_for regs (reg_path r))) = exact reg"
          using rep by (auto simp: represents_def fun_eq_iff)
        then show ?thesis
          using ar Some False True rep live ex literal_slot_clashes [OF False, of regs]
          by (simp add: register_def call spec_add_def) (simp add: represents_def)
      next
        case nc: False
        then have "slots_of (literal_for regs (reg_path r)) ! method_index (reg_method r) = None"
          using literal_slot_clashes [OF False, of regs] by auto
        then show ?thesis
          using ar Some False nc live ex represents_literal [OF rep False]
          by (simp add: register_def call spec_add_def slots_of_snoc)
      qed
    next
      case True
      have tmpl: "templates reg = map (template_for regs) (shapes regs)"
        using rep by (simp add: represents_def)
      have lit: "literal_for (regs @ [r]) p = literal_for regs p" for p
        using True by (simp add: literal_for_snoc)
      show ?thesis
        using ar Some True live rep add_template_represents [OF ok True, of "reg_path r"]
        by (auto simp: register_def call spec_add_def represents_def lit tmpl split: prod.split if_splits)
    qed
  qed
qed

section \<open>Lookup through the indexes is lookup in the list\<close>

lemma find_template_spec:
  assumes arena: "arena_ok alloc"
    and no_unknown: "unknown \<notin> reg_method ` set regs"
    and ss: "set ss \<subseteq> set (shapes regs)"
  shows "find_template alloc m p (map (template_for regs) ss) =
     (case find (\<lambda>s. match_segs s (path_segments p) \<noteq> None) ss of
        None \<Rightarrow> Inl (NotFoundError ''route'' p)
      | Some s \<Rightarrow> spec_answer (filter (\<lambda>r. reg_segs r = s) regs) m (the (match_segs s (path_segments p))))"
  using ss
proof (induction ss)
  case (Cons s ss)
  have "unknown \<notin> reg_method ` set (filter (\<lambda>r. reg_segs r = s) regs)" using no_unknown by auto
  with Cons show ?case
    by (auto simp: template_for_def match_template_segs [OF arena] spec_answer_def allowed_methods_slots_of
        split: option.splits)
qed simp

lemma find_route_spec:
  fixes regs :: "'h registration list"
  assumes rep: "represents reg regs" and ok: "accepted_ok regs" and fr: "frozen reg" and arena: "arena_ok alloc"
  shows "find_route alloc reg m path = Some (spec_find regs m (normalize_owned (norm reg) path))"
proof -
  let ?p = "normalize_owned (norm reg) path"
  have nu: "unknown \<notin> reg_method ` set rs" if "set rs \<subseteq> set regs" for rs :: "'h registration list"
    using that by (auto dest!: subsetD accepted_okD(1) [OF ok])
  show ?thesis
  proof (cases "literal_for regs ?p = []")
    case True
    have "find_template alloc m ?p (templates reg) = spec_find regs m ?p"
      using rep True find_template_spec [OF arena nu, of regs "shapes regs" m ?p]
      by (auto simp: represents_def spec_find_def find_shapes split: option.split)
    then show ?thesis
      using True rep fr by (simp add: find_route_def normalize_lookup_owned represents_def)
  next
    case False
    have "set (literal_for regs ?p) \<subseteq> set regs" by (auto simp: literal_for_def)
    from nu [OF this] show ?thesis
      using False rep fr
      by (simp add: find_route_def normalize_lookup_owned represents_def spec_find_def
          spec_answer_def allowed_methods_slots_of split: option.split)
  qed
qed

lemma represents_new: "represents (new_registry n) []"
  by (auto simp: represents_def new_registry_def literal_for_def shapes_def)

lemma register_all:
  fixes calls :: "(HttpMethod \<times> string \<times> 'h option) list" and n :: PathNormalization
  defines "reg \<equiv> foldl register (new_registry n) calls"
  shows "represents reg (foldl (spec_add n) [] calls) \<and> accepted_ok (foldl (spec_add n) [] calls)
         \<and> \<not> frozen reg \<and> norm reg = n"
  unfolding reg_def
proof (induction calls rule: rev_induct)
  case Nil
  then show ?case by (simp add: represents_new accepted_ok_def) (simp add: new_registry_def)
next
  case (snoc c calls)
  then show ?case
    using register_step [of "foldl register (new_registry n) calls" "foldl (spec_add n) [] calls" c]
    by (simp add: spec_add_ok)
qed

section \<open>Properties\<close>

text \<open>C3: The route table implements its contract. After any sequence of registration calls on a new
  registry (throwing calls included) and \<open>freeze()\<close>, a lookup gives the answer that the plain list of
  accepted registrations gives: a literal path wins over every template; otherwise the earliest
  registered matching template decides, with its percent-decoded captures; a path that is known but
  not for this method is answered with exactly the methods registered for it; and everything else is
  not found.\<close>

theorem find_route_refines:
  assumes "arena_ok alloc"
  shows "find_route alloc (snd (freeze (foldl register (new_registry n) calls))) m path
         = Some (spec_find (foldl (spec_add n) [] calls) m (normalize_owned n path))"
proof -
  let ?reg = "foldl register (new_registry n) calls" and ?regs = "foldl (spec_add n) [] calls"
  have "represents (snd (freeze ?reg)) ?regs" "frozen (snd (freeze ?reg))" "norm (snd (freeze ?reg)) = n"
    using register_all [of n calls] by (auto simp: freeze_def represents_def)
  then show ?thesis
    using find_route_spec [of "snd (freeze ?reg)" ?regs alloc m path] register_all [of n calls] assms
    by simp
qed

theorem find_route_refines_witness:
  "find_route (\<lambda>n. replicate n CHR ''x'')
     (snd (freeze (foldl register (new_registry collapse_trailing_slash)
        [(get, ''/{i}'', Some (1 :: nat)), (get, ''/m'', Some 2)]))) get ''/b/''
   = Some (Inr \<lparr>handler = 1, path_params = [(''i'', ''b'')]\<rparr>)"
proof -
  have "spec_find (foldl (spec_add collapse_trailing_slash) []
      [(get, ''/{i}'', Some (1 :: nat)), (get, ''/m'', Some 2)])
      get (normalize_owned collapse_trailing_slash ''/b/'') = Inr \<lparr>handler = 1, path_params = [(''i'', ''b'')]\<rparr>"
    by code_simp
  then show ?thesis
    by (subst find_route_refines) (simp_all only: arena_ok_def length_replicate, simp)
qed

end
