(* ===== verification/Http_Router.thy ===== *)
theory Http_Router
  imports Route_Registry Request_Context
begin

text \<open>
  Middleware, controllers, groups and the router of \<open>src/component/http-albatross/routing\<close>:
  \<open>middleware.hpp\<close>, \<open>controller.{hpp,cpp}\<close>, \<open>group.hpp\<close> and \<open>router.{hpp,cpp}\<close>.

  A handler takes the request context and the state \<open>'s\<close> of everything it may touch, and returns a
  response or an exception \<open>'x\<close> beside the new state; awaiting it is sequential. Observation hooks are
  state transformers that may throw. The registry stores handlers of a type \<open>'h\<close>, which \<open>invoke\<close> calls.
\<close>

type_synonym ('c, 's, 'x) ContextHandler = "'c \<Rightarrow> 's \<Rightarrow> ('x, Response) result \<times> 's"
type_synonym ('c, 's, 'x) Middleware = "'c \<Rightarrow> ('c, 's, 'x) ContextHandler \<Rightarrow> 's \<Rightarrow> ('x, Response) result \<times> 's"

section \<open>Middleware\<close>

definition wrap_with_middleware ::
    "('c, 's, 'x) ContextHandler \<Rightarrow> ('c, 's, 'x) Middleware list \<Rightarrow> ('c, 's, 'x) ContextHandler" where
  "wrap_with_middleware inner middlewares =
     foldl (\<lambda>nxt mw. (\<lambda>ctx. mw ctx nxt)) inner (rev middlewares)"

definition collapse_outcome :: "('e, Response) result \<Rightarrow> ('e \<Rightarrow> Response) \<Rightarrow> Response" where
  "collapse_outcome outcome conv = (case outcome of Inr r \<Rightarrow> r | Inl e \<Rightarrow> conv e)"

section \<open>Controllers\<close>

text \<open>A local route keeps its method, its path, and the bake step: given the controller's middlewares
  it yields the composed handler, or the error of \<open>typed_self\<close>.\<close>

record ('c, 's, 'x) LocalRoute =
  lr_method :: HttpMethod
  lr_path :: string
  lr_bake :: "('c, 's, 'x) Middleware list \<Rightarrow> (registry_error, ('c, 's, 'x) ContextHandler) result"

record ('c, 's, 'x) HttpController =
  configured :: bool
  baked :: bool
  local_routes :: "('c, 's, 'x) LocalRoute list"
  middlewares :: "('c, 's, 'x) Middleware list"

definition new_controller :: "('c, 's, 'x) HttpController" where
  "new_controller = \<lparr>configured = False, baked = False, local_routes = [], middlewares = []\<rparr>"

definition add_middleware ::
    "('c, 's, 'x) Middleware \<Rightarrow> ('c, 's, 'x) HttpController \<Rightarrow> (registry_error, ('c, 's, 'x) HttpController) result" where
  "add_middleware mw c =
     (if baked c then Inl (Logic_error ''HttpController: add_middleware after bake'')
      else Inr (c\<lparr>middlewares := middlewares c @ [mw]\<rparr>))"

fun add_basic_middleware ::
    "('c, 's, 'x) Middleware list \<Rightarrow> ('c, 's, 'x) HttpController \<Rightarrow> (registry_error, ('c, 's, 'x) HttpController) result" where
  "add_basic_middleware [] c = Inr c"
| "add_basic_middleware (mw # mws) c = bind_result (add_middleware mw c) (add_basic_middleware mws)"

definition push_route ::
    "HttpMethod \<Rightarrow> string
     \<Rightarrow> (('c, 's, 'x) Middleware list \<Rightarrow> (registry_error, ('c, 's, 'x) ContextHandler) result)
     \<Rightarrow> ('c, 's, 'x) HttpController \<Rightarrow> (registry_error, ('c, 's, 'x) HttpController) result" where
  "push_route m path bake c =
     (if baked c then Inl (Logic_error ''HttpController: route registration after bake'')
      else Inr (c\<lparr>local_routes := local_routes c @ [\<lparr>lr_method = m, lr_path = path, lr_bake = bake\<rparr>]\<rparr>))"

text \<open>\<open>typed_self\<close>: the dynamic cast of the baked controller succeeds or not.\<close>

definition typed_self :: "bool \<Rightarrow> (registry_error, unit) result" where
  "typed_self is_a =
     (if is_a then Inr ()
      else Inl (Logic_error (''HttpController: registered member function does not '' @
                             ''belong to the baked controller type'')))"

definition member_route ::
    "HttpMethod \<Rightarrow> string \<Rightarrow> bool \<Rightarrow> ('c, 's, 'x) ContextHandler
     \<Rightarrow> ('c, 's, 'x) HttpController \<Rightarrow> (registry_error, ('c, 's, 'x) HttpController) result" where
  "member_route m path is_a f =
     push_route m path (\<lambda>mws. bind_result (typed_self is_a) (\<lambda>_. Inr (wrap_with_middleware f mws)))"

text \<open>A handler returning \<open>AsyncOutcome<Response, Es...>\<close>: its typed error is converted by \<open>conv\<close>.\<close>

definition collapsing ::
    "('e \<Rightarrow> Response) \<Rightarrow> ('c \<Rightarrow> 's \<Rightarrow> ('x, ('e, Response) result) result \<times> 's) \<Rightarrow> ('c, 's, 'x) ContextHandler" where
  "collapsing conv f ctx s =
     (case f ctx s of
        (Inl x, s') \<Rightarrow> (Inl x, s')
      | (Inr outcome, s') \<Rightarrow> (Inr (collapse_outcome outcome conv), s'))"

definition member_outcome_route ::
    "HttpMethod \<Rightarrow> string \<Rightarrow> bool \<Rightarrow> ('e \<Rightarrow> Response)
     \<Rightarrow> ('c \<Rightarrow> 's \<Rightarrow> ('x, ('e, Response) result) result \<times> 's)
     \<Rightarrow> ('c, 's, 'x) HttpController \<Rightarrow> (registry_error, ('c, 's, 'x) HttpController) result" where
  "member_outcome_route m path is_a conv f =
     push_route m path
       (\<lambda>mws. bind_result (typed_self is_a) (\<lambda>_. Inr (wrap_with_middleware (collapsing conv f) mws)))"

definition callable_route ::
    "HttpMethod \<Rightarrow> string \<Rightarrow> ('c, 's, 'x) ContextHandler
     \<Rightarrow> ('c, 's, 'x) HttpController \<Rightarrow> (registry_error, ('c, 's, 'x) HttpController) result" where
  "callable_route m path f = push_route m path (\<lambda>mws. Inr (wrap_with_middleware f mws))"

definition callable_outcome_route ::
    "HttpMethod \<Rightarrow> string \<Rightarrow> ('e \<Rightarrow> Response)
     \<Rightarrow> ('c \<Rightarrow> 's \<Rightarrow> ('x, ('e, Response) result) result \<times> 's)
     \<Rightarrow> ('c, 's, 'x) HttpController \<Rightarrow> (registry_error, ('c, 's, 'x) HttpController) result" where
  "callable_outcome_route m path conv f =
     push_route m path (\<lambda>mws. Inr (wrap_with_middleware (collapsing conv f) mws))"

text \<open>The drain of \<open>bake_into\<close>: the first error stops it and leaves the registry as far as it got.\<close>

fun bake_routes ::
    "string \<Rightarrow> ('c, 's, 'x) Middleware list \<Rightarrow> ('c, 's, 'x) LocalRoute list
     \<Rightarrow> ('c, 's, 'x) ContextHandler RouteRegistry
     \<Rightarrow> registry_error option \<times> ('c, 's, 'x) ContextHandler RouteRegistry" where
  "bake_routes pref mws [] reg = (None, reg)"
| "bake_routes pref mws (r # rs) reg =
     (case lr_bake r mws of
        Inl e \<Rightarrow> (Some e, reg)
      | Inr h \<Rightarrow>
          (case add_route (lr_method r) (join_path pref (lr_path r)) (Some h) reg of
             Inl e \<Rightarrow> (Some e, reg)
           | Inr reg' \<Rightarrow> bake_routes pref mws rs reg'))"

text \<open>\<open>configure_routes\<close> is the subclass's own code: it leaves a controller behind, also when it throws.\<close>

definition bake_into ::
    "(('c, 's, 'x) HttpController \<Rightarrow> registry_error option \<times> ('c, 's, 'x) HttpController)
     \<Rightarrow> ('c, 's, 'x) ContextHandler RouteRegistry \<Rightarrow> ('c, 's, 'x) HttpController option \<Rightarrow> string
     \<Rightarrow> registry_error option \<times> ('c, 's, 'x) ContextHandler RouteRegistry \<times> ('c, 's, 'x) HttpController option" where
  "bake_into configure_routes reg ctrl pref =
     (case ctrl of
        None \<Rightarrow> (Some (Invalid_argument ''ControllerBaker: null controller''), reg, None)
      | Some c \<Rightarrow>
          if baked c then
            (Some (Logic_error ''HttpController: controller already baked''), reg, Some c)
          else
            (case (if configured c then (None, c)
                   else case configure_routes c of
                          (Some e, c1) \<Rightarrow> (Some e, c1)
                        | (None, c1) \<Rightarrow> (None, c1\<lparr>configured := True\<rparr>)) of
               (Some e, c1) \<Rightarrow> (Some e, reg, Some c1)
             | (None, c1) \<Rightarrow>
                 let c2 = c1\<lparr>baked := True\<rparr> in
                 (case bake_routes pref (middlewares c2) (local_routes c2) reg of
                    (Some e, reg') \<Rightarrow> (Some e, reg', Some c2)
                  | (None, reg') \<Rightarrow> (None, reg', Some (c2\<lparr>local_routes := []\<rparr>)))))"

section \<open>Groups\<close>

text \<open>A group is its prefix; the registry and the list of mounted controllers are threaded.\<close>

definition in_group :: "string \<Rightarrow> string \<Rightarrow> string" where
  "in_group pref sub_prefix = join_path pref sub_prefix"

definition add_controller ::
    "(('c, 's, 'x) HttpController \<Rightarrow> registry_error option \<times> ('c, 's, 'x) HttpController)
     \<Rightarrow> string \<Rightarrow> ('c, 's, 'x) HttpController option
     \<Rightarrow> ('c, 's, 'x) ContextHandler RouteRegistry \<times> ('c, 's, 'x) HttpController list
     \<Rightarrow> registry_error option \<times> ('c, 's, 'x) ContextHandler RouteRegistry \<times> ('c, 's, 'x) HttpController list" where
  "add_controller configure_routes pref ctrl st =
     (case st of (reg, sink) \<Rightarrow>
        (case bake_into configure_routes reg ctrl pref of
           (Some e, reg', _) \<Rightarrow> (Some e, reg', sink)
         | (None, reg', c) \<Rightarrow> (None, reg', sink @ (case c of None \<Rightarrow> [] | Some c' \<Rightarrow> [c']))))"

section \<open>The router\<close>

record RequestInfo =
  info_method :: HttpMethod
  info_target :: string

record ('c, 's, 'x) Hooks =
  on_request :: "('c \<Rightarrow> 's \<Rightarrow> ('x, unit) result \<times> 's) option"
  on_response :: "(RequestInfo \<Rightarrow> Response \<Rightarrow> 's \<Rightarrow> ('x, unit) result \<times> 's) option"
  on_unhandled_exception :: "('x \<Rightarrow> 's \<Rightarrow> ('x, unit) result \<times> 's) option"

definition no_hooks :: "('c, 's, 'x) Hooks" where
  "no_hooks = \<lparr>on_request = None, on_response = None, on_unhandled_exception = None\<rparr>"

definition run_hook :: "('s \<Rightarrow> ('x, unit) result \<times> 's) option \<Rightarrow> 's \<Rightarrow> ('x, unit) result \<times> 's" where
  "run_hook h s = (case h of None \<Rightarrow> (Inr (), s) | Some f \<Rightarrow> f s)"

type_synonym ('f, 'k, 'v) rctx = "('f, 'k, 'v) RequestContext"

definition set_path_params :: "(string \<times> string) list \<Rightarrow> ('f, 'k, 'v) rctx \<Rightarrow> ('f, 'k, 'v) rctx" where
  "set_path_params ps ctx = foldl (\<lambda>c (n, v). set_path_param n v c) ctx ps"

definition resolve ::
    "(nat \<Rightarrow> string) \<Rightarrow> 'h RouteRegistry \<Rightarrow> ('f, 'k, 'v) rctx
     \<Rightarrow> ((http_error, 'h ResolvedRoute) result \<times> ('f, 'k, 'v) rctx) option" where
  "resolve alloc reg ctx =
     (let (p, ctx') = ctx_path ctx in
      map_option (\<lambda>r. (r, ctx'))
        (find_route alloc reg (req_method (request ctx)) (case p of None \<Rightarrow> [] | Some q \<Rightarrow> q)))"

definition dispatch_with_hooks ::
    "(nat \<Rightarrow> string) \<Rightarrow> 'h RouteRegistry \<Rightarrow> ('h \<Rightarrow> (('f, 'k, 'v) rctx, 's, 'x) ContextHandler)
     \<Rightarrow> (('f, 'k, 'v) rctx, 's, 'x) Hooks \<Rightarrow> ('f, 'k, 'v) rctx \<Rightarrow> 's
     \<Rightarrow> (('x, Response) result \<times> 's) option" where
  "dispatch_with_hooks alloc reg invoke hooks ctx s =
     (case run_hook (map_option (\<lambda>h. h ctx) (on_request hooks)) s of
        (Inl x, s1) \<Rightarrow> Some (Inl x, s1)
      | (Inr _, s1) \<Rightarrow>
          let info = \<lparr>info_method = req_method (request ctx), info_target = req_target (request ctx)\<rparr> in
          (case resolve alloc reg ctx of
             None \<Rightarrow> None
           | Some (Inl e, _) \<Rightarrow>
               let r = to_http_response e in
               (case run_hook (map_option (\<lambda>h. h info r) (on_response hooks)) s1 of
                  (Inl x, s2) \<Rightarrow> Some (Inl x, s2)
                | (Inr _, s2) \<Rightarrow> Some (Inr r, s2))
           | Some (Inr resolved, ctx1) \<Rightarrow>
               let ctx2 = set_path_params (path_params resolved) ctx1;
                   tried = (case invoke (handler resolved) ctx2 s1 of
                              (Inl x, s2) \<Rightarrow> (Inl x, s2)
                            | (Inr r, s2) \<Rightarrow>
                                (case run_hook (map_option (\<lambda>h. h info r) (on_response hooks)) s2 of
                                   (Inl x, s3) \<Rightarrow> (Inl x, s3)
                                 | (Inr _, s3) \<Rightarrow> (Inr r, s3))) in
               (case tried of
                  (Inr r, s3) \<Rightarrow> Some (Inr r, s3)
                | (Inl x, s3) \<Rightarrow>
                    (case run_hook (map_option (\<lambda>h. h x) (on_unhandled_exception hooks)) s3 of
                       (Inl x', s4) \<Rightarrow> Some (Inl x', s4)
                     | (Inr _, s4) \<Rightarrow> Some (Inl x, s4)))))"

definition dispatch ::
    "(nat \<Rightarrow> string) \<Rightarrow> 'h RouteRegistry \<Rightarrow> ('h \<Rightarrow> (('f, 'k, 'v) rctx, 's, 'x) ContextHandler)
     \<Rightarrow> (('f, 'k, 'v) rctx, 's, 'x) Hooks \<Rightarrow> ('f, 'k, 'v) rctx \<Rightarrow> 's
     \<Rightarrow> (('x, Response) result \<times> 's) option" where
  "dispatch alloc reg invoke hooks ctx s =
     (if on_request hooks \<noteq> None \<or> on_response hooks \<noteq> None \<or> on_unhandled_exception hooks \<noteq> None
      then dispatch_with_hooks alloc reg invoke hooks ctx s
      else
        (case resolve alloc reg ctx of
           None \<Rightarrow> None
         | Some (Inl e, _) \<Rightarrow> Some (Inr (to_http_response e), s)
         | Some (Inr resolved, ctx1) \<Rightarrow>
             Some (invoke (handler resolved) (set_path_params (path_params resolved) ctx1) s)))"

section \<open>Middleware order\<close>

lemma wrap_Nil [simp]: "wrap_with_middleware inner [] = inner"
  by (simp add: wrap_with_middleware_def)

lemma wrap_Cons [simp]:
  "wrap_with_middleware inner (mw # mws) = (\<lambda>ctx. mw ctx (wrap_with_middleware inner mws))"
  by (simp add: wrap_with_middleware_def)

text \<open>A middleware that leaves a mark before and after the rest of the chain.\<close>

datatype 'i mark = Enter 'i | Exit 'i | Called

definition marking :: "'i \<Rightarrow> ('c, 'i mark list, 'x) Middleware" where
  "marking i ctx nxt s = (case nxt ctx (s @ [Enter i]) of (r, s') \<Rightarrow> (r, s' @ [Exit i]))"

definition marking_handler :: "('x, Response) result \<Rightarrow> ('c, 'i mark list, 'x) ContextHandler" where
  "marking_handler r ctx s = (r, s @ [Called])"

lemma wrap_marking:
  "wrap_with_middleware (marking_handler r) (map marking is) ctx s
   = (r, s @ map Enter is @ [Called] @ map Exit (rev is))"
  by (induction "is" arbitrary: s) (simp_all add: marking_handler_def marking_def)

section \<open>Joining prefixes\<close>

lemma strip_simps [simp]:
  "strip_trailing_slashes [] = []"
  "strip_trailing_slashes [c] = (if c = CHR ''/'' then [] else [c])"
  "strip_trailing_slashes (xs @ [c]) = (if c = CHR ''/'' then strip_trailing_slashes xs else xs @ [c])"
  by (simp_all add: strip_trailing_slashes.simps)

lemma strip_append: "strip_trailing_slashes b \<noteq> [] \<Longrightarrow> strip_trailing_slashes (a @ b) = a @ strip_trailing_slashes b"
proof (induction b rule: rev_induct)
  case (snoc c b)
  then show ?case
    by (cases "c = CHR ''/''") (simp_all add: append_assoc [symmetric] del: append_assoc)
qed simp

lemma strip_append_slashes: "strip_trailing_slashes b = [] \<Longrightarrow> strip_trailing_slashes (a @ b) = strip_trailing_slashes a"
proof (induction b rule: rev_induct)
  case (snoc c b)
  then show ?case
    by (cases "c = CHR ''/''") (simp_all add: append_assoc [symmetric] del: append_assoc)
qed simp

lemma strip_idem [simp]: "strip_trailing_slashes (strip_trailing_slashes a) = strip_trailing_slashes a"
  by (induction a rule: rev_induct) auto

lemma strip_hd: "strip_trailing_slashes b \<noteq> [] \<Longrightarrow> hd (strip_trailing_slashes b) = hd b"
proof (induction b rule: rev_induct)
  case (snoc c b)
  then show ?case by (cases "b = []") (auto split: if_splits)
qed simp

lemma strip_last: "strip_trailing_slashes b \<noteq> [] \<Longrightarrow> last (strip_trailing_slashes b) \<noteq> CHR ''/''"
  by (induction b rule: rev_induct) auto

lemma strip_Nil_hd: "strip_trailing_slashes b = [] \<Longrightarrow> b \<noteq> [] \<Longrightarrow> hd b = CHR ''/''"
proof (induction b rule: rev_induct)
  case (snoc c b)
  then show ?case by (cases "b = []") (auto split: if_splits)
qed simp

lemma strip_not_slash [simp]: "strip_trailing_slashes b \<noteq> ''/''"
  using strip_last [of b] by fastforce

lemma join_path_nontrivial:
  "path \<noteq> [] \<Longrightarrow> path \<noteq> ''/'' \<Longrightarrow>
     join_path pref path = strip_trailing_slashes pref @ (if hd path = CHR ''/'' then [] else ''/'') @ path"
  by (simp add: join_path_def)

lemma join_path_trivial:
  "path = [] \<or> path = ''/'' \<Longrightarrow>
     join_path pref path = (if strip_trailing_slashes pref = [] then ''/'' else strip_trailing_slashes pref)"
  by (auto simp: join_path_def)

lemma strip_join_path:
  "strip_trailing_slashes (join_path a b) =
     (if strip_trailing_slashes b = [] then strip_trailing_slashes a
      else strip_trailing_slashes a @ (if hd b = CHR ''/'' then [] else ''/'') @ strip_trailing_slashes b)"
proof (cases "b = [] \<or> b = ''/''")
  case True
  then show ?thesis by (auto simp: join_path_trivial)
next
  case False
  then show ?thesis
    using strip_Nil_hd [of b] strip_append [of b] strip_append_slashes [of b]
    by (simp add: join_path_nontrivial append_assoc [symmetric] del: append_assoc)
qed

section \<open>Hooks\<close>

datatype 'x event = Requested | Responded Response | Escaped 'x

text \<open>Hooks that record their calls in a log beside the state of the handlers.\<close>

definition logging_hooks :: "('c, 's \<times> 'x event list, 'x) Hooks" where
  "logging_hooks =
     \<lparr>on_request = Some (\<lambda>ctx (s, l). (Inr (), (s, l @ [Requested]))),
      on_response = Some (\<lambda>info r (s, l). (Inr (), (s, l @ [Responded r]))),
      on_unhandled_exception = Some (\<lambda>x (s, l). (Inr (), (s, l @ [Escaped x])))\<rparr>"

definition beside_log ::
    "('h \<Rightarrow> ('c, 's, 'x) ContextHandler) \<Rightarrow> 'h \<Rightarrow> ('c, 's \<times> 'x event list, 'x) ContextHandler" where
  "beside_log invoke h ctx st = (case st of (s, l) \<Rightarrow> (case invoke h ctx s of (r, s') \<Rightarrow> (r, (s', l))))"

section \<open>Baking\<close>

lemma bake_routes_register:
  assumes "fst (bake_routes pref mws rs reg) = None"
  shows "snd (bake_routes pref mws rs reg)
         = foldl register reg
             (map (\<lambda>r. (lr_method r, join_path pref (lr_path r), Some (projr (lr_bake r mws)))) rs)"
  using assms
  by (induction rs arbitrary: reg) (auto simp: register_def split: sum.splits)

section \<open>Properties\<close>

text \<open>C25: Middlewares run in the order they were added, the first one outermost. The composed handler of
  a chain is the first middleware around the rest of the chain, whether or not it calls it; and with
  middlewares that mark their entry and exit, the marks nest around one call of the handler.\<close>

theorem middleware_onion:
  "wrap_with_middleware inner (outer # rest) ctx s = outer ctx (wrap_with_middleware inner rest) s
   \<and> wrap_with_middleware inner (front @ back) = wrap_with_middleware (wrap_with_middleware inner back) front
   \<and> wrap_with_middleware (marking_handler r) (map marking is) ctx' marks
     = (r, marks @ map Enter is @ [Called] @ map Exit (rev is))"
proof -
  have "wrap_with_middleware inner (front @ back) = wrap_with_middleware (wrap_with_middleware inner back) front"
    by (induction front) simp_all
  then show ?thesis by (simp add: wrap_marking)
qed

text \<open>C26: Observation hooks only observe. With hooks that record their calls, every dispatch returns what
  the hookless fast path returns and leaves the handlers' state the same; the log shows the request
  hook first and then exactly one more call: the response hook with the returned response, for a
  routing miss as well as for a handler's answer, or the exception hook with the exception that
  escapes.\<close>

theorem dispatch_hook_contract:
  "dispatch alloc reg (beside_log invoke) logging_hooks ctx (s, l)
   = map_option (\<lambda>(r, s'). (r, (s', l @ [Requested, case r of Inr resp \<Rightarrow> Responded resp | Inl x \<Rightarrow> Escaped x])))
       (dispatch alloc reg invoke no_hooks ctx s)"
  by (auto simp: dispatch_def dispatch_with_hooks_def logging_hooks_def no_hooks_def run_hook_def beside_log_def
      Let_def split: option.split sum.split prod.split)

text \<open>Nested groups compose. Mounting under a prefix inside a group gives the same route path however
  the prefixes are grouped, for every mixture of leading, trailing and missing slashes.\<close>

theorem join_path_assoc:
  "join_path (in_group a b) c = join_path a (join_path b c)"
proof (cases "c = [] \<or> c = ''/''")
  case True
  show ?thesis
  proof (cases "strip_trailing_slashes b = []")
    case b: True
    then have "join_path b c = ''/''" using True by (simp add: join_path_trivial)
    then show ?thesis using True b by (simp add: in_group_def join_path_trivial strip_join_path)
  next
    case False
    then have "join_path b c = strip_trailing_slashes b" using True by (simp add: join_path_trivial)
    then show ?thesis
      using True False strip_hd [of b]
      by (simp add: in_group_def join_path_trivial [of c] join_path_nontrivial strip_join_path)
  qed
next
  case False
  let ?d = "strip_trailing_slashes b @ (if hd c = CHR ''/'' then [] else ''/'') @ c"
  have "?d \<noteq> []" "?d \<noteq> ''/''" using False strip_not_slash [of b] by (auto simp: append_eq_Cons_conv)
  moreover have "hd ?d = (if strip_trailing_slashes b = [] then CHR ''/'' else hd b)"
    using False strip_hd [of b] by (auto simp: hd_append)
  ultimately show ?thesis
    using False by (simp add: in_group_def join_path_nontrivial strip_join_path del: append_is_Nil_conv)
qed

text \<open>C27: A controller is baked once. After a successful bake the registry is what registering the
  controller's routes one by one under the prefix gives, each with the middleware chain around it; a
  later bake is rejected without touching the registry, and so are later middlewares and routes.\<close>

theorem bake_into_once:
  assumes "bake_into configure_routes reg (Some c) pref = (None, reg', Some c')"
    and "c1 = (if configured c then c else snd (configure_routes c))"
  shows "reg' = foldl register reg
           (map (\<lambda>r. (lr_method r, join_path pref (lr_path r), Some (projr (lr_bake r (middlewares c1)))))
              (local_routes c1))
       \<and> bake_into configure_routes reg2 (Some c') pref2
         = (Some (Logic_error ''HttpController: controller already baked''), reg2, Some c')
       \<and> add_middleware mw c' = Inl (Logic_error ''HttpController: add_middleware after bake'')
       \<and> push_route m path bake c' = Inl (Logic_error ''HttpController: route registration after bake'')"
  using assms bake_routes_register [of pref "middlewares c1" "local_routes c1" reg]
  by (auto simp: bake_into_def add_middleware_def push_route_def Let_def split: if_splits option.splits prod.splits)

theorem bake_into_once_witness:
  "let c = (new_controller :: (unit, unit, unit) HttpController);
       conf = (\<lambda>c. (None, projr (callable_route get ''/a'' (\<lambda>ctx s. (Inl (), s)) c)))
   in \<exists>reg' c'. bake_into conf (new_registry norm_none) (Some c) ''/v'' = (None, reg', Some c')
        \<and> add_middleware (\<lambda>ctx nxt. nxt ctx) c' = Inl (Logic_error ''HttpController: add_middleware after bake'')"
proof -
  let ?c = "(new_controller :: (unit, unit, unit) HttpController)"
  let ?conf = "\<lambda>c :: (unit, unit, unit) HttpController. (None, projr (callable_route get ''/a'' (\<lambda>ctx s. (Inl (), s)) c))"
  have "fst (bake_into ?conf (new_registry norm_none) (Some ?c) ''/v'') = None" by code_simp
  then obtain reg' c' where b: "bake_into ?conf (new_registry norm_none) (Some ?c) ''/v'' = (None, reg', Some c')"
    by (auto simp: bake_into_def Let_def new_controller_def split: option.splits prod.splits sum.splits)
  from bake_into_once [OF b refl] b show ?thesis unfolding Let_def by blast
qed

end
