(* ===== verification/Beaver_Strings.thy ===== *)
theory Beaver_Strings
  imports Menagerie_Prelude
begin

text \<open>
  The string utilities of \<open>common/core-beaver\<close> that the SQL generator writes with:
  \<open>constexpr_to_string\<close> (utilities/utils.hpp), which prints an unsigned integer two digits at a
  time from a lookup table into a 20-byte buffer, and \<open>InlineString\<close> (strings/strings.hpp), the
  fixed-capacity string of the compile-time path.
\<close>

section \<open>constexpr_to_string\<close>

text \<open>The 200-character table holds the two digits of every number below 100.\<close>

definition digits :: string where
  "digits = concat (map (\<lambda>i. [digit_char (i div 10), digit_char (i mod 10)]) [0..<100])"

text \<open>The buffer is filled from the least significant digit; \<open>pos\<close> is its length.\<close>

fun to_string_loop :: "nat \<Rightarrow> string \<Rightarrow> nat \<times> string" where
  "to_string_loop temp buffer =
     (if 100 \<le> temp
      then let idx = (temp mod 100) * 2
           in to_string_loop (temp div 100) (buffer @ [digits ! (idx + 1), digits ! idx])
      else (temp, buffer))"

declare to_string_loop.simps [simp del]

definition to_string_tail :: "nat \<Rightarrow> string \<Rightarrow> string" where
  "to_string_tail temp buffer =
     (if 10 \<le> temp then buffer @ [digits ! (temp * 2 + 1), digits ! (temp * 2)]
      else buffer @ [digit_char temp])"

definition constexpr_to_string :: "nat \<Rightarrow> string" where
  "constexpr_to_string v =
     (if v = 0 then ''0''
      else case to_string_loop v [] of (temp, buffer) \<Rightarrow> rev (to_string_tail temp buffer))"

section \<open>InlineString\<close>

record InlineString =
  size_of :: nat
  data_of :: string

datatype append_error = out_of_range

definition new_inline :: "nat \<Rightarrow> InlineString" where
  "new_inline capacity = \<lparr> size_of = 0, data_of = replicate (capacity + 1) CHR 0x00 \<rparr>"

fun copy_loop :: "string \<Rightarrow> nat \<Rightarrow> string \<Rightarrow> string" where
  "copy_loop d at [] = d"
| "copy_loop d at (c # cs) = copy_loop (d[at := c]) (Suc at) cs"

definition append_view :: "nat \<Rightarrow> InlineString \<Rightarrow> string \<Rightarrow> (append_error, InlineString) result" where
  "append_view capacity s sv =
     (if capacity < size_of s + length sv then Inl out_of_range
      else Inr (s\<lparr>data_of := copy_loop (data_of s) (size_of s) sv, size_of := size_of s + length sv\<rparr>))"

definition append_char :: "nat \<Rightarrow> InlineString \<Rightarrow> char \<Rightarrow> (append_error, InlineString) result" where
  "append_char capacity s c =
     (if capacity \<le> size_of s then Inl out_of_range
      else Inr (s\<lparr>data_of := (data_of s)[size_of s := c], size_of := size_of s + 1\<rparr>))"

text \<open>The run-time branch of \<open>assign\<close>: the copy is cut at the capacity.\<close>

definition assign :: "nat \<Rightarrow> InlineString \<Rightarrow> string \<Rightarrow> InlineString" where
  "assign capacity s sv =
     (let n = min (length sv) capacity
      in s\<lparr>data_of := (copy_loop (data_of s) 0 (take n sv))[n := CHR 0x00], size_of := n\<rparr>)"

definition clear :: "InlineString \<Rightarrow> InlineString" where
  "clear s = s\<lparr>size_of := 0, data_of := (data_of s)[0 := CHR 0x00]\<rparr>"

definition view :: "InlineString \<Rightarrow> string" where
  "view s = take (size_of s) (data_of s)"

definition inline_empty :: "InlineString \<Rightarrow> bool" where
  "inline_empty s \<longleftrightarrow> size_of s = 0"

text \<open>What a reader of the C string sees: the bytes before the first null.\<close>

definition c_str :: "InlineString \<Rightarrow> string" where
  "c_str s = takeWhile (\<lambda>c. c \<noteq> CHR 0x00) (data_of s)"

definition inline_eq :: "InlineString \<Rightarrow> string \<Rightarrow> bool" where
  "inline_eq s other \<longleftrightarrow> view s = other"

fun append_all :: "nat \<Rightarrow> InlineString \<Rightarrow> string list \<Rightarrow> (append_error, InlineString) result" where
  "append_all capacity s [] = Inr s"
| "append_all capacity s (p # ps) = bind_result (append_view capacity s p) (\<lambda>s'. append_all capacity s' ps)"

text \<open>The representation invariant: the size never passes the capacity.\<close>

definition inline_ok :: "nat \<Rightarrow> InlineString \<Rightarrow> bool" where
  "inline_ok capacity s \<longleftrightarrow> length (data_of s) = capacity + 1 \<and> size_of s \<le> capacity"

text \<open>The terminator is where \<open>c_str\<close> promises it.\<close>

definition inline_terminated :: "InlineString \<Rightarrow> bool" where
  "inline_terminated s \<longleftrightarrow> data_of s ! size_of s = CHR 0x00"

section \<open>Printing agrees with decimal notation\<close>

lemma digits_length [simp]: "length digits = 200"
  by (simp add: digits_def length_concat comp_def sum_list_triv)

lemma digits_nth:
  assumes "i < 100"
  shows "digits ! (2 * i) = digit_char (i div 10) \<and> digits ! (2 * i + 1) = digit_char (i mod 10)"
proof -
  have split: "(concat (map (\<lambda>i. [f i, g i]) xs)) ! (2 * k) = f (xs ! k)
      \<and> (concat (map (\<lambda>i. [f i, g i]) xs)) ! (2 * k + 1) = g (xs ! k)"
    if "k < length xs" for f g :: "nat \<Rightarrow> char" and xs :: "nat list" and k
    using that
  proof (induction xs arbitrary: k)
    case (Cons x xs)
    then show ?case by (cases k) auto
  qed simp
  show ?thesis
    using split [of i "[0..<100]"] assms unfolding digits_def by simp
qed

lemma decimal_step: "10 \<le> n \<Longrightarrow> decimal n = decimal (n div 10) @ [digit_char (n mod 10)]"
  by (subst decimal.simps) simp

lemma decimal_step2:
  assumes "100 \<le> n"
  shows "decimal n = decimal (n div 100) @ [digit_char (n mod 100 div 10), digit_char (n mod 100 mod 10)]"
proof -
  have m: "n mod 100 = 10 * (n div 10 mod 10) + n mod 10"
    using mod_mult2_eq [of n 10 10] by simp
  have d: "n div 10 div 10 = n div 100" by (simp add: div_mult2_eq [symmetric])
  have "10 \<le> n" "10 \<le> n div 10" using assms by auto
  then have "decimal n = (decimal (n div 10 div 10) @ [digit_char (n div 10 mod 10)]) @ [digit_char (n mod 10)]"
    by (simp only: decimal_step [of n] decimal_step [of "n div 10"])
  then show ?thesis by (simp add: d m)
qed

text \<open>The loop keeps: the reversed buffer completes the decimal form of what is left.\<close>

lemma to_string_loop_decimal:
  "case to_string_loop temp buffer of (t, b) \<Rightarrow>
     t < 100 \<and> (temp \<noteq> 0 \<longrightarrow> t \<noteq> 0) \<and> decimal t @ rev b = decimal temp @ rev buffer"
proof (induction temp buffer rule: to_string_loop.induct)
  case (1 temp buffer)
  show ?case
  proof (cases "100 \<le> temp")
    case True
    let ?b = "buffer @ [digits ! (2 * (temp mod 100) + 1), digits ! (2 * (temp mod 100))]"
    have step: "to_string_loop temp buffer = to_string_loop (temp div 100) ?b"
      using True by (subst to_string_loop.simps) (simp add: Let_def mult.commute)
    have "decimal (temp div 100) @ rev ?b = decimal temp @ rev buffer"
      using decimal_step2 [OF True] digits_nth [of "temp mod 100"] by simp
    then show ?thesis
      using "1.IH" [OF True refl] True unfolding step
      by (simp add: mult.commute split: prod.splits)
  next
    case False
    then show ?thesis by (subst to_string_loop.simps) simp
  qed
qed

lemma to_string_tail_decimal:
  assumes "t < 100"
  shows "rev (to_string_tail t b) = decimal t @ rev b"
proof (cases "10 \<le> t")
  case True
  have "decimal t = decimal (t div 10) @ [digit_char (t mod 10)]" by (rule decimal_step [OF True])
  moreover have "decimal (t div 10) = [digit_char (t div 10)]"
    using assms by (subst decimal.simps) simp
  ultimately show ?thesis
    using True digits_nth [OF assms] by (simp add: to_string_tail_def mult.commute)
next
  case False
  then have "decimal t = [digit_char t]" by (subst decimal.simps) simp
  then show ?thesis using False by (simp add: to_string_tail_def)
qed

lemma constexpr_to_string_decimal [simp]: "constexpr_to_string v = decimal v"
proof (cases "v = 0")
  case True
  have "decimal 0 = ''0''" by code_simp
  then show ?thesis using True by (simp add: constexpr_to_string_def)
next
  case False
  then show ?thesis
    using to_string_loop_decimal [of v "[]"]
    by (auto simp: constexpr_to_string_def to_string_tail_decimal split: prod.splits)
qed

lemma length_decimal: "v < 10 ^ Suc k \<Longrightarrow> length (decimal v) \<le> Suc k"
proof (induction k arbitrary: v)
  case 0
  then show ?case by (subst decimal.simps) simp
next
  case (Suc k)
  show ?case
  proof (cases "v < 10")
    case True
    then show ?thesis by (subst decimal.simps) simp
  next
    case False
    moreover have "v div 10 < 10 ^ Suc k" using Suc.prems by (simp add: less_mult_imp_div_less mult.commute)
    ultimately show ?thesis using Suc.IH [of "v div 10"] decimal_step [of v] by simp
  qed
qed

text \<open>\<open>constexpr_to_string\<close>, which takes two digits per division from a lookup table, prints
  every \<open>std::size_t\<close> in ordinary decimal notation: reading the text back gives the number, and the
  20-byte buffer it fills is never overrun for a 64-bit argument.\<close>

theorem constexpr_to_string_correct:
  "undecimal (constexpr_to_string v) = v \<and> (v < 2 ^ 64 \<longrightarrow> length (constexpr_to_string v) \<le> 20)"
  using length_decimal [of v 19] by simp

theorem constexpr_to_string_correct_witness:
  "undecimal (constexpr_to_string 12345) = 12345 \<and> (12345 :: nat) < 2 ^ 64
   \<and> length (constexpr_to_string 12345) \<le> 20"
  using constexpr_to_string_correct [of 12345] by simp

section \<open>InlineString\<close>

lemma length_copy_loop [simp]: "length (copy_loop d at cs) = length d"
  by (induction cs arbitrary: d at) auto

lemma take_copy_loop:
  "at + length cs \<le> length d \<Longrightarrow> take (at + length cs) (copy_loop d at cs) = take at d @ cs"
proof (induction cs arbitrary: d at)
  case (Cons c cs)
  then show ?case using Cons.IH [of "Suc at" "d[at := c]"] by (simp add: seq_simps)
qed simp

lemma nth_copy_loop_beyond: "at + length cs \<le> k \<Longrightarrow> copy_loop d at cs ! k = d ! k"
  by (induction cs arbitrary: d at) auto

lemma inline_ok_new [simp]: "inline_ok capacity (new_inline capacity)"
  by (simp add: inline_ok_def new_inline_def)

lemma view_new [simp]: "view (new_inline capacity) = []"
  by (simp add: view_def new_inline_def)

lemma append_view_ok:
  assumes "inline_ok capacity s" "append_view capacity s sv = Inr s'"
  shows "inline_ok capacity s' \<and> view s' = view s @ sv"
  using assms take_copy_loop [of "size_of s" sv "data_of s"]
  by (auto simp: append_view_def inline_ok_def view_def split: if_splits)

lemma append_char_ok:
  assumes "inline_ok capacity s" "append_char capacity s c = Inr s'"
  shows "inline_ok capacity s' \<and> view s' = view s @ [c]"
  using assms by (auto simp: append_char_def inline_ok_def view_def seq_simps split: if_splits)

lemma assign_ok:
  assumes "inline_ok capacity s"
  shows "inline_ok capacity (assign capacity s sv) \<and> view (assign capacity s sv) = take capacity sv
    \<and> inline_terminated (assign capacity s sv)"
  using assms take_copy_loop [of 0 "take (min (length sv) capacity) sv" "data_of s"]
  by (auto simp: assign_def inline_ok_def view_def inline_terminated_def Let_def min_def)

lemma clear_ok:
  assumes "inline_ok capacity s"
  shows "inline_ok capacity (clear s) \<and> view (clear s) = []"
  using assms by (auto simp: clear_def inline_ok_def view_def)

lemma append_view_error:
  "append_view capacity s sv = Inl e \<longleftrightarrow> e = out_of_range \<and> capacity < size_of s + length sv"
  by (cases e) (auto simp: append_view_def)

lemma size_view: "inline_ok capacity s \<Longrightarrow> length (view s) = size_of s"
  by (auto simp: inline_ok_def view_def)

lemma append_all_view:
  assumes "inline_ok capacity s"
  shows "append_all capacity s ps =
      Inl out_of_range \<and> capacity < length (view s @ concat ps)
    \<or> (\<exists>s'. append_all capacity s ps = Inr s' \<and> inline_ok capacity s' \<and> view s' = view s @ concat ps)"
  using assms
proof (induction ps arbitrary: s)
  case (Cons p ps)
  show ?case
  proof (cases "append_view capacity s p")
    case (Inl e)
    then show ?thesis
      using size_view [OF Cons.prems] append_view_error [of capacity s p e] by auto
  next
    case (Inr s')
    then show ?thesis
      using Cons.IH [of s'] append_view_ok [OF Cons.prems Inr] by auto
  qed
qed simp

text \<open>A sequence of appends to a fresh \<open>InlineString\<close> fails exactly when the total length passes
  the capacity, and otherwise leaves the concatenation of the pieces: the compile-time path either
  rejects a query or produces the same text as the unbounded string.\<close>

theorem append_all_exact:
  "append_all capacity (new_inline capacity) ps =
     (if capacity < length (concat ps) then Inl out_of_range
      else Inr (projr (append_all capacity (new_inline capacity) ps)))
   \<and> (length (concat ps) \<le> capacity \<longrightarrow>
        view (projr (append_all capacity (new_inline capacity) ps)) = concat ps)"
proof -
  have "inline_ok capacity s' \<Longrightarrow> view s' = concat ps \<Longrightarrow> length (concat ps) \<le> capacity" for s'
    using size_view [of capacity s'] by (simp add: inline_ok_def)
  then show ?thesis
    using append_all_view [OF inline_ok_new, of capacity ps] by auto
qed

theorem append_all_exact_witness:
  "length (concat [''a'', ''bc'']) \<le> (3 :: nat)
   \<and> view (projr (append_all 3 (new_inline 3) [''a'', ''bc''])) = ''abc''"
  using append_all_exact [of 3 "[''a'', ''bc'']"] by simp

text \<open>The bytes of an \<open>InlineString\<close> after each operation, as a whole buffer.\<close>

lemma copy_loop_buffer:
  "at + length cs \<le> length d \<Longrightarrow> copy_loop d at cs = take at d @ cs @ drop (at + length cs) d"
proof (induction cs arbitrary: d at)
  case (Cons c cs)
  then show ?case using Cons.IH [of "Suc at" "d[at := c]"] by (simp add: seq_simps)
qed simp

lemma assign_buffer:
  assumes "length long \<le> capacity"
  shows "\<exists>pad. assign capacity (new_inline capacity) long = \<lparr>size_of = length long, data_of = long @ CHR 0x00 # pad\<rparr>"
proof -
  have "copy_loop (replicate (capacity + 1) CHR 0x00) 0 long
      = long @ CHR 0x00 # replicate (capacity - length long) CHR 0x00"
    using assms by (simp add: copy_loop_buffer replicate_Suc [symmetric] Suc_diff_le del: replicate_Suc)
  then show ?thesis using assms by (simp add: assign_def new_inline_def Let_def min_absorb1)
qed

lemma takeWhile_upto: "c \<notin> set xs \<Longrightarrow> takeWhile (\<lambda>x. x \<noteq> c) (xs @ c # ys) = xs"
  by (induction xs) auto

text \<open>\<open>clear\<close> only overwrites the first byte and \<open>operator+=\<close> writes no terminator, so after
  \<open>assign(long); clear(); += shorter\<close> the C string that \<open>c_str\<close> returns still carries the tail of the
  old contents, while \<open>view\<close> is right.\<close>

theorem c_str_stale_after_clear:
  assumes "length long \<le> capacity" "shorter \<noteq> []" "length shorter \<le> length long"
    "CHR 0x00 \<notin> set long" "CHR 0x00 \<notin> set shorter"
  shows "\<exists>s. append_view capacity (clear (assign capacity (new_inline capacity) long)) shorter = Inr s
    \<and> view s = shorter \<and> c_str s = shorter @ drop (length shorter) long"
proof -
  obtain pad where a: "assign capacity (new_inline capacity) long
      = \<lparr>size_of = length long, data_of = long @ CHR 0x00 # pad\<rparr>"
    using assign_buffer [OF assms(1)] by blast
  obtain x xs where long: "long = x # xs" using assms by (cases long) auto
  have "copy_loop (CHR 0x00 # xs @ CHR 0x00 # pad) 0 shorter
      = shorter @ drop (length shorter) long @ CHR 0x00 # pad"
    using assms long by (cases shorter) (auto simp: copy_loop_buffer)
  moreover have "takeWhile (\<lambda>c. c \<noteq> CHR 0x00) (shorter @ drop (length shorter) long @ CHR 0x00 # pad)
      = shorter @ drop (length shorter) long"
    using assms takeWhile_upto [of "CHR 0x00" "shorter @ drop (length shorter) long" pad]
    by (auto dest: in_set_dropD)
  ultimately show ?thesis
    using a assms long by (simp add: append_view_def clear_def view_def c_str_def)
qed

theorem c_str_stale_after_clear_witness:
  "\<exists>s. append_view 3 (clear (assign 3 (new_inline 3) ''xyz'')) ''a'' = Inr s \<and> view s = ''a'' \<and> c_str s = ''ayz''"
  using c_str_stale_after_clear [of "''xyz''" 3 "''a''"] by simp

end
