(* ===== verification/Sql_Dialect.thy ===== *)
theory Sql_Dialect
  imports Beaver_Strings "HOL-Library.Word"
begin

text \<open>
  The PostgreSQL dialect of the query generator (\<open>database-savanna/providers/postgresql-elephant/dialect\<close>):
  identifier quoting, placeholders, the LIMIT clause and the formatting of a \<open>FieldValue\<close> as a literal.

  A dialect is a record of its four static functions, as \<open>IsSqlDialect\<close> (base/dialect/dialect_concepts.hpp)
  lists them; the generator takes the dialect as a parameter. \<open>std::to_chars\<close> on floating-point numbers is a
  parameter \<open>fp\<close> of the dialect.

  The second half is a reader for the text the dialect writes: SQL is cut into quoted identifiers, quoted
  strings and single characters, the way PostgreSQL reads it with \<open>standard_conforming_strings\<close> on. The laws
  of the locale \<open>lexed_dialect\<close> say that what the dialect quotes is read back as one token.
\<close>

section \<open>Values\<close>

text \<open>The alternatives of \<open>FieldValue\<close> (primitives/field/db_field_value.hpp). A floating-point number is its
  bit pattern; a \<open>string_view\<close> and a \<open>span\<close> are the characters and bytes they show.\<close>

datatype FieldValue =
    FV_null
  | FV_bool bool
  | FV_char char
  | FV_int16 "16 word"
  | FV_int32 "32 word"
  | FV_int64 "64 word"
  | FV_uint16 "16 word"
  | FV_uint32 "32 word"
  | FV_uint64 "64 word"
  | FV_float "32 word"
  | FV_double "64 word"
  | FV_string string
  | FV_string_view string
  | FV_bytes "8 word list"
  | FV_span "8 word list"

record float_chars =
  float_to_chars :: "32 word \<Rightarrow> string"
  double_to_chars :: "64 word \<Rightarrow> string"

section \<open>The dialect\<close>

record sql_dialect =
  quote_identifier :: "string \<Rightarrow> string \<Rightarrow> string"
  placeholder :: "string \<Rightarrow> nat \<Rightarrow> string"
  limit_clause :: "string \<Rightarrow> nat \<Rightarrow> nat \<Rightarrow> string"
  format_value :: "string \<Rightarrow> FieldValue \<Rightarrow> string"

abbreviation squote :: char where "squote \<equiv> CHR 0x27"
abbreviation dquote :: char where "dquote \<equiv> CHR 0x22"
abbreviation backslash :: char where "backslash \<equiv> CHR 0x5C"

definition escape_char :: "string \<Rightarrow> char \<Rightarrow> string" where
  "escape_char out c =
     (if c = squote then out @ [squote, squote]
      else if c = backslash then out @ [backslash, backslash]
      else out @ [c])"

definition escape_string :: "string \<Rightarrow> string \<Rightarrow> string" where
  "escape_string out str = foldl escape_char out str"

definition escape_identifier :: "string \<Rightarrow> string \<Rightarrow> string" where
  "escape_identifier out name =
     foldl (\<lambda>out c. if c = dquote then out @ [dquote, dquote] else out @ [c]) out name"

definition hex_chars :: string where
  "hex_chars = ''0123456789abcdef''"

definition format_binary_data :: "8 word list \<Rightarrow> string" where
  "format_binary_data data =
     foldl (\<lambda>result byte. result @ [hex_chars ! (unat byte div 16), hex_chars ! (unat byte mod 16)])
       [squote, backslash, CHR ''x''] data @ [squote]"

definition format_null :: "string \<Rightarrow> string" where
  "format_null query = query @ ''NULL''"

definition format_bool :: "string \<Rightarrow> bool \<Rightarrow> string" where
  "format_bool query val = query @ (if val then ''TRUE'' else ''FALSE'')"

definition format_char :: "string \<Rightarrow> char \<Rightarrow> string" where
  "format_char query val = escape_char (query @ [squote]) val @ [squote]"

text \<open>\<open>std::to_chars\<close> on an integer.\<close>

definition int_to_chars :: "int \<Rightarrow> string" where
  "int_to_chars val = (if val < 0 then CHR ''-'' # decimal (nat (- val)) else decimal (nat val))"

definition format_integral :: "string \<Rightarrow> int \<Rightarrow> string" where
  "format_integral query val = query @ int_to_chars val"

definition format_floating :: "string \<Rightarrow> string \<Rightarrow> string" where
  "format_floating query chars = query @ chars"

definition format_string_value :: "string \<Rightarrow> string \<Rightarrow> string" where
  "format_string_value query val = escape_string (query @ [squote]) val @ [squote]"

definition format_binary :: "string \<Rightarrow> 8 word list \<Rightarrow> string" where
  "format_binary query val = query @ format_binary_data val"

fun format_value_impl :: "float_chars \<Rightarrow> string \<Rightarrow> FieldValue \<Rightarrow> string" where
  "format_value_impl fp query FV_null = format_null query"
| "format_value_impl fp query (FV_bool val) = format_bool query val"
| "format_value_impl fp query (FV_char val) = format_char query val"
| "format_value_impl fp query (FV_float val) = format_floating query (float_to_chars fp val)"
| "format_value_impl fp query (FV_double val) = format_floating query (double_to_chars fp val)"
| "format_value_impl fp query (FV_int16 val) = format_integral query (sint val)"
| "format_value_impl fp query (FV_int32 val) = format_integral query (sint val)"
| "format_value_impl fp query (FV_int64 val) = format_integral query (sint val)"
| "format_value_impl fp query (FV_uint16 val) = format_integral query (uint val)"
| "format_value_impl fp query (FV_uint32 val) = format_integral query (uint val)"
| "format_value_impl fp query (FV_uint64 val) = format_integral query (uint val)"
| "format_value_impl fp query (FV_string val) = format_string_value query val"
| "format_value_impl fp query (FV_string_view val) = format_string_value query val"
| "format_value_impl fp query (FV_bytes val) = format_binary query val"
| "format_value_impl fp query (FV_span val) = format_binary query val"

definition pg_quote_identifier :: "string \<Rightarrow> string \<Rightarrow> string" where
  "pg_quote_identifier query name = escape_identifier (query @ [dquote]) name @ [dquote]"

definition pg_placeholder :: "string \<Rightarrow> nat \<Rightarrow> string" where
  "pg_placeholder query index = query @ [CHR ''$''] @ constexpr_to_string index"

definition pg_limit_clause :: "string \<Rightarrow> nat \<Rightarrow> nat \<Rightarrow> string" where
  "pg_limit_clause query limit offset =
     (let query1 = query @ '' LIMIT '' @ constexpr_to_string limit
      in if 0 < offset then query1 @ '' OFFSET '' @ constexpr_to_string offset else query1)"

definition PostgresDialect :: "float_chars \<Rightarrow> sql_dialect" where
  "PostgresDialect fp = \<lparr> quote_identifier = pg_quote_identifier, placeholder = pg_placeholder,
     limit_clause = pg_limit_clause, format_value = format_value_impl fp \<rparr>"

section \<open>Reading SQL text back\<close>

datatype sql_token = TIdent string | TString string | TChar char

text \<open>\<open>read_quoted q s\<close> reads up to the closing quote \<open>q\<close>; a doubled quote stands for one.\<close>

fun read_quoted :: "char \<Rightarrow> string \<Rightarrow> (string \<times> string) option" where
  "read_quoted q [] = None"
| "read_quoted q [c] = (if c = q then Some ([], []) else None)"
| "read_quoted q (c # d # cs) =
     (if c = q
      then if d = q then map_option (apfst ((#) q)) (read_quoted q cs) else Some ([], d # cs)
      else map_option (apfst ((#) c)) (read_quoted q (d # cs)))"

lemma read_quoted_shorter: "read_quoted q s = Some (v, rest) \<Longrightarrow> length rest < length s"
  by (induction q s arbitrary: v rest rule: read_quoted.induct) (fastforce split: if_splits)+

function lex_sql :: "string \<Rightarrow> sql_token list option" where
  "lex_sql [] = Some []"
| "lex_sql (c # cs) =
     (if c = squote
      then case read_quoted squote cs of None \<Rightarrow> None
           | Some (v, rest) \<Rightarrow> map_option ((#) (TString v)) (lex_sql rest)
      else if c = dquote
      then case read_quoted dquote cs of None \<Rightarrow> None
           | Some (v, rest) \<Rightarrow> map_option ((#) (TIdent v)) (lex_sql rest)
      else map_option ((#) (TChar c)) (lex_sql cs))"
  by pat_completeness auto
termination
  by (relation "measure length") (auto dest!: read_quoted_shorter [OF sym] read_quoted_shorter)

text \<open>The text that may follow a quoted token without changing how it is read.\<close>

fun safe_rest :: "string \<Rightarrow> bool" where
  "safe_rest [] = True"
| "safe_rest (c # _) = (c \<noteq> squote \<and> c \<noteq> dquote)"

definition plain :: "string \<Rightarrow> bool" where
  "plain s \<longleftrightarrow> (\<forall>c \<in> set s. c \<noteq> squote \<and> c \<noteq> dquote)"

text \<open>What a string literal is read back as: every backslash of the value comes back doubled.\<close>

definition double_backslashes :: "string \<Rightarrow> string" where
  "double_backslashes v = concat (map (\<lambda>c. if c = backslash then [c, c] else [c]) v)"

definition hex_body :: "8 word list \<Rightarrow> string" where
  "hex_body data = concat (map (\<lambda>b. [hex_chars ! (unat b div 16), hex_chars ! (unat b mod 16)]) data)"

text \<open>The tokens a literal should be read as.\<close>

fun value_tokens :: "FieldValue \<Rightarrow> sql_token list" where
  "value_tokens FV_null = map TChar ''NULL''"
| "value_tokens (FV_bool b) = map TChar (if b then ''TRUE'' else ''FALSE'')"
| "value_tokens (FV_char c) = [TString (double_backslashes [c])]"
| "value_tokens (FV_int16 w) = map TChar (int_to_chars (sint w))"
| "value_tokens (FV_int32 w) = map TChar (int_to_chars (sint w))"
| "value_tokens (FV_int64 w) = map TChar (int_to_chars (sint w))"
| "value_tokens (FV_uint16 w) = map TChar (int_to_chars (uint w))"
| "value_tokens (FV_uint32 w) = map TChar (int_to_chars (uint w))"
| "value_tokens (FV_uint64 w) = map TChar (int_to_chars (uint w))"
| "value_tokens (FV_string v) = [TString (double_backslashes v)]"
| "value_tokens (FV_string_view v) = [TString (double_backslashes v)]"
| "value_tokens (FV_bytes d) = [TString ([backslash, CHR ''x''] @ hex_body d)]"
| "value_tokens (FV_span d) = [TString ([backslash, CHR ''x''] @ hex_body d)]"
| "value_tokens (FV_float w) = []"
| "value_tokens (FV_double w) = []"

fun is_floating :: "FieldValue \<Rightarrow> bool" where
  "is_floating (FV_float _) = True"
| "is_floating (FV_double _) = True"
| "is_floating _ = False"

definition limit_text :: "nat \<Rightarrow> nat \<Rightarrow> string" where
  "limit_text limit offset =
     '' LIMIT '' @ decimal limit @ (if 0 < offset then '' OFFSET '' @ decimal offset else [])"

text \<open>\<open>lexes s ts\<close>: the text \<open>s\<close> is read as the tokens \<open>ts\<close> wherever it is followed by safe text.\<close>

definition lexes :: "string \<Rightarrow> sql_token list \<Rightarrow> bool" where
  "lexes s ts \<longleftrightarrow> (\<forall>rest. safe_rest rest \<longrightarrow> lex_sql (s @ rest) = map_option ((@) ts) (lex_sql rest))"

section \<open>The reader\<close>

lemma map_option_prepend [simp]:
  "map_option ((@) []) t = t"
  "map_option ((@) us) (map_option ((@) vs) t) = map_option ((@) (us @ vs)) t"
  "map_option ((#) u) (map_option ((@) vs) t) = map_option ((@) (u # vs)) t"
  "map_option ((@) [u]) t = map_option ((#) u) t"
  by (cases t; simp)+

lemma read_quoted_other: "c \<noteq> q \<Longrightarrow> read_quoted q (c # s) = map_option (apfst ((#) c)) (read_quoted q s)"
  by (cases s) auto

lemma read_quoted_end: "rest = [] \<or> hd rest \<noteq> q \<Longrightarrow> read_quoted q (q # rest) = Some ([], rest)"
  by (cases rest) auto

lemma safe_rest_hd: "safe_rest rest \<Longrightarrow> rest = [] \<or> (hd rest \<noteq> squote \<and> hd rest \<noteq> dquote)"
  by (cases rest) auto

lemma safe_rest_append: "s \<noteq> [] \<Longrightarrow> safe_rest (s @ t) = safe_rest s"
  by (cases s) auto

lemma plain_Nil [simp]: "plain []"
  by (simp add: plain_def)

lemma plain_Cons [simp]: "plain (c # s) \<longleftrightarrow> c \<noteq> squote \<and> c \<noteq> dquote \<and> plain s"
  by (auto simp: plain_def)

lemma plain_append [simp]: "plain (s @ t) \<longleftrightarrow> plain s \<and> plain t"
  by (auto simp: plain_def)

lemma lex_plain: "plain s \<Longrightarrow> lex_sql (s @ rest) = map_option ((@) (map TChar s)) (lex_sql rest)"
  by (induction s) auto

lemma lexes_plain: "plain s \<Longrightarrow> lexes s (map TChar s)"
  by (simp add: lexes_def lex_plain)

lemma lexes_Nil [simp]: "lexes [] []"
  by (simp add: lexes_def)

text \<open>Texts compose when the second one is safe after the first, or the first is not quoted at its end.\<close>

lemma lexes_append:
  assumes "lexes s ts" "lexes t us" "t \<noteq> [] \<Longrightarrow> safe_rest t"
  shows "lexes (s @ t) (ts @ us)"
  unfolding lexes_def
proof (intro allI impI)
  fix rest assume "safe_rest rest"
  moreover from this have "safe_rest (t @ rest)" using assms(3) by (cases t) auto
  ultimately show "lex_sql ((s @ t) @ rest) = map_option ((@) (ts @ us)) (lex_sql rest)"
    using assms(1,2) by (simp add: lexes_def)
qed

lemma lexes_plain_append:
  assumes "plain s" "lexes t us"
  shows "lexes (s @ t) (map TChar s @ us)"
  using assms by (simp add: lexes_def lex_plain)

section \<open>The PostgreSQL dialect keeps to the reader\<close>

lemma escape_string_append:
  "escape_string out str =
     out @ concat (map (\<lambda>c. if c = squote \<or> c = backslash then [c, c] else [c]) str)"
  unfolding escape_string_def
  by (induction str arbitrary: out) (auto simp: escape_char_def)

lemma escape_identifier_append:
  "escape_identifier out name = out @ concat (map (\<lambda>c. if c = dquote then [c, c] else [c]) name)"
  unfolding escape_identifier_def by (induction name arbitrary: out) auto

lemma format_binary_data_eq: "format_binary_data data = [squote, backslash, CHR ''x''] @ hex_body data @ [squote]"
proof -
  have "foldl (\<lambda>r b. r @ [hex_chars ! (unat b div 16), hex_chars ! (unat b mod 16)]) out data = out @ hex_body data"
    for out
    by (induction data arbitrary: out) (auto simp: hex_body_def)
  then show ?thesis by (simp add: format_binary_data_def)
qed

lemma read_escaped_string:
  assumes "safe_rest rest"
  shows "read_quoted squote (concat (map (\<lambda>c. if c = squote \<or> c = backslash then [c, c] else [c]) v) @ squote # rest)
    = Some (double_backslashes v, rest)"
proof (induction v)
  case Nil
  then show ?case using safe_rest_hd [OF assms] by (auto simp: double_backslashes_def read_quoted_end)
qed (auto simp: double_backslashes_def read_quoted_other)

lemma read_escaped_identifier:
  assumes "safe_rest rest"
  shows "read_quoted dquote (concat (map (\<lambda>c. if c = dquote then [c, c] else [c]) n) @ dquote # rest) = Some (n, rest)"
proof (induction n)
  case Nil
  then show ?case using safe_rest_hd [OF assms] by (auto simp: read_quoted_end)
qed (auto simp: read_quoted_other)

lemma hex_char_plain: "k < 16 \<Longrightarrow> hex_chars ! k \<noteq> squote \<and> hex_chars ! k \<noteq> dquote"
  using nth_mem [of k hex_chars] by (auto simp: hex_chars_def)

lemma hex_body_plain: "plain (hex_body data)"
proof -
  have "unat b < 256" for b :: "8 word" using unsigned_less [of b, where ?'a = nat] by simp
  then have "unat b div 16 < 16" for b :: "8 word" by (simp add: less_mult_imp_div_less)
  then show ?thesis by (auto simp: hex_body_def plain_def hex_char_plain)
qed

lemma read_plain_quoted:
  assumes "plain s" "safe_rest rest"
  shows "read_quoted squote (s @ squote # rest) = Some (s, rest)"
  using assms
proof (induction s)
  case Nil
  then show ?case using safe_rest_hd [of rest] by (auto simp: read_quoted_end)
qed (auto simp: read_quoted_other)

lemma lexes_quoted_string:
  "lexes (squote # concat (map (\<lambda>c. if c = squote \<or> c = backslash then [c, c] else [c]) v) @ [squote])
     [TString (double_backslashes v)]"
  by (simp add: lexes_def read_escaped_string)

lemma lexes_quoted_binary: "lexes ([squote, backslash, CHR ''x''] @ hex_body d @ [squote])
    [TString ([backslash, CHR ''x''] @ hex_body d)]"
proof -
  have "plain ([backslash, CHR ''x''] @ hex_body d)" by (simp add: hex_body_plain)
  from read_plain_quoted [OF this] show ?thesis by (simp add: lexes_def)
qed

lemma decimal_plain: "plain (decimal n)"
  by (auto simp: plain_def dest!: decimal_char_range)

lemma int_to_chars_plain: "plain (int_to_chars i)"
  by (simp add: int_to_chars_def decimal_plain)

lemmas pg_dialect_defs = PostgresDialect_def pg_quote_identifier_def pg_placeholder_def
  pg_limit_clause_def format_null_def format_bool_def format_char_def format_integral_def
  format_floating_def format_string_value_def format_binary_def escape_string_append
  escape_identifier_append escape_char_def

lemma pg_format_append: "format_value_impl fp q v = q @ format_value_impl fp [] v"
  by (cases v) (simp_all add: pg_dialect_defs)

lemma pg_format_lexes:
  assumes "\<not> is_floating v"
  shows "lexes (format_value_impl fp [] v) (value_tokens v)"
proof (cases v)
  case (FV_char c)
  then show ?thesis
    using lexes_quoted_string [of "[c]"]
    by (cases "c = squote"; cases "c = backslash") (simp_all add: format_char_def escape_char_def)
next
  case (FV_string s)
  then show ?thesis using lexes_quoted_string [of s] by (simp add: pg_dialect_defs)
next
  case (FV_string_view s)
  then show ?thesis using lexes_quoted_string [of s] by (simp add: pg_dialect_defs)
next
  case (FV_bytes b)
  then show ?thesis using lexes_quoted_binary by (simp add: format_binary_def format_binary_data_eq)
next
  case (FV_span b)
  then show ?thesis using lexes_quoted_binary by (simp add: format_binary_def format_binary_data_eq)
qed (use assms in \<open>simp_all add: format_null_def format_bool_def format_integral_def lexes_plain int_to_chars_plain del: list.map\<close>)

section \<open>The contract the generator relies on\<close>

locale lexed_dialect =
  fixes d :: sql_dialect
  assumes quote_append: "quote_identifier d q n = q @ quote_identifier d [] n"
    and placeholder_append: "placeholder d q k = q @ placeholder d [] k"
    and limit_append: "limit_clause d q l off = q @ limit_clause d [] l off"
    and format_append: "format_value d q v = q @ format_value d [] v"
    and quote_lexes: "lexes (quote_identifier d [] n) [TIdent n]"
    and placeholder_plain: "plain (placeholder d [] k)"
    and placeholder_inj: "placeholder d [] j = placeholder d [] k \<longleftrightarrow> j = k"
    and limit_plain: "plain (limit_clause d [] l off)"
    and limit_safe: "limit_clause d [] l off \<noteq> []" "safe_rest (limit_clause d [] l off)"
    and format_lexes: "\<not> is_floating v \<Longrightarrow> lexes (format_value d [] v) (value_tokens v)"

interpretation pg: lexed_dialect "PostgresDialect fp" for fp
proof
  show "lexes (quote_identifier (PostgresDialect fp) [] n) [TIdent n]" for n
    by (simp add: lexes_def pg_dialect_defs read_escaped_identifier)
  show "format_value (PostgresDialect fp) q v = q @ format_value (PostgresDialect fp) [] v" for q v
    unfolding PostgresDialect_def by simp (rule pg_format_append)
qed (simp_all add: PostgresDialect_def pg_quote_identifier_def escape_identifier_append pg_placeholder_def
      pg_limit_clause_def pg_format_lexes decimal_plain Let_def)

end
