(* ===== verification/Sql_Schema.thy ===== *)
theory Sql_Schema
  imports Sql_Dialect
begin

text \<open>
  Tables, fields and records of \<open>database-savanna/primitives\<close> and the SQL type names of
  \<open>providers/postgresql-elephant\<close>.

  A \<open>DynamicTable\<close> holds its fields in declaration order and an index from name to position; a
  \<open>StaticTable\<close> is a name and a list of field schemas, each with its constraint tags; a \<open>Record\<close> holds
  one value per field of its table and its own copy of the index. The hash maps are partial functions.
\<close>

section \<open>SQL type names\<close>

text \<open>The \<open>constexpr\<close> lambdas of \<open>detail::SingleParamStorage\<close> and \<open>detail::NumericStorage\<close> write characters
  one by one into a zeroed \<open>std::array\<close>; \<open>put_char\<close> is \<open>result[pos++] = c\<close>.\<close>

type_synonym char_array = "string \<times> nat"

definition put_char :: "char_array \<Rightarrow> char \<Rightarrow> char_array" where
  "put_char a c = (case a of (result, pos) \<Rightarrow> (result[pos := c], pos + 1))"

definition zero_array :: "nat \<Rightarrow> char_array" where
  "zero_array n = (replicate n CHR 0x00, 0)"

definition digit_count :: "nat \<Rightarrow> nat" where
  "digit_count n = (if n < 10 then 1 else if n < 100 then 2 else if n < 1000 then 3 else if n < 10000 then 4 else 5)"

definition put_if :: "bool \<Rightarrow> nat \<Rightarrow> char_array \<Rightarrow> char_array" where
  "put_if b digit a = (if b then put_char a (digit_char digit) else a)"

definition single_param_value :: "string \<Rightarrow> nat \<Rightarrow> string" where
  "single_param_value pre n =
     (let a0 = foldl put_char (zero_array 32) pre;
          a1 = put_char a0 CHR ''('';
          a2 = put_if (10000 \<le> n) (n div 10000 mod 10) a1;
          a3 = put_if (1000 \<le> n) (n div 1000 mod 10) a2;
          a4 = put_if (100 \<le> n) (n div 100 mod 10) a3;
          a5 = put_if (10 \<le> n) (n div 10 mod 10) a4;
          a6 = put_char a5 (digit_char (n mod 10))
      in fst (put_char a6 CHR '')''))"

definition single_param_length :: "string \<Rightarrow> nat \<Rightarrow> nat" where
  "single_param_length pre n = length pre + 1 + digit_count n + 1"

definition single_param_type :: "string \<Rightarrow> nat \<Rightarrow> string" where
  "single_param_type pre n = take (single_param_length pre n) (single_param_value pre n)"

definition numeric_value :: "nat \<Rightarrow> nat \<Rightarrow> string" where
  "numeric_value precision scale =
     (let a0 = foldl put_char (zero_array 16) ''NUMERIC('';
          a1 = put_if (10 \<le> precision) (precision div 10) a0;
          a2 = put_char a1 (digit_char (precision mod 10));
          a3 = put_char a2 CHR '','';
          a4 = put_if (10 \<le> scale) (scale div 10) a3;
          a5 = put_char a4 (digit_char (scale mod 10))
      in fst (put_char a5 CHR '')''))"

definition numeric_length :: "nat \<Rightarrow> nat \<Rightarrow> nat" where
  "numeric_length precision scale = 8 + digit_count precision + 1 + digit_count scale + 1"

definition numeric_type :: "nat \<Rightarrow> nat \<Rightarrow> string" where
  "numeric_type precision scale = take (numeric_length precision scale) (numeric_value precision scale)"

text \<open>\<open>detail::TimestampTzStorage\<close>: 27 characters are listed, the array has 32, the length says 30.\<close>

definition timestamptz_value :: "nat \<Rightarrow> string" where
  "timestamptz_value p =
     (let chars = ''TIMESTAMP('' @ [char_of (48 + p)] @ '') WITH TIME ZONE''
      in chars @ replicate (32 - length chars) CHR 0x00)"

definition timestamptz_length :: nat where
  "timestamptz_length = 30"

definition timestamptz_p :: "nat \<Rightarrow> string" where
  "timestamptz_p p = take timestamptz_length (timestamptz_value p)"

datatype cpp_type =
    T_bool | T_char | T_int16 | T_int32 | T_int64 | T_uint16 | T_uint32 | T_uint64
  | T_float | T_double | T_string | T_string_view | T_vector | T_span

fun sql_type_for :: "cpp_type \<Rightarrow> string" where
  "sql_type_for T_bool = ''BOOLEAN''"
| "sql_type_for T_char = single_param_type ''CHAR'' 1"
| "sql_type_for T_int16 = ''SMALLINT''"
| "sql_type_for T_int32 = ''INTEGER''"
| "sql_type_for T_int64 = ''BIGINT''"
| "sql_type_for T_uint16 = ''INTEGER''"
| "sql_type_for T_uint32 = ''BIGINT''"
| "sql_type_for T_uint64 = numeric_type 20 0"
| "sql_type_for T_float = ''REAL''"
| "sql_type_for T_double = ''DOUBLE PRECISION''"
| "sql_type_for T_string = ''TEXT''"
| "sql_type_for T_string_view = ''TEXT''"
| "sql_type_for T_vector = ''BYTEA''"
| "sql_type_for T_span = ''BYTEA''"

section \<open>Dynamic tables\<close>

datatype Providers = Provider_None | PostgreSQL

record DynamicFieldSchema =
  fs_name :: string
  fs_db_type :: string
  fs_nullable :: bool
  fs_primary_key :: bool
  fs_foreign_key :: bool
  fs_unique :: bool
  fs_indexed :: bool
  fs_foreign_table :: string
  fs_foreign_column :: string
  fs_default_value :: string

definition default_field :: DynamicFieldSchema where
  "default_field = \<lparr> fs_name = [], fs_db_type = [], fs_nullable = True, fs_primary_key = False,
     fs_foreign_key = False, fs_unique = False, fs_indexed = False, fs_foreign_table = [],
     fs_foreign_column = [], fs_default_value = [] \<rparr>"

record DynamicTable =
  dt_name :: string
  dt_fields :: "DynamicFieldSchema list"
  dt_index :: "string \<rightharpoonup> nat"
  dt_provider :: Providers

datatype schema_error = logic_error | runtime_error string | invalid_argument | field_not_found string | bad_index nat

definition new_table :: "string \<Rightarrow> Providers \<Rightarrow> DynamicTable" where
  "new_table name provider = \<lparr> dt_name = name, dt_fields = [], dt_index = Map.empty, dt_provider = provider \<rparr>"

definition add_field :: "DynamicTable \<Rightarrow> string \<Rightarrow> string \<Rightarrow> DynamicTable" where
  "add_field t name db_type =
     t\<lparr>dt_fields := dt_fields t @ [default_field\<lparr>fs_name := name, fs_db_type := db_type\<rparr>],
       dt_index := (dt_index t)(name \<mapsto> length (dt_fields t))\<rparr>"

definition add_typed_field :: "DynamicTable \<Rightarrow> cpp_type \<Rightarrow> string \<Rightarrow> (schema_error, DynamicTable) result" where
  "add_typed_field t ty name =
     (if dt_provider t = Provider_None then Inl logic_error else Inr (add_field t name (sql_type_for ty)))"

definition get_field_schema :: "DynamicTable \<Rightarrow> string \<Rightarrow> DynamicFieldSchema option" where
  "get_field_schema t name = map_option (\<lambda>i. dt_fields t ! i) (dt_index t name)"

definition update_field :: "DynamicTable \<Rightarrow> string \<Rightarrow> (DynamicFieldSchema \<Rightarrow> DynamicFieldSchema) \<Rightarrow> DynamicTable" where
  "update_field t name f =
     (case dt_index t name of None \<Rightarrow> t
      | Some i \<Rightarrow> t\<lparr>dt_fields := (dt_fields t)[i := f (dt_fields t ! i)]\<rparr>)"

definition table_column :: "DynamicTable \<Rightarrow> string \<Rightarrow> (schema_error, string \<times> string) result" where
  "table_column t name =
     (case get_field_schema t name of None \<Rightarrow> Inl (runtime_error name)
      | Some f \<Rightarrow> Inr (fs_name f, dt_name t))"

definition primary_key :: "DynamicTable \<Rightarrow> string \<Rightarrow> DynamicTable" where
  "primary_key t name = update_field t name (\<lambda>f. f\<lparr>fs_primary_key := True, fs_nullable := False\<rparr>)"

definition nullable :: "DynamicTable \<Rightarrow> string \<Rightarrow> bool \<Rightarrow> DynamicTable" where
  "nullable t name is_null = update_field t name (\<lambda>f. f\<lparr>fs_nullable := is_null\<rparr>)"

definition foreign_key :: "DynamicTable \<Rightarrow> string \<Rightarrow> string \<Rightarrow> string \<Rightarrow> DynamicTable" where
  "foreign_key t name ref_table ref_column =
     update_field t name (\<lambda>f. f\<lparr>fs_foreign_key := True, fs_foreign_table := ref_table, fs_foreign_column := ref_column\<rparr>)"

definition unique :: "DynamicTable \<Rightarrow> string \<Rightarrow> DynamicTable" where
  "unique t name = update_field t name (\<lambda>f. f\<lparr>fs_unique := True\<rparr>)"

definition indexed :: "DynamicTable \<Rightarrow> string \<Rightarrow> DynamicTable" where
  "indexed t name = update_field t name (\<lambda>f. f\<lparr>fs_indexed := True\<rparr>)"

definition field_names :: "DynamicTable \<Rightarrow> string list" where
  "field_names t = map fs_name (dt_fields t)"

section \<open>Static tables\<close>

datatype constraint =
    PrimaryKey | NotNull | Unique | Indexed
  | ForeignKey string string | Default string | MaxLength nat | DbType string

record StaticFieldSchema =
  ss_type :: cpp_type
  ss_name :: string
  ss_constraints :: "constraint list"

record StaticTable =
  st_name :: string
  st_fields :: "StaticFieldSchema list"

definition ss_primary_key :: "StaticFieldSchema \<Rightarrow> bool" where
  "ss_primary_key s \<longleftrightarrow> PrimaryKey \<in> set (ss_constraints s)"

definition ss_nullable :: "StaticFieldSchema \<Rightarrow> bool" where
  "ss_nullable s \<longleftrightarrow> NotNull \<notin> set (ss_constraints s)"

definition ss_unique :: "StaticFieldSchema \<Rightarrow> bool" where
  "ss_unique s \<longleftrightarrow> Unique \<in> set (ss_constraints s)"

fun find_index_loop :: "string list \<Rightarrow> string \<Rightarrow> nat \<Rightarrow> nat" where
  "find_index_loop [] name i = i"
| "find_index_loop (n # ns) name i = (if n = name then i else find_index_loop ns name (i + 1))"

definition find_index :: "StaticTable \<Rightarrow> string \<Rightarrow> nat" where
  "find_index t name = find_index_loop (map ss_name (st_fields t)) name 0"

section \<open>Records\<close>

record Field =
  fd_value :: FieldValue
  fd_schema :: DynamicFieldSchema

definition new_field :: "DynamicFieldSchema option \<Rightarrow> (schema_error, Field) result" where
  "new_field schema =
     (case schema of None \<Rightarrow> Inl invalid_argument
      | Some s \<Rightarrow> Inr \<lparr> fd_value = FV_null, fd_schema = s \<rparr>)"

definition field_name :: "Field \<Rightarrow> string" where
  "field_name f = fs_name (fd_schema f)"

definition field_set :: "Field \<Rightarrow> FieldValue \<Rightarrow> Field" where
  "field_set f v = f\<lparr>fd_value := v\<rparr>"

definition field_is_null :: "Field \<Rightarrow> bool" where
  "field_is_null f \<longleftrightarrow> fd_value f = FV_null"

record Record =
  rc_schema :: DynamicTable
  rc_fields :: "Field list"
  rc_index :: "string \<rightharpoonup> nat"

fun record_loop :: "DynamicFieldSchema list \<Rightarrow> Field list \<Rightarrow> (string \<rightharpoonup> nat) \<Rightarrow> Field list \<times> (string \<rightharpoonup> nat)" where
  "record_loop [] acc index = (acc, index)"
| "record_loop (s # ss) acc index =
     record_loop ss (acc @ [\<lparr> fd_value = FV_null, fd_schema = s \<rparr>]) (index(fs_name s \<mapsto> length acc))"

definition new_record :: "DynamicTable option \<Rightarrow> (schema_error, Record) result" where
  "new_record schema =
     (case schema of None \<Rightarrow> Inl invalid_argument
      | Some t \<Rightarrow> (case record_loop (dt_fields t) [] Map.empty of (fs, index) \<Rightarrow>
          Inr \<lparr> rc_schema = t, rc_fields = fs, rc_index = index \<rparr>))"

definition record_field :: "Record \<Rightarrow> string \<Rightarrow> (schema_error, Field) result" where
  "record_field r name =
     (case rc_index r name of None \<Rightarrow> Inl (field_not_found name) | Some i \<Rightarrow> Inr (rc_fields r ! i))"

definition record_at :: "Record \<Rightarrow> nat \<Rightarrow> (schema_error, Field) result" where
  "record_at r i = (if length (rc_fields r) \<le> i then Inl (bad_index i) else Inr (rc_fields r ! i))"

definition get_field :: "Record \<Rightarrow> string \<Rightarrow> Field option" where
  "get_field r name = map_option (\<lambda>i. rc_fields r ! i) (rc_index r name)"

text \<open>\<open>record["name"].set(value)\<close>: assignment through the reference that \<open>operator[]\<close> returns.\<close>

definition record_set :: "Record \<Rightarrow> string \<Rightarrow> FieldValue \<Rightarrow> (schema_error, Record) result" where
  "record_set r name v =
     (case rc_index r name of None \<Rightarrow> Inl (field_not_found name)
      | Some i \<Rightarrow> Inr (r\<lparr>rc_fields := (rc_fields r)[i := field_set (rc_fields r ! i) v]\<rparr>))"

text \<open>The invariant of a table: the index points at a field of that name, the last one added under it.\<close>

definition last_index :: "string list \<Rightarrow> string \<rightharpoonup> nat" where
  "last_index ns n = (if n \<in> set ns then Some (length ns - 1 - length (takeWhile (\<lambda>m. m \<noteq> n) (rev ns))) else None)"

definition table_ok :: "DynamicTable \<Rightarrow> bool" where
  "table_ok t \<longleftrightarrow> dt_index t = last_index (field_names t)"

section \<open>Type names are written whole\<close>

lemma foldl_put_char:
  "pos + length cs \<le> length r \<Longrightarrow>
   foldl put_char (r, pos) cs = (take pos r @ cs @ drop (pos + length cs) r, pos + length cs)"
proof (induction cs arbitrary: r pos)
  case (Cons c cs)
  then show ?case using Cons.IH [of "Suc pos" "r[pos := c]"] by (simp add: put_char_def seq_simps)
qed simp

lemma put_if_foldl: "put_if b digit a = foldl put_char a (if b then [digit_char digit] else [])"
  by (simp add: put_if_def)

lemma put_char_foldl: "put_char a c = foldl put_char a [c]"
  by simp

lemma take_written:
  assumes "length cs \<le> k"
  shows "take (length cs) (fst (foldl put_char (zero_array k) cs)) = cs"
  using assms by (simp add: zero_array_def foldl_put_char)

lemma decimal_chars:
  assumes "n \<le> 99999"
  shows "decimal n = (if 10000 \<le> n then [digit_char (n div 10000 mod 10)] else [])
     @ (if 1000 \<le> n then [digit_char (n div 1000 mod 10)] else [])
     @ (if 100 \<le> n then [digit_char (n div 100 mod 10)] else [])
     @ (if 10 \<le> n then [digit_char (n div 10 mod 10)] else []) @ [digit_char (n mod 10)]"
proof -
  have one: "decimal m = [digit_char m]" if "m < 10" for m using that by (subst decimal.simps) simp
  have d: "n div 10 div 10 = n div 100" "n div 100 div 10 = n div 1000" "n div 1000 div 10 = n div 10000"
    by (simp_all add: div_mult2_eq [symmetric])
  consider "n < 10" | "10 \<le> n" "n < 100" | "100 \<le> n" "n < 1000" | "1000 \<le> n" "n < 10000" | "10000 \<le> n"
    by linarith
  then show ?thesis
  proof cases
    case 1
    then show ?thesis by (simp add: one)
  next
    case 2
    then show ?thesis by (simp add: decimal_step [of n] one)
  next
    case 3
    then show ?thesis by (simp add: decimal_step [of n] decimal_step [of "n div 10"] one d)
  next
    case 4
    then show ?thesis
      by (simp add: decimal_step [of n] decimal_step [of "n div 10"] decimal_step [of "n div 100"] one d)
  next
    case 5
    with assms show ?thesis
      by (simp add: decimal_step [of n] decimal_step [of "n div 10"] decimal_step [of "n div 100"]
          decimal_step [of "n div 1000"] one d)
  qed
qed

lemma digit_count_decimal: "n \<le> 99999 \<Longrightarrow> digit_count n = length (decimal n)"
  by (simp add: decimal_chars digit_count_def)

lemma single_param_value_eq:
  "n \<le> 99999 \<Longrightarrow> single_param_value pre n = fst (foldl put_char (zero_array 32) (pre @ ''('' @ decimal n @ '')''))"
  by (simp add: single_param_value_def Let_def put_if_foldl decimal_chars)

lemma single_param_type_eq:
  assumes "n \<le> 99999" "length pre \<le> 25"
  shows "single_param_type pre n = pre @ ''('' @ decimal n @ '')''"
proof -
  let ?cs = "pre @ ''('' @ decimal n @ '')''"
  have "length (decimal n) \<le> 5" using assms length_decimal [of n 4] by simp
  then have "take (length ?cs) (fst (foldl put_char (zero_array 32) ?cs)) = ?cs"
    using assms by (intro take_written) simp
  moreover have "single_param_length pre n = length ?cs"
    using assms by (simp add: single_param_length_def digit_count_decimal)
  ultimately show ?thesis using assms(1) by (simp only: single_param_type_def single_param_value_eq)
qed

lemma numeric_type_eq:
  assumes "precision \<le> 99" "scale \<le> 99"
  shows "numeric_type precision scale = ''NUMERIC('' @ decimal precision @ '','' @ decimal scale @ '')''"
proof -
  let ?cs = "''NUMERIC('' @ decimal precision @ '','' @ decimal scale @ '')''"
  have two: "decimal n = (if 10 \<le> n then [digit_char (n div 10)] else []) @ [digit_char (n mod 10)]" if "n \<le> 99" for n
    using decimal_chars [of n] that by simp
  have "numeric_value precision scale = fst (foldl put_char (zero_array 16) ?cs)"
    by (simp add: numeric_value_def Let_def put_if_foldl two assms)
  moreover have "length ?cs \<le> 16" using length_decimal [of precision 1] length_decimal [of scale 1] assms by simp
  then have "take (length ?cs) (fst (foldl put_char (zero_array 16) ?cs)) = ?cs" by (rule take_written)
  moreover have "numeric_length precision scale = length ?cs"
    using assms by (simp add: numeric_length_def digit_count_decimal)
  ultimately show ?thesis by (simp only: numeric_type_def)
qed

text \<open>The SQL type names built at compile time are exactly the text they stand for: \<open>PREFIX(N)\<close> for every
  parameter the assertion admits, and \<open>NUMERIC(P,S)\<close>; the declared length and the written characters agree.\<close>

theorem sql_type_names:
  "(n \<le> 99999 \<longrightarrow> length pre \<le> 25 \<longrightarrow> single_param_type pre n = pre @ ''('' @ decimal n @ '')'')
   \<and> (p \<le> 99 \<longrightarrow> s \<le> 99 \<longrightarrow> numeric_type p s = ''NUMERIC('' @ decimal p @ '','' @ decimal s @ '')'')"
  by (simp add: single_param_type_eq numeric_type_eq)

theorem sql_type_names_witness:
  "(255 :: nat) \<le> 99999 \<and> single_param_type ''VARCHAR'' 255 = ''VARCHAR('' @ decimal 255 @ '')''
   \<and> (20 :: nat) \<le> 99 \<and> numeric_type 20 0 = ''NUMERIC('' @ decimal 20 @ '','' @ decimal 0 @ '')''"
  using sql_type_names [of 255 "''VARCHAR''" 20 0] by simp

text \<open>\<open>timestamptz_p\<close> declares 30 characters for a text of 27, so the type name it returns ends in three
  null characters, for every precision.\<close>

theorem timestamptz_p_trailing_nulls:
  "timestamptz_p p = ''TIMESTAMP('' @ [char_of (48 + p)] @ '') WITH TIME ZONE'' @ replicate 3 CHR 0x00"
  by (simp add: timestamptz_p_def timestamptz_length_def timestamptz_value_def numeral_eq_Suc)

section \<open>Tables keep their index\<close>

lemma last_index_snoc: "last_index (ns @ [m]) = (last_index ns)(m \<mapsto> length ns)"
  by (auto simp: last_index_def fun_eq_iff)

lemma last_index_nth:
  assumes "last_index ns n = Some i"
  shows "i < length ns \<and> ns ! i = n \<and> n \<notin> set (drop (Suc i) ns)"
  using assms
proof (induction ns rule: rev_induct)
  case (snoc m ns)
  then show ?case by (auto simp: last_index_snoc nth_append split: if_splits)
qed (simp add: last_index_def)

lemma map_update_same:
  assumes "i < length xs \<Longrightarrow> h y = h (xs ! i)"
  shows "map h (xs[i := y]) = map h xs"
  using assms by (cases "i < length xs") (auto simp: map_update intro!: nth_equalityI simp: nth_list_update)

lemma field_names_update:
  assumes "\<And>f. fs_name (g f) = fs_name f"
  shows "field_names (update_field t n g) = field_names t"
  using assms by (simp add: update_field_def field_names_def map_update_same split: option.splits)

lemma index_update [simp]: "dt_index (update_field t n g) = dt_index t"
  by (simp add: update_field_def split: option.splits)

lemma table_ok_new [simp]: "table_ok (new_table name provider)"
  by (simp add: table_ok_def new_table_def field_names_def last_index_def fun_eq_iff)

lemma table_ok_add_field: "table_ok t \<Longrightarrow> table_ok (add_field t name db_type)"
  by (simp add: table_ok_def add_field_def field_names_def last_index_snoc)

lemma get_field_schema_ok:
  assumes "table_ok t"
  shows "get_field_schema t n = None \<longleftrightarrow> n \<notin> set (field_names t)"
    "get_field_schema t n = Some f \<Longrightarrow> fs_name f = n"
  using assms last_index_nth [of "field_names t" n]
  by (auto simp: get_field_schema_def table_ok_def last_index_def field_names_def split: if_splits)

text \<open>A table is built by a sequence of fluent calls.\<close>

datatype table_call =
    Call_add string string | Call_primary_key string | Call_nullable string bool
  | Call_foreign_key string string string | Call_unique string | Call_indexed string

fun apply_call :: "DynamicTable \<Rightarrow> table_call \<Rightarrow> DynamicTable" where
  "apply_call t (Call_add n ty) = add_field t n ty"
| "apply_call t (Call_primary_key n) = primary_key t n"
| "apply_call t (Call_nullable n b) = nullable t n b"
| "apply_call t (Call_foreign_key n rt rc) = foreign_key t n rt rc"
| "apply_call t (Call_unique n) = unique t n"
| "apply_call t (Call_indexed n) = indexed t n"

fun added_name :: "table_call \<Rightarrow> string option" where
  "added_name (Call_add n ty) = Some n"
| "added_name c = None"

lemmas builder_defs = primary_key_def nullable_def foreign_key_def unique_def indexed_def

lemma apply_call_names:
  "field_names (apply_call t c) = field_names t @ (case added_name c of None \<Rightarrow> [] | Some n \<Rightarrow> [n])"
  by (cases c) (simp_all add: builder_defs field_names_update, simp add: add_field_def field_names_def)

lemma apply_call_ok: "table_ok t \<Longrightarrow> table_ok (apply_call t c)"
  using table_ok_add_field [of t]
  by (cases c) (simp_all add: builder_defs table_ok_def field_names_update)

lemma apply_calls:
  "table_ok t \<Longrightarrow> table_ok (foldl apply_call t cs)
     \<and> field_names (foldl apply_call t cs) = field_names t @ List.map_filter added_name cs"
proof (induction cs arbitrary: t)
  case (Cons c cs)
  then show ?case
    using Cons.IH [OF apply_call_ok [OF Cons.prems, of c]]
    by (auto simp: apply_call_names List.map_filter_def split: option.splits)
qed (simp add: List.map_filter_def)

text \<open>C33: after any sequence of builder calls a table holds exactly the added fields in order, the modifiers
  never add, drop or rename one, and a name is found iff it was added, as a field of that name.\<close>

theorem table_builders:
  fixes name :: string and provider :: Providers and calls :: "table_call list"
  defines "t \<equiv> foldl apply_call (new_table name provider) calls"
  shows "table_ok t \<and> field_names t = List.map_filter added_name calls
    \<and> (get_field_schema t n = None \<longleftrightarrow> n \<notin> set (List.map_filter added_name calls))
    \<and> (\<forall>f. get_field_schema t n = Some f \<longrightarrow> fs_name f = n)"
proof -
  have "table_ok t" "field_names t = List.map_filter added_name calls"
    using apply_calls [OF table_ok_new, of name provider calls] unfolding t_def
    by (simp_all add: new_table_def field_names_def)
  then show ?thesis using get_field_schema_ok [of t n] by auto
qed

theorem table_builders_witness:
  "get_field_schema (foldl apply_call (new_table ''t'' PostgreSQL) [Call_add ''id'' ''INT'', Call_primary_key ''id'']) ''id''
     = Some (default_field\<lparr>fs_name := ''id'', fs_db_type := ''INT'', fs_primary_key := True, fs_nullable := False\<rparr>)
   \<and> fs_name (the (get_field_schema (foldl apply_call (new_table ''t'' PostgreSQL)
        [Call_add ''id'' ''INT'', Call_primary_key ''id'']) ''id'')) = ''id''"
proof -
  have g: "get_field_schema (foldl apply_call (new_table ''t'' PostgreSQL) [Call_add ''id'' ''INT'', Call_primary_key ''id'']) ''id''
     = Some (default_field\<lparr>fs_name := ''id'', fs_db_type := ''INT'', fs_primary_key := True, fs_nullable := False\<rparr>)"
    by (simp add: new_table_def add_field_def primary_key_def update_field_def get_field_schema_def default_field_def)
  with table_builders [of "''t''" PostgreSQL "[Call_add ''id'' ''INT'', Call_primary_key ''id'']" "''id''"]
  show ?thesis by simp
qed

section \<open>Records\<close>

definition record_ok :: "Record \<Rightarrow> bool" where
  "record_ok r \<longleftrightarrow> rc_index r = last_index (map field_name (rc_fields r))"

lemma record_loop_result:
  assumes "index = last_index (map field_name acc)"
  shows "case record_loop ss acc index of (fs, ix) \<Rightarrow>
     fs = acc @ map (\<lambda>s. \<lparr> fd_value = FV_null, fd_schema = s \<rparr>) ss
     \<and> ix = last_index (map field_name fs)"
  using assms
proof (induction ss arbitrary: acc index)
  case (Cons s ss)
  let ?f = "\<lparr> fd_value = FV_null, fd_schema = s \<rparr>"
  have "index(fs_name s \<mapsto> length acc) = last_index (map field_name (acc @ [?f]))"
    using Cons.prems by (simp add: last_index_snoc field_name_def [of ?f])
  from Cons.IH [OF this] show ?case by (simp del: fun_upd_apply)
qed simp

lemma record_set_ok:
  assumes "record_ok r" "record_set r n v = Inr r'"
  shows "record_ok r'" "map_option fd_value (get_field r' n) = Some v" "m \<noteq> n \<Longrightarrow> get_field r' m = get_field r m"
proof -
  obtain i where i: "rc_index r n = Some i"
    and r': "r' = r\<lparr>rc_fields := (rc_fields r)[i := field_set (rc_fields r ! i) v]\<rparr>"
    using assms(2) by (auto simp: record_set_def split: option.splits)
  have at: "j < length (rc_fields r)" "field_name (rc_fields r ! j) = k" if "rc_index r k = Some j" for j k
    using assms(1) last_index_nth that by (fastforce simp: record_ok_def)+
  show "record_ok r'" using assms(1) r' by (simp add: record_ok_def map_update_same field_set_def field_name_def)
  show "map_option fd_value (get_field r' n) = Some v"
    using i at [OF i] r' by (simp add: get_field_def field_set_def)
  show "get_field r' m = get_field r m" if "m \<noteq> n"
  proof -
    have "rc_index r m \<noteq> Some i" using at(2) [OF i] at(2) [of m i] that by auto
    then show ?thesis using r' by (cases "rc_index r m") (auto simp: get_field_def)
  qed
qed

text \<open>C34: a record starts with every field null, whatever default value its schema names, and assigning one
  field changes that field only: reading it gives the assigned value and every other name reads as before.\<close>

theorem record_fields:
  assumes "new_record (Some t) = Inr r0" "record_set r0 n v = Inr r1"
  shows "(\<forall>f \<in> set (rc_fields r0). field_is_null f) \<and> map fd_schema (rc_fields r0) = dt_fields t
    \<and> map_option fd_value (get_field r1 n) = Some v \<and> (\<forall>m. m \<noteq> n \<longrightarrow> get_field r1 m = get_field r0 m)"
proof -
  have fs: "rc_fields r0 = map (\<lambda>s. \<lparr> fd_value = FV_null, fd_schema = s \<rparr>) (dt_fields t)" "record_ok r0"
    using assms(1) record_loop_result [of Map.empty "[]" "dt_fields t"]
    by (auto simp: new_record_def record_ok_def last_index_def fun_eq_iff split: prod.splits)
  then show ?thesis using record_set_ok [OF fs(2) assms(2)] by (auto simp: field_is_null_def comp_def)
qed

theorem record_fields_witness:
  "let t = foldl apply_call (new_table ''t'' PostgreSQL) [Call_add ''a'' ''INT'', Call_add ''b'' ''TEXT''];
       r0 = projr (new_record (Some t)); r1 = projr (record_set r0 ''a'' (FV_bool True))
   in new_record (Some t) = Inr r0 \<and> record_set r0 ''a'' (FV_bool True) = Inr r1
      \<and> map_option fd_value (get_field r1 ''a'') = Some (FV_bool True) \<and> get_field r1 ''b'' = get_field r0 ''b''"
proof -
  let ?t = "foldl apply_call (new_table ''t'' PostgreSQL) [Call_add ''a'' ''INT'', Call_add ''b'' ''TEXT'']"
  let ?r0 = "projr (new_record (Some ?t))"
  have 1: "new_record (Some ?t) = Inr ?r0"
    by (simp add: new_table_def add_field_def new_record_def)
  have 2: "record_set ?r0 ''a'' (FV_bool True) = Inr (projr (record_set ?r0 ''a'' (FV_bool True)))"
    by (simp add: new_table_def add_field_def new_record_def default_field_def record_set_def)
  note c = record_fields [OF 1 2, THEN conjunct2, THEN conjunct2]
  show ?thesis
    unfolding Let_def
    by (intro conjI 1 2 c [THEN conjunct1] c [THEN conjunct2, THEN spec, THEN mp]) simp
qed

end
