(* ===== verification/Sql_Expr.thy ===== *)
theory Sql_Expr
  imports Sql_Schema
begin

text \<open>
  The expression trees of \<open>database-savanna/query/expressions\<close>. Every class template derived from
  \<open>Expression\<close> is a constructor of \<open>expr\<close>, with the parts its \<open>decompose\<close> hands to the visitor; the C++
  concepts that say where a node may stand are the predicates \<open>is_condition\<close>, \<open>is_db_operand\<close> and
  \<open>is_selectable\<close>. The builders that do more than name a constructor follow.
\<close>

section \<open>Nodes\<close>

datatype binary_op =
    OpEqual | OpNotEqual | OpLess | OpLessEqual | OpGreater | OpGreaterEqual
  | OpAnd | OpOr | OpLike | OpNotLike | OpIn

datatype unary_op = OpNot | OpIsNull | OpIsNotNull

fun is_postfix :: "unary_op \<Rightarrow> bool" where
  "is_postfix OpNot = False"
| "is_postfix OpIsNull = True"
| "is_postfix OpIsNotNull = True"

datatype JoinType = INNER | LEFT | RIGHT | FULL | CROSS

datatype SetOperation = UNION | UNION_ALL | INTERSECT | EXCEPT

datatype OrderDirection = ASC | DESC

text \<open>A column operand: name, table and alias, or the wildcard of a table.\<close>

datatype column_like = Column string string string | AllColumns string

text \<open>A table operand: a (possibly null) pointer to a runtime schema, a compile-time schema, or a bare name.\<close>

datatype table_ref = Dynamic "DynamicTable option" | Static StaticTable | Table_name string

record InsertExpr =
  ins_table :: table_ref
  ins_columns :: "string list"
  ins_rows :: "FieldValue list list"

record UpdateExpr =
  upd_table :: table_ref
  upd_assignments :: "(string \<times> FieldValue) list"

datatype expr =
    ColumnRef column_like
  | Literal FieldValue string
  | NullLiteral
  | ParamPlaceholder
  | BinaryExpr expr binary_op expr
  | UnaryExpr unary_op expr
  | BetweenExpr expr expr expr
  | InListExpr expr "expr list"
  | Subquery expr string
  | ExistsExpr expr
  | CountExpr column_like bool string
  | SumExpr column_like string
  | AvgExpr column_like string
  | MaxExpr column_like string
  | MinExpr column_like string
  | OrderBy column_like OrderDirection
  | SelectExpr bool "expr list"
  | FromTableExpr expr table_ref string
  | FromCteExpr expr string expr bool
  | WhereExpr expr expr
  | GroupByColumnExpr expr "expr list"
  | GroupByQueryExpr expr expr
  | HavingExpr expr expr
  | OrderByExpr expr "expr list"
  | LimitExpr expr nat nat
  | JoinExpr expr expr table_ref JoinType string
  | InsertInto InsertExpr
  | UpdateSet UpdateExpr
  | UpdateWhereExpr UpdateExpr expr
  | DeleteExpr table_ref
  | DeleteWhereExpr table_ref expr
  | SetOpExpr expr expr SetOperation
  | CaseExpr "(expr \<times> expr) list" string
  | CaseExprWithElse "(expr \<times> expr) list" expr string
  | CteExpr string expr bool
  | CreateTableExpr table_ref bool
  | DropTableExpr table_ref bool bool

fun is_condition :: "expr \<Rightarrow> bool" where
  "is_condition (BinaryExpr l op r) = True"
| "is_condition (UnaryExpr op e) = True"
| "is_condition (ExistsExpr q) = True"
| "is_condition (InListExpr e vs) = True"
| "is_condition (BetweenExpr e l u) = True"
| "is_condition e = False"

fun is_aggregate :: "expr \<Rightarrow> bool" where
  "is_aggregate (CountExpr c d a) = True"
| "is_aggregate (SumExpr c a) = True"
| "is_aggregate (AvgExpr c a) = True"
| "is_aggregate (MaxExpr c a) = True"
| "is_aggregate (MinExpr c a) = True"
| "is_aggregate e = False"

fun is_column_like :: "expr \<Rightarrow> bool" where
  "is_column_like (ColumnRef c) = True"
| "is_column_like e = False"

fun is_db_operand :: "expr \<Rightarrow> bool" where
  "is_db_operand (Literal v a) = True"
| "is_db_operand ParamPlaceholder = True"
| "is_db_operand e = (is_column_like e \<or> is_condition e \<or> is_aggregate e)"

fun is_selectable :: "expr \<Rightarrow> bool" where
  "is_selectable (Literal v a) = True"
| "is_selectable (CaseExpr ws a) = True"
| "is_selectable (CaseExprWithElse ws e a) = True"
| "is_selectable e = (is_column_like e \<or> is_aggregate e)"

section \<open>Builders\<close>

text \<open>An argument of a builder: already a node, or a raw value.\<close>

datatype operand = Node expr | Raw FieldValue

fun make_literal_if_needed :: "operand \<Rightarrow> expr" where
  "make_literal_if_needed (Node e) = e"
| "make_literal_if_needed (Raw v) = Literal v []"

text \<open>The overloaded comparison and logical operators, \<open>like\<close> and \<open>not_like\<close> differ in the operator tag only.\<close>

definition binary_operator :: "binary_op \<Rightarrow> operand \<Rightarrow> operand \<Rightarrow> expr" where
  "binary_operator op left right = BinaryExpr (make_literal_if_needed left) op (make_literal_if_needed right)"

definition operator_not :: "expr \<Rightarrow> expr" where
  "operator_not operand = UnaryExpr OpNot operand"

definition is_null :: "expr \<Rightarrow> expr" where
  "is_null operand = UnaryExpr OpIsNull operand"

definition is_not_null :: "expr \<Rightarrow> expr" where
  "is_not_null operand = UnaryExpr OpIsNotNull operand"

definition in_subquery :: "column_like \<Rightarrow> expr \<Rightarrow> expr" where
  "in_subquery c sq = BinaryExpr (ColumnRef c) OpIn sq"

definition in_list :: "expr \<Rightarrow> operand list \<Rightarrow> expr" where
  "in_list operand vals = InListExpr operand (map make_literal_if_needed vals)"

definition between :: "expr \<Rightarrow> operand \<Rightarrow> operand \<Rightarrow> expr" where
  "between operand lower upper =
     BetweenExpr operand (make_literal_if_needed lower) (make_literal_if_needed upper)"

definition select :: "operand list \<Rightarrow> expr" where
  "select columns = SelectExpr False (map make_literal_if_needed columns)"

definition select_distinct :: "operand list \<Rightarrow> expr" where
  "select_distinct columns = SelectExpr True (map make_literal_if_needed columns)"

definition select_from_schema :: "DynamicTable \<Rightarrow> expr" where
  "select_from_schema schema =
     FromTableExpr (SelectExpr False [ColumnRef (AllColumns (dt_name schema))]) (Dynamic (Some schema)) []"

definition limit :: "expr \<Rightarrow> nat \<Rightarrow> expr" where
  "limit q count = LimitExpr q count 0"

fun offset :: "expr \<Rightarrow> nat \<Rightarrow> expr" where
  "offset (LimitExpr q count off) new_offset = LimitExpr q count new_offset"
| "offset e new_offset = e"

text \<open>\<open>join(...)\<close> returns a builder that holds the parent, the table, the kind and an alias; \<open>on\<close> completes it.\<close>

record JoinBuilder =
  jb_parent :: expr
  jb_table :: table_ref
  jb_type :: JoinType
  jb_alias :: string

definition join :: "expr \<Rightarrow> table_ref \<Rightarrow> JoinType \<Rightarrow> JoinBuilder" where
  "join q table type = \<lparr> jb_parent = q, jb_table = table, jb_type = type, jb_alias = [] \<rparr>"

definition join_as :: "JoinBuilder \<Rightarrow> string \<Rightarrow> JoinBuilder" where
  "join_as b name = b\<lparr>jb_alias := name\<rparr>"

definition join_on :: "JoinBuilder \<Rightarrow> expr \<Rightarrow> expr" where
  "join_on b cond = JoinExpr (jb_parent b) cond (jb_table b) (jb_type b) (jb_alias b)"

definition case_when :: "expr \<Rightarrow> operand \<Rightarrow> expr" where
  "case_when condition v = CaseExpr [(condition, make_literal_if_needed v)] []"

text \<open>\<open>when\<close> builds a larger node from the clauses; the alias is not among what it passes on.\<close>

fun case_add_when :: "expr \<Rightarrow> expr \<Rightarrow> operand \<Rightarrow> expr" where
  "case_add_when (CaseExpr ws alias) condition v = CaseExpr (ws @ [(condition, make_literal_if_needed v)]) []"
| "case_add_when (CaseExprWithElse ws e alias) condition v =
     CaseExprWithElse (ws @ [(condition, make_literal_if_needed v)]) e []"
| "case_add_when e condition v = e"

fun else_branch :: "expr \<Rightarrow> operand \<Rightarrow> expr" where
  "else_branch (CaseExpr ws alias) v = CaseExprWithElse ws (make_literal_if_needed v) []"
| "else_branch e v = e"

text \<open>\<open>AliasableExpression::as\<close> and \<open>Literal::as\<close>.\<close>

fun as_alias :: "expr \<Rightarrow> string \<Rightarrow> expr" where
  "as_alias (Literal v alias) name = Literal v name"
| "as_alias (Subquery q alias) name = Subquery q name"
| "as_alias (CountExpr c d alias) name = CountExpr c d name"
| "as_alias (SumExpr c alias) name = SumExpr c name"
| "as_alias (AvgExpr c alias) name = AvgExpr c name"
| "as_alias (MaxExpr c alias) name = MaxExpr c name"
| "as_alias (MinExpr c alias) name = MinExpr c name"
| "as_alias (FromTableExpr q t alias) name = FromTableExpr q t name"
| "as_alias (JoinExpr q c t ty alias) name = JoinExpr q c t ty name"
| "as_alias (CaseExpr ws alias) name = CaseExpr ws name"
| "as_alias (CaseExprWithElse ws e alias) name = CaseExprWithElse ws e name"
| "as_alias e name = e"

definition union_query :: "expr \<Rightarrow> expr \<Rightarrow> expr" where
  "union_query left right = SetOpExpr left right UNION"

definition union_all :: "expr \<Rightarrow> expr \<Rightarrow> expr" where
  "union_all left right = SetOpExpr left right UNION_ALL"

definition intersect :: "expr \<Rightarrow> expr \<Rightarrow> expr" where
  "intersect left right = SetOpExpr left right INTERSECT"

definition except :: "expr \<Rightarrow> expr \<Rightarrow> expr" where
  "except left right = SetOpExpr left right EXCEPT"

section \<open>INSERT and UPDATE builders\<close>

definition insert_into :: "table_ref \<Rightarrow> InsertExpr" where
  "insert_into table = \<lparr> ins_table = table, ins_columns = [], ins_rows = [] \<rparr>"

definition into :: "InsertExpr \<Rightarrow> string list \<Rightarrow> InsertExpr" where
  "into ins cols = ins\<lparr>ins_columns := cols\<rparr>"

definition insert_values :: "InsertExpr \<Rightarrow> FieldValue list \<Rightarrow> InsertExpr" where
  "insert_values ins vals = ins\<lparr>ins_rows := ins_rows ins @ [vals]\<rparr>"

text \<open>The message of \<open>throw_missing_insert_column\<close> lists at most 32 field names.\<close>

fun defined_loop :: "Field list \<Rightarrow> nat \<Rightarrow> nat \<Rightarrow> string \<Rightarrow> string" where
  "defined_loop [] count listed acc = acc"
| "defined_loop (f # fs) count listed acc =
     (if listed = 32 then acc @ '', ... ('' @ decimal count @ '' fields total)''
      else defined_loop fs count (listed + 1)
             ((if listed \<noteq> 0 then acc @ '', '' else acc) @ field_name f))"

definition defined_fields :: "Record \<Rightarrow> string" where
  "defined_fields r =
     (let d = defined_loop (rc_fields r) (length (rc_fields r)) 0 [] in if d = [] then ''<none>'' else d)"

text \<open>The \<open>std::out_of_range\<close> it throws: row, column, schema name, defined fields.\<close>

datatype insert_error = missing_insert_column nat string string string

fun row_loop :: "Record \<Rightarrow> nat \<Rightarrow> string list \<Rightarrow> FieldValue list \<Rightarrow> (insert_error, FieldValue list) result" where
  "row_loop r row_index [] row = Inr row"
| "row_loop r row_index (c # cs) row =
     (case get_field r c of
        None \<Rightarrow> Inl (missing_insert_column row_index c (dt_name (rc_schema r)) (defined_fields r))
      | Some f \<Rightarrow> row_loop r row_index cs (row @ [fd_value f]))"

text \<open>\<open>values(record)\<close> mutates the expression; on the error path it is left as it was.\<close>

definition insert_record :: "InsertExpr \<Rightarrow> Record \<Rightarrow> InsertExpr \<times> insert_error option" where
  "insert_record ins r =
     (case row_loop r (length (ins_rows ins)) (ins_columns ins) [] of
        Inl e \<Rightarrow> (ins, Some e)
      | Inr row \<Rightarrow> (ins\<lparr>ins_rows := ins_rows ins @ [row]\<rparr>, None))"

fun insert_batch :: "InsertExpr \<Rightarrow> Record list \<Rightarrow> InsertExpr \<times> insert_error option" where
  "insert_batch ins [] = (ins, None)"
| "insert_batch ins (r # rs) =
     (case insert_record ins r of (ins', Some e) \<Rightarrow> (ins', Some e) | (ins', None) \<Rightarrow> insert_batch ins' rs)"

definition update :: "table_ref \<Rightarrow> UpdateExpr" where
  "update table = \<lparr> upd_table = table, upd_assignments = [] \<rparr>"

definition set_column :: "UpdateExpr \<Rightarrow> string \<Rightarrow> FieldValue \<Rightarrow> UpdateExpr" where
  "set_column u column v = u\<lparr>upd_assignments := upd_assignments u @ [(column, v)]\<rparr>"

definition set_columns :: "UpdateExpr \<Rightarrow> (string \<times> FieldValue) list \<Rightarrow> UpdateExpr" where
  "set_columns u assigns = foldl (\<lambda>u a. set_column u (fst a) (snd a)) u assigns"

section \<open>Rows follow the column list\<close>

lemma row_loop_ok:
  "row_loop r k cs row = Inr row' \<longleftrightarrow>
     (\<forall>c \<in> set cs. get_field r c \<noteq> None) \<and> row' = row @ map (\<lambda>c. fd_value (the (get_field r c))) cs"
  by (induction cs arbitrary: row) (auto split: option.splits)

lemma row_loop_error:
  "row_loop r k cs row = Inl e \<longleftrightarrow>
     (\<exists>c. find (\<lambda>c. get_field r c = None) cs = Some c
        \<and> e = missing_insert_column k c (dt_name (rc_schema r)) (defined_fields r))"
  by (induction cs arbitrary: row) (auto split: option.splits)

definition record_row :: "string list \<Rightarrow> Record \<Rightarrow> FieldValue list" where
  "record_row cols r = map (\<lambda>c. fd_value (the (get_field r c))) cols"

definition has_columns :: "string list \<Rightarrow> Record \<Rightarrow> bool" where
  "has_columns cols r \<longleftrightarrow> (\<forall>c \<in> set cols. get_field r c \<noteq> None)"

lemma insert_record_ok:
  assumes "has_columns (ins_columns ins) r"
  shows "insert_record ins r = (ins\<lparr>ins_rows := ins_rows ins @ [record_row (ins_columns ins) r]\<rparr>, None)"
proof -
  have "row_loop r (length (ins_rows ins)) (ins_columns ins) [] = Inr (record_row (ins_columns ins) r)"
    using assms by (simp add: row_loop_ok has_columns_def record_row_def)
  then show ?thesis by (simp add: insert_record_def)
qed

lemma insert_record_error:
  assumes "\<not> has_columns (ins_columns ins) r"
  shows "\<exists>c. find (\<lambda>c. get_field r c = None) (ins_columns ins) = Some c
     \<and> insert_record ins r = (ins, Some (missing_insert_column (length (ins_rows ins)) c
            (dt_name (rc_schema r)) (defined_fields r)))"
proof -
  obtain c where c: "find (\<lambda>c. get_field r c = None) (ins_columns ins) = Some c"
    using assms by (cases "find (\<lambda>c. get_field r c = None) (ins_columns ins)") (auto simp: has_columns_def find_None_iff)
  then have "row_loop r (length (ins_rows ins)) (ins_columns ins) [] =
      Inl (missing_insert_column (length (ins_rows ins)) c (dt_name (rc_schema r)) (defined_fields r))"
    by (simp add: row_loop_error)
  then show ?thesis using c by (simp add: insert_record_def)
qed

lemma insert_batch_prefix:
  "let good = takeWhile (has_columns (ins_columns ins)) rs in
   fst (insert_batch ins rs) = ins\<lparr>ins_rows := ins_rows ins @ map (record_row (ins_columns ins)) good\<rparr>
   \<and> (case snd (insert_batch ins rs) of None \<Rightarrow> good = rs
      | Some e \<Rightarrow> length good < length rs
          \<and> (\<exists>c. find (\<lambda>c. get_field (rs ! length good) c = None) (ins_columns ins) = Some c
               \<and> e = missing_insert_column (length (ins_rows ins) + length good) c
                       (dt_name (rc_schema (rs ! length good))) (defined_fields (rs ! length good))))"
proof (induction rs arbitrary: ins)
  case (Cons r rs)
  show ?case
  proof (cases "has_columns (ins_columns ins) r")
    case True
    then show ?thesis
      using Cons.IH [of "ins\<lparr>ins_rows := ins_rows ins @ [record_row (ins_columns ins) r]\<rparr>"] insert_record_ok [OF True]
      by (simp add: Let_def split: option.splits)
  next
    case False
    then show ?thesis using insert_record_error [OF False] by auto
  qed
qed simp

text \<open>C32: \<open>batch\<close> appends one row per record, its values in the order of the \<open>into\<close> columns, up to the first
  record whose schema lacks a column; then it stops with an error naming that row and the first missing
  column, and the rows of the records before it are kept.\<close>

theorem insert_batch_rows:
  fixes ins :: InsertExpr and rs :: "Record list"
  defines "good \<equiv> takeWhile (has_columns (ins_columns ins)) rs"
  shows "ins_rows (fst (insert_batch ins rs)) = ins_rows ins @ map (record_row (ins_columns ins)) good
   \<and> (snd (insert_batch ins rs) = None \<longleftrightarrow> good = rs)
   \<and> (\<forall>k c s d. snd (insert_batch ins rs) = Some (missing_insert_column k c s d) \<longrightarrow>
        k = length (ins_rows (fst (insert_batch ins rs)))
        \<and> find (\<lambda>c. get_field (rs ! length good) c = None) (ins_columns ins) = Some c)"
  using insert_batch_prefix [of ins rs] unfolding good_def [symmetric] Let_def
  by (auto split: option.splits)

theorem insert_batch_rows_witness:
  "let t = foldl apply_call (new_table ''t'' PostgreSQL) [Call_add ''a'' ''INT''];
       r = projr (new_record (Some t)); ins = into (insert_into (Table_name ''t'')) [''a'', ''b'']
   in snd (insert_batch ins [r]) = Some (missing_insert_column 0 ''b'' ''t'' ''a'')
      \<and> 0 = length (ins_rows (fst (insert_batch ins [r])))"
proof -
  let ?t = "foldl apply_call (new_table ''t'' PostgreSQL) [Call_add ''a'' ''INT'']"
  let ?r = "projr (new_record (Some ?t))"
  let ?ins = "into (insert_into (Table_name ''t'')) [''a'', ''b'']"
  have e: "snd (insert_batch ?ins [?r]) = Some (missing_insert_column 0 ''b'' ''t'' ''a'')"
    by (simp add: new_table_def add_field_def new_record_def default_field_def into_def insert_into_def
        insert_record_def get_field_def defined_fields_def field_name_def)
  from insert_batch_rows [of ?ins "[?r]", THEN conjunct2, THEN conjunct2, THEN spec, THEN spec, THEN spec,
      THEN spec, THEN mp, OF e]
  show ?thesis using e unfolding Let_def by blast
qed

end
