(* ===== verification/Sql_Generator.thy ===== *)
theory Sql_Generator
  imports Sql_Expr "HOL-Library.State_Monad"
begin

text \<open>
  The SQL generator of \<open>database-savanna/query/compiler\<close>: \<open>QueryVisitor\<close>, which walks an expression tree in
  one fixed order, and \<open>SqlGeneratorVisitor\<close>, whose hooks append to the SQL text. Both are programs of the
  state monad over the visitor object (\<open>sql_\<close>, \<open>param_count_\<close> and the sink), and each returns the tuple of
  parameters that the node captured.

  Every overload of \<open>visit\<close> is a definition that takes the programs of its children, so it reads as the
  C++ body does; the recursive function \<open>visit\<close> ties them together. The const and rvalue overloads of a node
  do the same calls in the same order and are one definition.
\<close>

section \<open>The visitor object\<close>

datatype ParamMode = Inline | Tuple | Sink

record generator =
  sql :: string
  param_count :: nat
  sink :: "FieldValue list"

definition new_generator :: generator where
  "new_generator = \<lparr> sql = [], param_count = 0, sink = [] \<rparr>"

type_synonym hook = "(generator, unit) state"
type_synonym visitor = "(generator, FieldValue list) state"

definition emit :: "string \<Rightarrow> hook" where
  "emit s = State (\<lambda>g. ((), g\<lparr>sql := sql g @ s\<rparr>))"

definition write_sql :: "(string \<Rightarrow> string) \<Rightarrow> hook" where
  "write_sql f = State (\<lambda>g. ((), g\<lparr>sql := f (sql g)\<rparr>))"

definition skip :: hook where
  "skip = State_Monad.return ()"

definition capture_param :: "ParamMode \<Rightarrow> FieldValue \<Rightarrow> FieldValue list" where
  "capture_param mode val = (if mode = Tuple then [val] else [])"

definition no_params :: "FieldValue list" where
  "no_params = []"

definition cat_params :: "ParamMode \<Rightarrow> FieldValue list list \<Rightarrow> FieldValue list" where
  "cat_params mode tuples = (if mode = Tuple then concat tuples else [])"

section \<open>Hooks\<close>

definition visit_alias_impl :: "sql_dialect \<Rightarrow> string \<Rightarrow> hook" where
  "visit_alias_impl d alias =
     (if alias = [] then skip
      else do { emit '' AS ''; write_sql (\<lambda>q. quote_identifier d q alias) })"

definition visit_table_name :: "sql_dialect \<Rightarrow> string \<Rightarrow> hook" where
  "visit_table_name d table_name =
     (if table_name = [] then skip else write_sql (\<lambda>q. quote_identifier d q table_name))"

fun visit_table_impl :: "sql_dialect \<Rightarrow> table_ref \<Rightarrow> hook" where
  "visit_table_impl d (Dynamic None) = skip"
| "visit_table_impl d (Dynamic (Some t)) = write_sql (\<lambda>q. quote_identifier d q (dt_name t))"
| "visit_table_impl d (Static t) = visit_table_name d (st_name t)"
| "visit_table_impl d (Table_name n) = visit_table_name d n"

definition visit_column_impl :: "sql_dialect \<Rightarrow> string \<Rightarrow> string \<Rightarrow> string \<Rightarrow> hook" where
  "visit_column_impl d name table alias =
     do {
       (if table \<noteq> [] then do { visit_table_name d table; emit ''.'' } else skip);
       write_sql (\<lambda>q. quote_identifier d q name);
       visit_alias_impl d alias
     }"

text \<open>\<open>ParamSink::push\<close> stores the value and returns its 1-based index.\<close>

definition push :: "FieldValue \<Rightarrow> (generator, nat) state" where
  "push v = State (\<lambda>g. (length (sink g) + 1, g\<lparr>sink := sink g @ [v]\<rparr>))"

definition next_param :: "(generator, nat) state" where
  "next_param = State (\<lambda>g. (param_count g + 1, g\<lparr>param_count := param_count g + 1\<rparr>))"

definition visit_value_impl :: "sql_dialect \<Rightarrow> ParamMode \<Rightarrow> FieldValue \<Rightarrow> hook" where
  "visit_value_impl d mode v =
     (case mode of
        Inline \<Rightarrow> write_sql (\<lambda>q. format_value d q v)
      | Tuple \<Rightarrow> do { n \<leftarrow> next_param; write_sql (\<lambda>q. placeholder d q n) }
      | Sink \<Rightarrow> do { idx \<leftarrow> push v; write_sql (\<lambda>q. placeholder d q idx) })"

definition visit_null_impl :: hook where
  "visit_null_impl = emit ''NULL''"

definition visit_param_placeholder_impl :: "sql_dialect \<Rightarrow> hook" where
  "visit_param_placeholder_impl d = do { n \<leftarrow> next_param; write_sql (\<lambda>q. placeholder d q n) }"

definition visit_all_columns_impl :: "sql_dialect \<Rightarrow> string \<Rightarrow> hook" where
  "visit_all_columns_impl d table =
     do {
       (if table \<noteq> [] then do { visit_table_name d table; emit ''.'' } else skip);
       emit ''*''
     }"

definition visit_binary_expr_start :: hook where
  "visit_binary_expr_start = emit ''(''"

definition visit_binary_expr_end :: hook where
  "visit_binary_expr_end = emit '')''"

definition visit_subquery_start :: hook where
  "visit_subquery_start = emit ''(''"

definition visit_subquery_end :: hook where
  "visit_subquery_end = emit '')''"

definition visit_exists_start :: hook where
  "visit_exists_start = emit ''EXISTS (''"

definition visit_exists_end :: hook where
  "visit_exists_end = emit '')''"

fun visit_binary_op_impl :: "binary_op \<Rightarrow> hook" where
  "visit_binary_op_impl OpEqual = emit '' = ''"
| "visit_binary_op_impl OpNotEqual = emit '' != ''"
| "visit_binary_op_impl OpLess = emit '' < ''"
| "visit_binary_op_impl OpLessEqual = emit '' <= ''"
| "visit_binary_op_impl OpGreater = emit '' > ''"
| "visit_binary_op_impl OpGreaterEqual = emit '' >= ''"
| "visit_binary_op_impl OpAnd = emit '' AND ''"
| "visit_binary_op_impl OpOr = emit '' OR ''"
| "visit_binary_op_impl OpLike = emit '' LIKE ''"
| "visit_binary_op_impl OpNotLike = emit '' NOT LIKE ''"
| "visit_binary_op_impl OpIn = emit '' IN ''"

fun visit_unary_op_impl :: "unary_op \<Rightarrow> hook" where
  "visit_unary_op_impl OpNot = emit ''NOT ''"
| "visit_unary_op_impl OpIsNull = emit '' IS NULL''"
| "visit_unary_op_impl OpIsNotNull = emit '' IS NOT NULL''"

definition visit_between_impl :: hook where
  "visit_between_impl = emit '' BETWEEN ''"

definition visit_and_impl :: hook where
  "visit_and_impl = emit '' AND ''"

definition visit_in_list_start :: hook where
  "visit_in_list_start = emit '' IN (''"

definition visit_in_list_end :: hook where
  "visit_in_list_end = emit '')''"

definition visit_count_impl :: "bool \<Rightarrow> hook" where
  "visit_count_impl dist = do { emit ''COUNT(''; if dist then emit ''DISTINCT '' else skip }"

definition visit_sum_impl :: hook where
  "visit_sum_impl = emit ''SUM(''"

definition visit_avg_impl :: hook where
  "visit_avg_impl = emit ''AVG(''"

definition visit_max_impl :: hook where
  "visit_max_impl = emit ''MAX(''"

definition visit_min_impl :: hook where
  "visit_min_impl = emit ''MIN(''"

definition visit_aggregate_end :: "sql_dialect \<Rightarrow> string \<Rightarrow> hook" where
  "visit_aggregate_end d alias = do { emit '')''; visit_alias_impl d alias }"

definition visit_select_start :: "bool \<Rightarrow> hook" where
  "visit_select_start dist = do { emit ''SELECT ''; if dist then emit ''DISTINCT '' else skip }"

definition visit_from_start :: hook where
  "visit_from_start = emit '' FROM ''"

definition visit_where_start :: hook where
  "visit_where_start = emit '' WHERE ''"

definition visit_group_by_start :: hook where
  "visit_group_by_start = emit '' GROUP BY ''"

definition visit_having_start :: hook where
  "visit_having_start = emit '' HAVING ''"

definition visit_order_by_start :: hook where
  "visit_order_by_start = emit '' ORDER BY ''"

fun visit_order_direction_impl :: "OrderDirection \<Rightarrow> hook" where
  "visit_order_direction_impl ASC = emit '' ASC''"
| "visit_order_direction_impl DESC = emit '' DESC''"

definition visit_limit_impl :: "sql_dialect \<Rightarrow> nat \<Rightarrow> nat \<Rightarrow> hook" where
  "visit_limit_impl d count off = write_sql (\<lambda>q. limit_clause d q count off)"

fun visit_join_start :: "JoinType \<Rightarrow> hook" where
  "visit_join_start INNER = emit '' INNER JOIN ''"
| "visit_join_start LEFT = emit '' LEFT JOIN ''"
| "visit_join_start RIGHT = emit '' RIGHT JOIN ''"
| "visit_join_start FULL = emit '' FULL OUTER JOIN ''"
| "visit_join_start CROSS = emit '' CROSS JOIN ''"

definition visit_join_on :: hook where
  "visit_join_on = emit '' ON ''"

definition visit_insert_start :: hook where
  "visit_insert_start = emit ''INSERT INTO ''"

text \<open>\<open>separated first ps\<close> runs the programs in order with ", " before each one but the first: the
  \<open>if (!first) sql_ += ", "; first = false;\<close> of the list loops.\<close>

fun separated :: "bool \<Rightarrow> hook list \<Rightarrow> hook" where
  "separated first [] = skip"
| "separated first (p # ps) =
     do { (if first then skip else emit '', ''); p; separated False ps }"

definition visit_insert_columns :: "sql_dialect \<Rightarrow> string list \<Rightarrow> hook" where
  "visit_insert_columns d columns =
     do {
       emit '' ('';
       separated True (map (\<lambda>c. write_sql (\<lambda>q. quote_identifier d q c)) columns);
       emit '') VALUES ''
     }"

definition visit_insert_row :: "sql_dialect \<Rightarrow> ParamMode \<Rightarrow> FieldValue list \<Rightarrow> hook" where
  "visit_insert_row d mode row =
     do { emit ''(''; separated True (map (visit_value_impl d mode) row); emit '')'' }"

definition visit_insert_values :: "sql_dialect \<Rightarrow> ParamMode \<Rightarrow> FieldValue list list \<Rightarrow> hook" where
  "visit_insert_values d mode rows = separated True (map (visit_insert_row d mode) rows)"

definition visit_update_start :: hook where
  "visit_update_start = emit ''UPDATE ''"

definition visit_assignment :: "sql_dialect \<Rightarrow> ParamMode \<Rightarrow> string \<times> FieldValue \<Rightarrow> hook" where
  "visit_assignment d mode a =
     do { write_sql (\<lambda>q. quote_identifier d q (fst a)); emit '' = ''; visit_value_impl d mode (snd a) }"

definition visit_update_set :: "sql_dialect \<Rightarrow> ParamMode \<Rightarrow> (string \<times> FieldValue) list \<Rightarrow> hook" where
  "visit_update_set d mode assignments =
     do { emit '' SET ''; separated True (map (visit_assignment d mode) assignments) }"

definition visit_delete_start :: hook where
  "visit_delete_start = emit ''DELETE FROM ''"

definition visit_case_start :: hook where
  "visit_case_start = emit ''CASE''"

definition visit_case_end :: hook where
  "visit_case_end = emit '' END''"

definition visit_when_start :: hook where
  "visit_when_start = emit '' WHEN ''"

definition visit_when_then :: hook where
  "visit_when_then = emit '' THEN ''"

definition visit_else_start :: hook where
  "visit_else_start = emit '' ELSE ''"

fun visit_set_op_impl :: "SetOperation \<Rightarrow> hook" where
  "visit_set_op_impl UNION = emit '' UNION ''"
| "visit_set_op_impl UNION_ALL = emit '' UNION ALL ''"
| "visit_set_op_impl INTERSECT = emit '' INTERSECT ''"
| "visit_set_op_impl EXCEPT = emit '' EXCEPT ''"

definition visit_cte_start :: "bool \<Rightarrow> hook" where
  "visit_cte_start recursive = do { emit ''WITH ''; if recursive then emit ''RECURSIVE '' else skip }"

definition visit_cte_name_impl :: "sql_dialect \<Rightarrow> string \<Rightarrow> hook" where
  "visit_cte_name_impl d name = write_sql (\<lambda>q. quote_identifier d q name)"

definition visit_cte_as_start :: hook where
  "visit_cte_as_start = emit '' AS (''"

definition visit_cte_as_end :: hook where
  "visit_cte_as_end = emit '')''"

definition visit_cte_end :: hook where
  "visit_cte_end = emit '' ''"

definition visit_create_table_start :: "bool \<Rightarrow> hook" where
  "visit_create_table_start if_not_exists =
     do { emit ''CREATE TABLE ''; if if_not_exists then emit ''IF NOT EXISTS '' else skip }"

definition visit_dynamic_field :: "sql_dialect \<Rightarrow> DynamicFieldSchema \<Rightarrow> hook" where
  "visit_dynamic_field d f =
     do {
       write_sql (\<lambda>q. quote_identifier d q (fs_name f));
       emit '' '';
       emit (fs_db_type f);
       (if fs_primary_key f then emit '' PRIMARY KEY'' else skip);
       (if \<not> fs_nullable f \<and> \<not> fs_primary_key f then emit '' NOT NULL'' else skip);
       (if fs_unique f \<and> \<not> fs_primary_key f then emit '' UNIQUE'' else skip);
       (if fs_default_value f \<noteq> [] then do { emit '' DEFAULT ''; emit (fs_default_value f) } else skip);
       (if fs_foreign_key f \<and> fs_foreign_table f \<noteq> []
        then do {
          emit '' REFERENCES '';
          write_sql (\<lambda>q. quote_identifier d q (fs_foreign_table f));
          emit ''('';
          write_sql (\<lambda>q. quote_identifier d q (fs_foreign_column f));
          emit '')''
        }
        else skip)
     }"

definition visit_static_field :: "sql_dialect \<Rightarrow> StaticFieldSchema \<Rightarrow> hook" where
  "visit_static_field d s =
     do {
       write_sql (\<lambda>q. quote_identifier d q (ss_name s));
       emit '' '';
       emit (sql_type_for (ss_type s));
       (if ss_primary_key s then emit '' PRIMARY KEY'' else skip);
       (if \<not> ss_nullable s \<and> \<not> ss_primary_key s then emit '' NOT NULL'' else skip);
       (if ss_unique s \<and> \<not> ss_primary_key s then emit '' UNIQUE'' else skip)
     }"

text \<open>Only the two schema-carrying kinds of table have this hook; a bare name is no operand of \<open>create_table\<close>.\<close>

fun visit_create_table_columns :: "sql_dialect \<Rightarrow> table_ref \<Rightarrow> hook" where
  "visit_create_table_columns d (Dynamic None) = skip"
| "visit_create_table_columns d (Dynamic (Some t)) =
     do { emit '' (''; separated True (map (visit_dynamic_field d) (dt_fields t)); emit '')'' }"
| "visit_create_table_columns d (Static t) =
     do { emit '' (''; separated True (map (visit_static_field d) (st_fields t)); emit '')'' }"
| "visit_create_table_columns d (Table_name n) = skip"

definition visit_drop_table_start :: "bool \<Rightarrow> hook" where
  "visit_drop_table_start if_exists =
     do { emit ''DROP TABLE ''; if if_exists then emit ''IF EXISTS '' else skip }"

definition visit_drop_table_end :: "bool \<Rightarrow> hook" where
  "visit_drop_table_end cascade = (if cascade then emit '' CASCADE'' else skip)"

definition visit_column_separator :: hook where
  "visit_column_separator = emit '', ''"

section \<open>The nodes\<close>

text \<open>Hooks that only call \<open>force_non_static\<close> (\<open>visit_select_end\<close> and its kin, and the unary start and end)
  append nothing and are left out of the bodies below.\<close>

fun visit_column :: "sql_dialect \<Rightarrow> column_like \<Rightarrow> visitor" where
  "visit_column d (Column name table alias) =
     do { visit_column_impl d name table alias; State_Monad.return no_params }"
| "visit_column d (AllColumns table) =
     do { visit_all_columns_impl d table; State_Monad.return no_params }"

definition visit_Literal :: "sql_dialect \<Rightarrow> ParamMode \<Rightarrow> FieldValue \<Rightarrow> string \<Rightarrow> visitor" where
  "visit_Literal d mode v alias =
     do {
       visit_value_impl d mode v;
       visit_alias_impl d alias;
       State_Monad.return (capture_param mode v)
     }"

definition visit_NullLiteral :: visitor where
  "visit_NullLiteral = do { visit_null_impl; State_Monad.return no_params }"

definition visit_ParamPlaceholder :: "sql_dialect \<Rightarrow> visitor" where
  "visit_ParamPlaceholder d = do { visit_param_placeholder_impl d; State_Monad.return no_params }"

definition visit_BinaryExpr :: "ParamMode \<Rightarrow> visitor \<Rightarrow> binary_op \<Rightarrow> visitor \<Rightarrow> visitor" where
  "visit_BinaryExpr mode left op right =
     do {
       visit_binary_expr_start;
       lp \<leftarrow> left;
       visit_binary_op_impl op;
       rp \<leftarrow> right;
       visit_binary_expr_end;
       State_Monad.return (cat_params mode [lp, rp])
     }"

definition visit_UnaryExpr :: "unary_op \<Rightarrow> visitor \<Rightarrow> visitor" where
  "visit_UnaryExpr op operand =
     (if is_postfix op
      then do { p \<leftarrow> operand; visit_unary_op_impl op; State_Monad.return p }
      else do { visit_unary_op_impl op; p \<leftarrow> operand; State_Monad.return p })"

definition visit_BetweenExpr :: "ParamMode \<Rightarrow> visitor \<Rightarrow> visitor \<Rightarrow> visitor \<Rightarrow> visitor" where
  "visit_BetweenExpr mode operand lower upper =
     do {
       p \<leftarrow> operand;
       visit_between_impl;
       lp \<leftarrow> lower;
       visit_and_impl;
       up \<leftarrow> upper;
       State_Monad.return (cat_params mode [p, lp, up])
     }"

definition visit_InListExpr :: "ParamMode \<Rightarrow> visitor \<Rightarrow> visitor \<Rightarrow> visitor" where
  "visit_InListExpr mode operand vals =
     do {
       p \<leftarrow> operand;
       visit_in_list_start;
       vp \<leftarrow> vals;
       visit_in_list_end;
       State_Monad.return (cat_params mode [p, vp])
     }"

definition visit_Subquery :: "sql_dialect \<Rightarrow> visitor \<Rightarrow> string \<Rightarrow> visitor" where
  "visit_Subquery d query alias =
     do {
       visit_subquery_start;
       qp \<leftarrow> query;
       visit_subquery_end;
       visit_alias_impl d alias;
       State_Monad.return qp
     }"

definition visit_ExistsExpr :: "visitor \<Rightarrow> visitor" where
  "visit_ExistsExpr query =
     do { visit_exists_start; qp \<leftarrow> query; visit_exists_end; State_Monad.return qp }"

definition visit_CountExpr :: "sql_dialect \<Rightarrow> column_like \<Rightarrow> bool \<Rightarrow> string \<Rightarrow> visitor" where
  "visit_CountExpr d c dist alias =
     do {
       visit_count_impl dist;
       (case c of AllColumns table \<Rightarrow> visit_all_columns_impl d []
        | Column name table a \<Rightarrow> do { visit_column d c; skip });
       visit_aggregate_end d alias;
       State_Monad.return no_params
     }"

text \<open>\<open>SumExpr\<close>, \<open>AvgExpr\<close>, \<open>MaxExpr\<close> and \<open>MinExpr\<close> differ in the opening hook only.\<close>

definition visit_Aggregate :: "sql_dialect \<Rightarrow> hook \<Rightarrow> column_like \<Rightarrow> string \<Rightarrow> visitor" where
  "visit_Aggregate d start c alias =
     do { start; visit_column d c; visit_aggregate_end d alias; State_Monad.return no_params }"

definition visit_OrderBy :: "sql_dialect \<Rightarrow> column_like \<Rightarrow> OrderDirection \<Rightarrow> visitor" where
  "visit_OrderBy d c dir =
     do { visit_column d c; visit_order_direction_impl dir; State_Monad.return no_params }"

definition visit_SelectExpr :: "bool \<Rightarrow> visitor \<Rightarrow> visitor" where
  "visit_SelectExpr dist columns = do { visit_select_start dist; cp \<leftarrow> columns; State_Monad.return cp }"

definition visit_FromTableExpr :: "sql_dialect \<Rightarrow> visitor \<Rightarrow> table_ref \<Rightarrow> string \<Rightarrow> visitor" where
  "visit_FromTableExpr d query table alias =
     do {
       sp \<leftarrow> query;
       visit_from_start;
       visit_table_impl d table;
       visit_alias_impl d alias;
       State_Monad.return sp
     }"

definition visit_CteExpr :: "sql_dialect \<Rightarrow> string \<Rightarrow> visitor \<Rightarrow> bool \<Rightarrow> visitor" where
  "visit_CteExpr d name query recursive =
     do {
       visit_cte_start recursive;
       visit_cte_name_impl d name;
       visit_cte_as_start;
       qp \<leftarrow> query;
       visit_cte_as_end;
       visit_cte_end;
       State_Monad.return qp
     }"

definition visit_FromCteExpr :: "sql_dialect \<Rightarrow> ParamMode \<Rightarrow> visitor \<Rightarrow> string \<Rightarrow> visitor \<Rightarrow> visitor" where
  "visit_FromCteExpr d mode query cte_name cte =
     do {
       cp \<leftarrow> cte;
       sp \<leftarrow> query;
       visit_from_start;
       visit_table_name d cte_name;
       State_Monad.return (cat_params mode [cp, sp])
     }"

definition visit_WhereExpr :: "ParamMode \<Rightarrow> visitor \<Rightarrow> visitor \<Rightarrow> visitor" where
  "visit_WhereExpr mode query condition =
     do {
       qp \<leftarrow> query;
       visit_where_start;
       cp \<leftarrow> condition;
       State_Monad.return (cat_params mode [qp, cp])
     }"

definition visit_GroupByColumnExpr :: "ParamMode \<Rightarrow> visitor \<Rightarrow> visitor \<Rightarrow> visitor" where
  "visit_GroupByColumnExpr mode query columns =
     do {
       qp \<leftarrow> query;
       visit_group_by_start;
       cp \<leftarrow> columns;
       State_Monad.return (cat_params mode [qp, cp])
     }"

definition visit_GroupByQueryExpr :: "ParamMode \<Rightarrow> visitor \<Rightarrow> visitor \<Rightarrow> visitor" where
  "visit_GroupByQueryExpr mode query criteria =
     do {
       qp \<leftarrow> query;
       visit_group_by_start;
       cp \<leftarrow> criteria;
       State_Monad.return (cat_params mode [qp, cp])
     }"

definition visit_HavingExpr :: "ParamMode \<Rightarrow> visitor \<Rightarrow> visitor \<Rightarrow> visitor" where
  "visit_HavingExpr mode query condition =
     do {
       qp \<leftarrow> query;
       visit_having_start;
       cp \<leftarrow> condition;
       State_Monad.return (cat_params mode [qp, cp])
     }"

definition visit_OrderByExpr :: "ParamMode \<Rightarrow> visitor \<Rightarrow> visitor \<Rightarrow> visitor" where
  "visit_OrderByExpr mode query orders =
     do {
       qp \<leftarrow> query;
       visit_order_by_start;
       op \<leftarrow> orders;
       State_Monad.return (cat_params mode [qp, op])
     }"

definition visit_LimitExpr :: "sql_dialect \<Rightarrow> visitor \<Rightarrow> nat \<Rightarrow> nat \<Rightarrow> visitor" where
  "visit_LimitExpr d query count off =
     do { qp \<leftarrow> query; visit_limit_impl d count off; State_Monad.return qp }"

definition visit_JoinExpr ::
  "sql_dialect \<Rightarrow> ParamMode \<Rightarrow> visitor \<Rightarrow> visitor \<Rightarrow> table_ref \<Rightarrow> JoinType \<Rightarrow> string \<Rightarrow> visitor" where
  "visit_JoinExpr d mode query on_condition table type alias =
     do {
       qp \<leftarrow> query;
       visit_join_start type;
       visit_table_impl d table;
       visit_alias_impl d alias;
       visit_join_on;
       cp \<leftarrow> on_condition;
       State_Monad.return (cat_params mode [qp, cp])
     }"

definition visit_InsertExpr :: "sql_dialect \<Rightarrow> ParamMode \<Rightarrow> InsertExpr \<Rightarrow> visitor" where
  "visit_InsertExpr d mode e =
     do {
       visit_insert_start;
       visit_table_impl d (ins_table e);
       visit_insert_columns d (ins_columns e);
       visit_insert_values d mode (ins_rows e);
       State_Monad.return no_params
     }"

definition visit_UpdateExpr :: "sql_dialect \<Rightarrow> ParamMode \<Rightarrow> UpdateExpr \<Rightarrow> visitor" where
  "visit_UpdateExpr d mode e =
     do {
       visit_update_start;
       visit_table_impl d (upd_table e);
       visit_update_set d mode (upd_assignments e);
       State_Monad.return no_params
     }"

definition visit_UpdateWhereExpr :: "ParamMode \<Rightarrow> visitor \<Rightarrow> visitor \<Rightarrow> visitor" where
  "visit_UpdateWhereExpr mode upd condition =
     do {
       up \<leftarrow> upd;
       visit_where_start;
       cp \<leftarrow> condition;
       State_Monad.return (cat_params mode [up, cp])
     }"

definition visit_DeleteExpr :: "sql_dialect \<Rightarrow> table_ref \<Rightarrow> visitor" where
  "visit_DeleteExpr d table =
     do { visit_delete_start; visit_table_impl d table; State_Monad.return no_params }"

definition visit_DeleteWhereExpr :: "ParamMode \<Rightarrow> visitor \<Rightarrow> visitor \<Rightarrow> visitor" where
  "visit_DeleteWhereExpr mode del condition =
     do {
       dp \<leftarrow> del;
       visit_where_start;
       cp \<leftarrow> condition;
       State_Monad.return (cat_params mode [dp, cp])
     }"

definition visit_SetOpExpr :: "ParamMode \<Rightarrow> visitor \<Rightarrow> visitor \<Rightarrow> SetOperation \<Rightarrow> visitor" where
  "visit_SetOpExpr mode left right op =
     do {
       lp \<leftarrow> left;
       visit_set_op_impl op;
       rp \<leftarrow> right;
       State_Monad.return (cat_params mode [lp, rp])
     }"

definition visit_single_when :: "ParamMode \<Rightarrow> visitor \<Rightarrow> visitor \<Rightarrow> visitor" where
  "visit_single_when mode cond val =
     do {
       visit_when_start;
       cp \<leftarrow> cond;
       visit_when_then;
       vp \<leftarrow> val;
       State_Monad.return (cat_params mode [cp, vp])
     }"

fun visit_when_clauses :: "ParamMode \<Rightarrow> visitor list \<Rightarrow> visitor" where
  "visit_when_clauses mode [] = State_Monad.return no_params"
| "visit_when_clauses mode (w # ws) =
     do {
       head \<leftarrow> w;
       rest \<leftarrow> visit_when_clauses mode ws;
       State_Monad.return (cat_params mode [head, rest])
     }"

definition visit_tuple_element :: "visitor \<Rightarrow> bool \<Rightarrow> visitor" where
  "visit_tuple_element elem is_first = do { (if is_first then skip else visit_column_separator); elem }"

fun visit_tuple_elements :: "ParamMode \<Rightarrow> nat \<Rightarrow> visitor list \<Rightarrow> visitor" where
  "visit_tuple_elements mode k [] = State_Monad.return no_params"
| "visit_tuple_elements mode k (t # ts) =
     do {
       head \<leftarrow> visit_tuple_element t (k = 0);
       rest \<leftarrow> visit_tuple_elements mode (k + 1) ts;
       State_Monad.return (cat_params mode [head, rest])
     }"

definition visit_CaseExpr :: "sql_dialect \<Rightarrow> visitor \<Rightarrow> string \<Rightarrow> visitor" where
  "visit_CaseExpr d whens alias =
     do {
       visit_case_start;
       wp \<leftarrow> whens;
       visit_case_end;
       visit_alias_impl d alias;
       State_Monad.return wp
     }"

definition visit_CaseExprWithElse :: "sql_dialect \<Rightarrow> ParamMode \<Rightarrow> visitor \<Rightarrow> visitor \<Rightarrow> string \<Rightarrow> visitor" where
  "visit_CaseExprWithElse d mode whens else_clause alias =
     do {
       visit_case_start;
       wp \<leftarrow> whens;
       visit_else_start;
       ep \<leftarrow> else_clause;
       visit_case_end;
       visit_alias_impl d alias;
       State_Monad.return (cat_params mode [wp, ep])
     }"

definition visit_CreateTableExpr :: "sql_dialect \<Rightarrow> table_ref \<Rightarrow> bool \<Rightarrow> visitor" where
  "visit_CreateTableExpr d table if_not_exists =
     do {
       visit_create_table_start if_not_exists;
       visit_table_impl d table;
       visit_create_table_columns d table;
       State_Monad.return no_params
     }"

definition visit_DropTableExpr :: "sql_dialect \<Rightarrow> table_ref \<Rightarrow> bool \<Rightarrow> bool \<Rightarrow> visitor" where
  "visit_DropTableExpr d table if_exists cascade =
     do {
       visit_drop_table_start if_exists;
       visit_table_impl d table;
       visit_drop_table_end cascade;
       State_Monad.return no_params
     }"

text \<open>\<open>accept\<close> sends a node to the overload of \<open>visit\<close> for its class (detail/query_visitor.inl).\<close>

fun visit :: "sql_dialect \<Rightarrow> ParamMode \<Rightarrow> expr \<Rightarrow> visitor" where
  "visit d m (ColumnRef c) = visit_column d c"
| "visit d m (Literal v alias) = visit_Literal d m v alias"
| "visit d m NullLiteral = visit_NullLiteral"
| "visit d m ParamPlaceholder = visit_ParamPlaceholder d"
| "visit d m (BinaryExpr l op r) = visit_BinaryExpr m (visit d m l) op (visit d m r)"
| "visit d m (UnaryExpr op e) = visit_UnaryExpr op (visit d m e)"
| "visit d m (BetweenExpr e l u) = visit_BetweenExpr m (visit d m e) (visit d m l) (visit d m u)"
| "visit d m (InListExpr e vs) =
     visit_InListExpr m (visit d m e) (visit_tuple_elements m 0 (map (visit d m) vs))"
| "visit d m (Subquery q alias) = visit_Subquery d (visit d m q) alias"
| "visit d m (ExistsExpr q) = visit_ExistsExpr (visit d m q)"
| "visit d m (CountExpr c dist alias) = visit_CountExpr d c dist alias"
| "visit d m (SumExpr c alias) = visit_Aggregate d visit_sum_impl c alias"
| "visit d m (AvgExpr c alias) = visit_Aggregate d visit_avg_impl c alias"
| "visit d m (MaxExpr c alias) = visit_Aggregate d visit_max_impl c alias"
| "visit d m (MinExpr c alias) = visit_Aggregate d visit_min_impl c alias"
| "visit d m (OrderBy c dir) = visit_OrderBy d c dir"
| "visit d m (SelectExpr dist cs) = visit_SelectExpr dist (visit_tuple_elements m 0 (map (visit d m) cs))"
| "visit d m (FromTableExpr q table alias) = visit_FromTableExpr d (visit d m q) table alias"
| "visit d m (FromCteExpr q name cq recursive) =
     visit_FromCteExpr d m (visit d m q) name (visit_CteExpr d name (visit d m cq) recursive)"
| "visit d m (WhereExpr q c) = visit_WhereExpr m (visit d m q) (visit d m c)"
| "visit d m (GroupByColumnExpr q cs) =
     visit_GroupByColumnExpr m (visit d m q) (visit_tuple_elements m 0 (map (visit d m) cs))"
| "visit d m (GroupByQueryExpr q c) = visit_GroupByQueryExpr m (visit d m q) (visit d m c)"
| "visit d m (HavingExpr q c) = visit_HavingExpr m (visit d m q) (visit d m c)"
| "visit d m (OrderByExpr q os) =
     visit_OrderByExpr m (visit d m q) (visit_tuple_elements m 0 (map (visit d m) os))"
| "visit d m (LimitExpr q count off) = visit_LimitExpr d (visit d m q) count off"
| "visit d m (JoinExpr q c table type alias) =
     visit_JoinExpr d m (visit d m q) (visit d m c) table type alias"
| "visit d m (InsertInto i) = visit_InsertExpr d m i"
| "visit d m (UpdateSet u) = visit_UpdateExpr d m u"
| "visit d m (UpdateWhereExpr u c) = visit_UpdateWhereExpr m (visit_UpdateExpr d m u) (visit d m c)"
| "visit d m (DeleteExpr table) = visit_DeleteExpr d table"
| "visit d m (DeleteWhereExpr table c) = visit_DeleteWhereExpr m (visit_DeleteExpr d table) (visit d m c)"
| "visit d m (SetOpExpr l r op) = visit_SetOpExpr m (visit d m l) (visit d m r) op"
| "visit d m (CaseExpr ws alias) =
     visit_CaseExpr d (visit_when_clauses m (map (\<lambda>w. visit_single_when m (visit d m (fst w)) (visit d m (snd w))) ws)) alias"
| "visit d m (CaseExprWithElse ws e alias) =
     visit_CaseExprWithElse d m
       (visit_when_clauses m (map (\<lambda>w. visit_single_when m (visit d m (fst w)) (visit d m (snd w))) ws)) (visit d m e) alias"
| "visit d m (CteExpr name q recursive) = visit_CteExpr d name (visit d m q) recursive"
| "visit d m (CreateTableExpr table ine) = visit_CreateTableExpr d table ine"
| "visit d m (DropTableExpr table ie cascade) = visit_DropTableExpr d table ie cascade"

section \<open>The compiler\<close>

text \<open>\<open>compile_static\<close> writes into an \<open>InlineString\<close> of capacity \<open>MaxLen\<close>, whose appends fail once the text
  would pass the capacity; the text only grows, so that happens exactly when the whole text is too long.\<close>

definition compile_static ::
  "sql_dialect \<Rightarrow> ParamMode \<Rightarrow> nat \<Rightarrow> expr \<Rightarrow> (append_error, string \<times> FieldValue list) result" where
  "compile_static d mode max_len e =
     (case run_state (visit d mode e) new_generator of (params, g) \<Rightarrow>
        if max_len < length (sql g) then Inl out_of_range else Inr (sql g, params))"

text \<open>\<open>compile_dynamic\<close> returns the text and, in Sink mode, the packet behind the sink.\<close>

definition compile_dynamic :: "sql_dialect \<Rightarrow> ParamMode \<Rightarrow> expr \<Rightarrow> string \<times> FieldValue list option" where
  "compile_dynamic d mode e =
     (case run_state (visit d mode e) new_generator of (params, g) \<Rightarrow>
        if mode = Inline then (sql g, None) else (sql g, Some (sink g)))"

definition static_default :: "ParamMode \<Rightarrow> ParamMode" where
  "static_default mode = (if mode = Sink then Tuple else mode)"

definition runtime_default :: "ParamMode \<Rightarrow> ParamMode" where
  "runtime_default mode = (if mode = Tuple then Sink else mode)"

end
