(* ===== verification/Sql_Compile.thy ===== *)
theory Sql_Compile
  imports Sql_Generator
begin

text \<open>
  What the SQL generator promises. The specification of an expression is its \<open>template\<close>: the fixed text,
  the identifiers and the values it is made of, in order, with no mention of a dialect, a parameter mode or
  a state. The refinement lemma \<open>visit_template\<close> says that the visitor writes exactly the template and
  captures exactly its literals; the properties of the three parameter modes, of quoting and of
  the compile-time capacity follow from it.
\<close>

section \<open>Templates\<close>

text \<open>\<open>FLit\<close> is a literal of the tree, \<open>FBind\<close> a value of an INSERT row or an UPDATE assignment,
  \<open>FParam\<close> an explicit placeholder.\<close>

datatype frag = FText string | FIdent string | FLit FieldValue | FBind FieldValue | FParam | FLimit nat nat

definition t_alias :: "string \<Rightarrow> frag list" where
  "t_alias alias = (if alias = [] then [] else [FText '' AS '', FIdent alias])"

definition t_name :: "string \<Rightarrow> frag list" where
  "t_name n = (if n = [] then [] else [FIdent n])"

fun t_table :: "table_ref \<Rightarrow> frag list" where
  "t_table (Dynamic None) = []"
| "t_table (Dynamic (Some t)) = [FIdent (dt_name t)]"
| "t_table (Static t) = t_name (st_name t)"
| "t_table (Table_name n) = t_name n"

definition t_qualifier :: "string \<Rightarrow> frag list" where
  "t_qualifier table = (if table = [] then [] else [FIdent table, FText ''.''])"

fun t_column :: "column_like \<Rightarrow> frag list" where
  "t_column (Column name table alias) = t_qualifier table @ [FIdent name] @ t_alias alias"
| "t_column (AllColumns table) = t_qualifier table @ [FText ''*'']"

fun t_counted :: "column_like \<Rightarrow> frag list" where
  "t_counted (Column name table alias) = t_column (Column name table alias)"
| "t_counted (AllColumns table) = [FText ''*'']"

fun binary_text :: "binary_op \<Rightarrow> string" where
  "binary_text OpEqual = '' = ''"
| "binary_text OpNotEqual = '' != ''"
| "binary_text OpLess = '' < ''"
| "binary_text OpLessEqual = '' <= ''"
| "binary_text OpGreater = '' > ''"
| "binary_text OpGreaterEqual = '' >= ''"
| "binary_text OpAnd = '' AND ''"
| "binary_text OpOr = '' OR ''"
| "binary_text OpLike = '' LIKE ''"
| "binary_text OpNotLike = '' NOT LIKE ''"
| "binary_text OpIn = '' IN ''"

fun join_text :: "JoinType \<Rightarrow> string" where
  "join_text INNER = '' INNER JOIN ''"
| "join_text LEFT = '' LEFT JOIN ''"
| "join_text RIGHT = '' RIGHT JOIN ''"
| "join_text FULL = '' FULL OUTER JOIN ''"
| "join_text CROSS = '' CROSS JOIN ''"

fun set_op_text :: "SetOperation \<Rightarrow> string" where
  "set_op_text UNION = '' UNION ''"
| "set_op_text UNION_ALL = '' UNION ALL ''"
| "set_op_text INTERSECT = '' INTERSECT ''"
| "set_op_text EXCEPT = '' EXCEPT ''"

fun direction_text :: "OrderDirection \<Rightarrow> string" where
  "direction_text ASC = '' ASC''"
| "direction_text DESC = '' DESC''"

definition t_flag :: "bool \<Rightarrow> string \<Rightarrow> frag list" where
  "t_flag b s = (if b then [FText s] else [])"

fun t_list :: "frag list list \<Rightarrow> frag list" where
  "t_list [] = []"
| "t_list [f] = f"
| "t_list (f # fs) = f @ [FText '', ''] @ t_list fs"

definition t_aggregate :: "string \<Rightarrow> frag list \<Rightarrow> string \<Rightarrow> frag list" where
  "t_aggregate start c alias = [FText start] @ c @ [FText '')''] @ t_alias alias"

definition t_insert :: "InsertExpr \<Rightarrow> frag list" where
  "t_insert i = [FText ''INSERT INTO ''] @ t_table (ins_table i)
     @ [FText '' (''] @ t_list (map (\<lambda>c. [FIdent c]) (ins_columns i)) @ [FText '') VALUES '']
     @ t_list (map (\<lambda>r. [FText ''(''] @ t_list (map (\<lambda>v. [FBind v]) r) @ [FText '')'']) (ins_rows i))"

definition t_update :: "UpdateExpr \<Rightarrow> frag list" where
  "t_update u = [FText ''UPDATE ''] @ t_table (upd_table u) @ [FText '' SET '']
     @ t_list (map (\<lambda>a. [FIdent (fst a), FText '' = '', FBind (snd a)]) (upd_assignments u))"

definition t_dynamic_field :: "DynamicFieldSchema \<Rightarrow> frag list" where
  "t_dynamic_field f = [FIdent (fs_name f), FText '' '', FText (fs_db_type f)]
     @ t_flag (fs_primary_key f) '' PRIMARY KEY''
     @ t_flag (\<not> fs_nullable f \<and> \<not> fs_primary_key f) '' NOT NULL''
     @ t_flag (fs_unique f \<and> \<not> fs_primary_key f) '' UNIQUE''
     @ (if fs_default_value f \<noteq> [] then [FText '' DEFAULT '', FText (fs_default_value f)] else [])
     @ (if fs_foreign_key f \<and> fs_foreign_table f \<noteq> []
        then [FText '' REFERENCES '', FIdent (fs_foreign_table f), FText ''('', FIdent (fs_foreign_column f), FText '')'']
        else [])"

definition t_static_field :: "StaticFieldSchema \<Rightarrow> frag list" where
  "t_static_field s = [FIdent (ss_name s), FText '' '', FText (sql_type_for (ss_type s))]
     @ t_flag (ss_primary_key s) '' PRIMARY KEY''
     @ t_flag (\<not> ss_nullable s \<and> \<not> ss_primary_key s) '' NOT NULL''
     @ t_flag (ss_unique s \<and> \<not> ss_primary_key s) '' UNIQUE''"

fun t_columns :: "table_ref \<Rightarrow> frag list" where
  "t_columns (Dynamic (Some t)) = [FText '' (''] @ t_list (map t_dynamic_field (dt_fields t)) @ [FText '')'']"
| "t_columns (Static t) = [FText '' (''] @ t_list (map t_static_field (st_fields t)) @ [FText '')'']"
| "t_columns _ = []"

definition t_cte :: "string \<Rightarrow> frag list \<Rightarrow> bool \<Rightarrow> frag list" where
  "t_cte name q recursive = [FText ''WITH ''] @ t_flag recursive ''RECURSIVE ''
     @ [FIdent name, FText '' AS (''] @ q @ [FText '')'', FText '' '']"

definition t_delete :: "table_ref \<Rightarrow> frag list" where
  "t_delete table = [FText ''DELETE FROM ''] @ t_table table"

fun template :: "expr \<Rightarrow> frag list" where
  "template (ColumnRef c) = t_column c"
| "template (Literal v alias) = [FLit v] @ t_alias alias"
| "template NullLiteral = [FText ''NULL'']"
| "template ParamPlaceholder = [FParam]"
| "template (BinaryExpr l op r) = [FText ''(''] @ template l @ [FText (binary_text op)] @ template r @ [FText '')'']"
| "template (UnaryExpr op e) =
     (case op of OpNot \<Rightarrow> [FText ''NOT ''] @ template e
      | OpIsNull \<Rightarrow> template e @ [FText '' IS NULL''] | OpIsNotNull \<Rightarrow> template e @ [FText '' IS NOT NULL''])"
| "template (BetweenExpr e l u) = template e @ [FText '' BETWEEN ''] @ template l @ [FText '' AND ''] @ template u"
| "template (InListExpr e vs) = template e @ [FText '' IN (''] @ t_list (map template vs) @ [FText '')'']"
| "template (Subquery q alias) = [FText ''(''] @ template q @ [FText '')''] @ t_alias alias"
| "template (ExistsExpr q) = [FText ''EXISTS (''] @ template q @ [FText '')'']"
| "template (CountExpr c dist alias) = [FText ''COUNT(''] @ t_flag dist ''DISTINCT '' @ t_counted c @ [FText '')''] @ t_alias alias"
| "template (SumExpr c alias) = t_aggregate ''SUM('' (t_column c) alias"
| "template (AvgExpr c alias) = t_aggregate ''AVG('' (t_column c) alias"
| "template (MaxExpr c alias) = t_aggregate ''MAX('' (t_column c) alias"
| "template (MinExpr c alias) = t_aggregate ''MIN('' (t_column c) alias"
| "template (OrderBy c dir) = t_column c @ [FText (direction_text dir)]"
| "template (SelectExpr dist cs) = [FText ''SELECT ''] @ t_flag dist ''DISTINCT '' @ t_list (map template cs)"
| "template (FromTableExpr q table alias) = template q @ [FText '' FROM ''] @ t_table table @ t_alias alias"
| "template (FromCteExpr q name cq recursive) =
     t_cte name (template cq) recursive @ template q @ [FText '' FROM ''] @ t_name name"
| "template (WhereExpr q c) = template q @ [FText '' WHERE ''] @ template c"
| "template (GroupByColumnExpr q cs) = template q @ [FText '' GROUP BY ''] @ t_list (map template cs)"
| "template (GroupByQueryExpr q c) = template q @ [FText '' GROUP BY ''] @ template c"
| "template (HavingExpr q c) = template q @ [FText '' HAVING ''] @ template c"
| "template (OrderByExpr q os) = template q @ [FText '' ORDER BY ''] @ t_list (map template os)"
| "template (LimitExpr q count off) = template q @ [FLimit count off]"
| "template (JoinExpr q c table type alias) =
     template q @ [FText (join_text type)] @ t_table table @ t_alias alias @ [FText '' ON ''] @ template c"
| "template (InsertInto i) = t_insert i"
| "template (UpdateSet u) = t_update u"
| "template (UpdateWhereExpr u c) = t_update u @ [FText '' WHERE ''] @ template c"
| "template (DeleteExpr table) = t_delete table"
| "template (DeleteWhereExpr table c) = t_delete table @ [FText '' WHERE ''] @ template c"
| "template (SetOpExpr l r op) = template l @ [FText (set_op_text op)] @ template r"
| "template (CaseExpr ws alias) =
     [FText ''CASE''] @ concat (map (\<lambda>w. [FText '' WHEN ''] @ template (fst w) @ [FText '' THEN ''] @ template (snd w)) ws)
     @ [FText '' END''] @ t_alias alias"
| "template (CaseExprWithElse ws e alias) =
     [FText ''CASE''] @ concat (map (\<lambda>w. [FText '' WHEN ''] @ template (fst w) @ [FText '' THEN ''] @ template (snd w)) ws)
     @ [FText '' ELSE ''] @ template e @ [FText '' END''] @ t_alias alias"
| "template (CteExpr name q recursive) = t_cte name (template q) recursive"
| "template (CreateTableExpr table ine) =
     [FText ''CREATE TABLE ''] @ t_flag ine ''IF NOT EXISTS '' @ t_table table @ t_columns table"
| "template (DropTableExpr table ie cascade) =
     [FText ''DROP TABLE ''] @ t_flag ie ''IF EXISTS '' @ t_table table @ t_flag cascade '' CASCADE''"

text \<open>The values of a template.\<close>

fun frag_literals :: "frag list \<Rightarrow> FieldValue list" where
  "frag_literals [] = []"
| "frag_literals (FLit v # fs) = v # frag_literals fs"
| "frag_literals (f # fs) = frag_literals fs"

fun frag_values :: "frag list \<Rightarrow> FieldValue list" where
  "frag_values [] = []"
| "frag_values (FLit v # fs) = v # frag_values fs"
| "frag_values (FBind v # fs) = v # frag_values fs"
| "frag_values (f # fs) = frag_values fs"

text \<open>No INSERT or UPDATE value, and no explicit placeholder.\<close>

definition dml_free :: "expr \<Rightarrow> bool" where
  "dml_free e \<longleftrightarrow> list_all (\<lambda>f. case f of FBind v \<Rightarrow> False | _ \<Rightarrow> True) (template e)"

definition placeholder_free :: "expr \<Rightarrow> bool" where
  "placeholder_free e \<longleftrightarrow> FParam \<notin> set (template e)"

text \<open>Executing a template.\<close>

fun run_frag :: "sql_dialect \<Rightarrow> ParamMode \<Rightarrow> frag \<Rightarrow> generator \<Rightarrow> generator" where
  "run_frag d m (FText s) g = g\<lparr>sql := sql g @ s\<rparr>"
| "run_frag d m (FIdent n) g = g\<lparr>sql := quote_identifier d (sql g) n\<rparr>"
| "run_frag d m (FLit v) g = snd (run_state (visit_value_impl d m v) g)"
| "run_frag d m (FBind v) g = snd (run_state (visit_value_impl d m v) g)"
| "run_frag d m FParam g = snd (run_state (visit_param_placeholder_impl d) g)"
| "run_frag d m (FLimit count off) g = g\<lparr>sql := limit_clause d (sql g) count off\<rparr>"

definition run_frags :: "sql_dialect \<Rightarrow> ParamMode \<Rightarrow> frag list \<Rightarrow> generator \<Rightarrow> generator" where
  "run_frags d m fs g = fold (run_frag d m) fs g"

text \<open>The text of a template: with placeholders from \<open>n + 1\<close> on, and with the values formatted in place.\<close>

fun numbered :: "sql_dialect \<Rightarrow> nat \<Rightarrow> frag list \<Rightarrow> string" where
  "numbered d n [] = []"
| "numbered d n (FText s # fs) = s @ numbered d n fs"
| "numbered d n (FIdent i # fs) = quote_identifier d [] i @ numbered d n fs"
| "numbered d n (FLimit count off # fs) = limit_clause d [] count off @ numbered d n fs"
| "numbered d n (FLit v # fs) = placeholder d [] (n + 1) @ numbered d (n + 1) fs"
| "numbered d n (FBind v # fs) = placeholder d [] (n + 1) @ numbered d (n + 1) fs"
| "numbered d n (FParam # fs) = placeholder d [] (n + 1) @ numbered d (n + 1) fs"

fun frag_text :: "sql_dialect \<Rightarrow> frag \<Rightarrow> string" where
  "frag_text d (FText s) = s"
| "frag_text d (FIdent i) = quote_identifier d [] i"
| "frag_text d (FLimit count off) = limit_clause d [] count off"
| "frag_text d (FLit v) = format_value d [] v"
| "frag_text d (FBind v) = format_value d [] v"
| "frag_text d FParam = []"

definition inlined :: "sql_dialect \<Rightarrow> frag list \<Rightarrow> string" where
  "inlined d fs = concat (map (frag_text d) fs)"

section \<open>The visitor writes the template\<close>

named_theorems hook_simps \<open>running the hooks\<close>

lemma run_emit [hook_simps]: "run_state (emit s) g = ((), g\<lparr>sql := sql g @ s\<rparr>)"
  by (simp add: emit_def)

lemma run_write_sql [hook_simps]: "run_state (write_sql f) g = ((), g\<lparr>sql := f (sql g)\<rparr>)"
  by (simp add: write_sql_def)

lemma run_skip [hook_simps]: "run_state skip g = ((), g)"
  by (simp add: skip_def)

lemma run_frags_Nil [simp]: "run_frags d m [] g = g"
  by (simp add: run_frags_def)

lemma run_frags_append [simp]: "run_frags d m (fs @ gs) g = run_frags d m gs (run_frags d m fs g)"
  by (simp add: run_frags_def)

lemma run_frags_Cons [simp]: "run_frags d m (f # fs) g = run_frags d m fs (run_frag d m f g)"
  by (simp add: run_frags_def)

text \<open>\<open>writes d m p fs\<close>: the program appends the fragments and nothing else.\<close>

definition writes :: "sql_dialect \<Rightarrow> ParamMode \<Rightarrow> hook \<Rightarrow> frag list \<Rightarrow> bool" where
  "writes d m p fs \<longleftrightarrow> (\<forall>g. run_state p g = ((), run_frags d m fs g))"

lemma writes_run: "writes d m p fs \<Longrightarrow> run_state p g = ((), run_frags d m fs g)"
  by (simp add: writes_def)

text \<open>\<open>visits d m p fs\<close>: the visitor writes the fragments and, in Tuple mode, captures their literals.\<close>

definition visits :: "sql_dialect \<Rightarrow> ParamMode \<Rightarrow> visitor \<Rightarrow> frag list \<Rightarrow> bool" where
  "visits d m p fs \<longleftrightarrow>
     (\<forall>g. run_state p g = (if m = Tuple then frag_literals fs else [], run_frags d m fs g))"

lemma visits_run: "visits d m p fs \<Longrightarrow> run_state p g = (if m = Tuple then frag_literals fs else [], run_frags d m fs g)"
  by (simp add: visits_def)

lemma visitsI: "(\<And>g. run_state p g = (if m = Tuple then frag_literals fs else [], run_frags d m fs g)) \<Longrightarrow> visits d m p fs"
  by (simp add: visits_def)

lemma frag_literals_append [simp]: "frag_literals (fs @ gs) = frag_literals fs @ frag_literals gs"
  by (induction fs rule: frag_literals.induct) auto

lemma frag_values_append [simp]: "frag_values (fs @ gs) = frag_values fs @ frag_values gs"
  by (induction fs rule: frag_values.induct) auto

lemma t_list_Cons: "t_list (f # fs) = f @ concat (map ((#) (FText '', '')) fs)"
  by (induction fs arbitrary: f) auto

lemma run_visit_value [hook_simps]:
  "run_state (visit_value_impl d m v) g = ((), run_frag d m (FLit v) g)"
  by (cases m) (simp_all add: visit_value_impl_def next_param_def push_def hook_simps)

lemma run_frag_bind [simp]: "run_frag d m (FBind v) g = run_frag d m (FLit v) g"
  by simp

declare run_frag.simps(3,4) [simp del]

lemma run_visit_param:
  "run_state (visit_param_placeholder_impl d) g = ((), run_frag d m FParam g)"
  by (simp add: visit_param_placeholder_impl_def next_param_def hook_simps)

declare run_frag.simps(5) [simp del]

lemma separated_rest:
  assumes "list_all2 (writes d m) ps fss"
  shows "writes d m (separated False ps) (concat (map ((#) (FText '', '')) fss))"
  using assms
  by (induction ps fss rule: list_all2_induct) (simp_all add: writes_def hook_simps)

lemma separated_writes:
  assumes "list_all2 (writes d m) ps fss"
  shows "writes d m (separated True ps) (t_list fss)"
proof (cases ps)
  case Nil
  then show ?thesis using assms by (simp add: writes_def hook_simps)
next
  case (Cons p ps')
  then obtain f fss' where fss: "fss = f # fss'" "writes d m p f" "list_all2 (writes d m) ps' fss'"
    using assms by (auto simp: list_all2_Cons1)
  show ?thesis
    using separated_rest [OF fss(3)] fss(2) unfolding Cons fss(1) t_list_Cons
    by (simp add: writes_def hook_simps)
qed

lemma separated_map_writes:
  assumes "\<And>x. x \<in> set xs \<Longrightarrow> writes d m (f x) (h x)"
  shows "run_state (separated True (map f xs)) g = ((), run_frags d m (t_list (map h xs)) g)"
  using separated_writes [of d m "map f xs" "map h xs"] assms
  by (auto simp: list_all2_map1 list_all2_map2 list.rel_refl_strong writes_def intro: list.rel_refl_strong)

lemma tuple_elements_rest:
  assumes "list_all2 (visits d m) ts fss" "k \<noteq> 0"
  shows "visits d m (visit_tuple_elements m k ts) (concat (map ((#) (FText '', '')) fss))"
  using assms
proof (induction ts fss arbitrary: k rule: list_all2_induct)
  case (Cons t ts f fss)
  then show ?case
    using Cons.IH [of "k + 1"]
    by (simp add: visits_def visit_tuple_element_def visit_column_separator_def hook_simps cat_params_def)
qed (simp add: visits_def no_params_def)

lemma tuple_elements_visits:
  assumes "list_all2 (visits d m) ts fss"
  shows "visits d m (visit_tuple_elements m 0 ts) (t_list fss)"
proof (cases ts)
  case Nil
  then show ?thesis using assms by (simp add: visits_def no_params_def)
next
  case (Cons t ts')
  then obtain f fss' where fss: "fss = f # fss'" "visits d m t f" "list_all2 (visits d m) ts' fss'"
    using assms by (auto simp: list_all2_Cons1)
  show ?thesis
    using tuple_elements_rest [OF fss(3), of 1] fss(2) unfolding Cons fss(1) t_list_Cons
    by (simp add: visits_def visit_tuple_element_def hook_simps cat_params_def)
qed

lemma tuple_map_visits:
  assumes "\<And>x. x \<in> set xs \<Longrightarrow> visits d m (f x) (h x)"
  shows "visits d m (visit_tuple_elements m 0 (map f xs)) (t_list (map h xs))"
  using tuple_elements_visits [of d m "map f xs" "map h xs"] assms
  by (simp add: list_all2_map1 list_all2_map2 list.rel_refl_strong)

lemma when_clauses_visits:
  assumes "\<And>w. w \<in> set ws \<Longrightarrow> visits d m (f w) (h w)"
  shows "visits d m (visit_when_clauses m (map f ws)) (concat (map h ws))"
  using assms by (induction ws) (simp_all add: visits_def no_params_def cat_params_def)

lemma frag_literals_t [simp]:
  "frag_literals (t_alias a) = []" "frag_literals (t_name n) = []" "frag_literals (t_table t) = []"
  "frag_literals (t_column c) = []" "frag_literals (t_counted c) = []" "frag_literals (t_flag b s) = []"
  "frag_literals (t_qualifier q) = []"
  by (cases t rule: t_table.cases; cases c;
      simp add: t_alias_def t_name_def t_flag_def t_qualifier_def)+

lemma frag_literals_t_list:
  "(\<And>f. f \<in> set fs \<Longrightarrow> frag_literals f = []) \<Longrightarrow> frag_literals (t_list fs) = []"
  by (induction fs rule: t_list.induct) auto

lemma frag_literals_dml [simp]:
  "frag_literals (t_insert i) = []" "frag_literals (t_update u) = []" "frag_literals (t_columns t) = []"
  by (cases t rule: t_columns.cases;
      auto simp: t_insert_def t_update_def t_dynamic_field_def t_static_field_def intro!: frag_literals_t_list)+

text \<open>The hooks that write no value do the same in every mode.\<close>

lemma run_alias: "run_state (visit_alias_impl d a) g = ((), run_frags d m (t_alias a) g)"
  by (simp add: visit_alias_impl_def t_alias_def hook_simps)

lemma run_table_name: "run_state (visit_table_name d n) g = ((), run_frags d m (t_name n) g)"
  by (simp add: visit_table_name_def t_name_def hook_simps)

lemma run_table: "run_state (visit_table_impl d t) g = ((), run_frags d m (t_table t) g)"
  by (cases t rule: t_table.cases) (simp_all add: hook_simps run_table_name [where m = m])

lemma run_column: "run_state (visit_column d c) g = ([], run_frags d m (t_column c) g)"
  by (cases c) (simp_all add: visit_column_impl_def visit_all_columns_impl_def t_qualifier_def no_params_def
      hook_simps run_alias [where m = m] visit_table_name_def)

lemma run_all_columns: "run_state (visit_all_columns_impl d []) g = ((), run_frags d m [FText ''*''] g)"
  by (simp add: visit_all_columns_impl_def hook_simps)

lemma run_binary_op: "run_state (visit_binary_op_impl op) g = ((), run_frags d m [FText (binary_text op)] g)"
  by (cases op) (simp_all add: hook_simps)

lemma run_join_start: "run_state (visit_join_start ty) g = ((), run_frags d m [FText (join_text ty)] g)"
  by (cases ty) (simp_all add: hook_simps)

lemma run_set_op: "run_state (visit_set_op_impl op) g = ((), run_frags d m [FText (set_op_text op)] g)"
  by (cases op) (simp_all add: hook_simps)

lemma run_direction: "run_state (visit_order_direction_impl dir) g = ((), run_frags d m [FText (direction_text dir)] g)"
  by (cases dir) (simp_all add: hook_simps)

lemma writes_dynamic_field: "writes d m (visit_dynamic_field d f) (t_dynamic_field f)"
  by (simp add: writes_def visit_dynamic_field_def t_dynamic_field_def t_flag_def hook_simps)

lemma writes_static_field: "writes d m (visit_static_field d f) (t_static_field f)"
  by (simp add: writes_def visit_static_field_def t_static_field_def t_flag_def hook_simps)

lemma run_create_columns: "run_state (visit_create_table_columns d t) g = ((), run_frags d m (t_columns t) g)"
  by (cases t rule: t_columns.cases)
    (simp_all add: hook_simps separated_map_writes [OF writes_dynamic_field [where m = m]]
      separated_map_writes [OF writes_static_field [where m = m]])

lemma writes_ident: "writes d m (write_sql (\<lambda>q. quote_identifier d q c)) [FIdent c]"
  by (simp add: writes_def hook_simps)

lemma writes_value: "writes d m (visit_value_impl d m v) [FBind v]"
  by (simp add: writes_def hook_simps)

lemma writes_row: "writes d m (visit_insert_row d m r) ([FText ''(''] @ t_list (map (\<lambda>v. [FBind v]) r) @ [FText '')''])"
  by (simp add: writes_def visit_insert_row_def hook_simps separated_map_writes [OF writes_value [where m = m]])

lemma writes_assignment:
  "writes d m (visit_assignment d m a) [FIdent (fst a), FText '' = '', FBind (snd a)]"
  by (simp add: writes_def visit_assignment_def hook_simps)

lemma run_insert: "run_state (visit_InsertExpr d m i) g = ([], run_frags d m (t_insert i) g)"
  by (simp add: visit_InsertExpr_def t_insert_def visit_insert_start_def visit_insert_columns_def
      visit_insert_values_def no_params_def hook_simps run_table [where m = m]
      separated_map_writes [OF writes_ident [where m = m]] separated_map_writes [OF writes_row [where m = m]])

lemma run_update: "run_state (visit_UpdateExpr d m u) g = ([], run_frags d m (t_update u) g)"
  by (simp add: visit_UpdateExpr_def t_update_def visit_update_start_def visit_update_set_def
      no_params_def hook_simps run_table [where m = m] separated_map_writes [OF writes_assignment [where m = m]])

lemma run_delete: "run_state (visit_DeleteExpr d t) g = ([], run_frags d m (t_delete t) g)"
  by (simp add: visit_DeleteExpr_def t_delete_def visit_delete_start_def no_params_def hook_simps run_table [where m = m])

lemma run_cte:
  "visits d m q fs \<Longrightarrow> run_state (visit_CteExpr d name q recursive) g
     = (if m = Tuple then frag_literals fs else [], run_frags d m (t_cte name fs recursive) g)"
  by (simp add: visit_CteExpr_def t_cte_def t_flag_def visit_cte_start_def visit_cte_name_impl_def visit_cte_as_start_def
      visit_cte_as_end_def visit_cte_end_def hook_simps visits_run)

lemma run_aggregate:
  "(\<And>g. run_state start g = ((), run_frags d m [FText s] g)) \<Longrightarrow>
   run_state (visit_Aggregate d start c alias) g = ([], run_frags d m (t_aggregate s (t_column c) alias) g)"
  by (simp add: visit_Aggregate_def t_aggregate_def visit_aggregate_end_def no_params_def hook_simps
      run_column [where m = m] run_alias [where m = m])

lemmas node_defs = visit_Literal_def visit_NullLiteral_def visit_ParamPlaceholder_def visit_BinaryExpr_def
  visit_UnaryExpr_def visit_BetweenExpr_def visit_InListExpr_def visit_Subquery_def visit_ExistsExpr_def
  visit_CountExpr_def visit_OrderBy_def visit_SelectExpr_def visit_FromTableExpr_def visit_FromCteExpr_def
  visit_WhereExpr_def visit_GroupByColumnExpr_def visit_GroupByQueryExpr_def visit_HavingExpr_def
  visit_OrderByExpr_def visit_LimitExpr_def visit_JoinExpr_def visit_UpdateWhereExpr_def
  visit_DeleteWhereExpr_def visit_SetOpExpr_def visit_single_when_def visit_CaseExpr_def
  visit_CaseExprWithElse_def visit_CreateTableExpr_def visit_DropTableExpr_def

lemmas hook_defs = visit_null_impl_def visit_binary_expr_start_def visit_binary_expr_end_def
  visit_subquery_start_def visit_subquery_end_def visit_exists_start_def visit_exists_end_def
  visit_between_impl_def visit_and_impl_def visit_in_list_start_def visit_in_list_end_def visit_count_impl_def
  visit_sum_impl_def visit_avg_impl_def visit_max_impl_def visit_min_impl_def
  visit_aggregate_end_def visit_select_start_def visit_from_start_def visit_where_start_def
  visit_group_by_start_def visit_having_start_def visit_order_by_start_def visit_limit_impl_def
  visit_join_on_def visit_case_start_def visit_case_end_def visit_when_start_def visit_when_then_def
  visit_else_start_def visit_create_table_start_def visit_drop_table_start_def visit_drop_table_end_def

lemmas param_defs = capture_param_def no_params_def cat_params_def

lemma visits_single_when:
  "visits d m c fs \<Longrightarrow> visits d m v gs \<Longrightarrow>
   visits d m (visit_single_when m c v) ([FText '' WHEN ''] @ fs @ [FText '' THEN ''] @ gs)"
  by (simp add: visits_def visit_single_when_def visit_when_start_def visit_when_then_def hook_simps cat_params_def)

lemma frag_literals_aggregate [simp]: "frag_literals (t_aggregate s (t_column c) a) = []"
  by (simp add: t_aggregate_def)

lemma frag_literals_delete [simp]: "frag_literals (t_delete t) = []"
  by (simp add: t_delete_def)

lemma frag_literals_cte [simp]: "frag_literals (t_cte name fs recursive) = frag_literals fs"
  by (simp add: t_cte_def)

text \<open>The refinement: every node writes its template and captures the template's literals.\<close>

lemma visit_template: "visits d m (visit d m e) (template e)"
proof (induction e)
  note run = visits_run node_defs hook_defs hook_simps param_defs run_alias [where m = m] run_column [where m = m]
    run_table [where m = m] run_table_name [where m = m] run_binary_op [where m = m and d = d]
    run_join_start [where m = m and d = d] run_set_op [where m = m and d = d]
    run_direction [where m = m and d = d] run_all_columns [where m = m] run_insert run_update
    run_delete [where m = m] run_cte run_create_columns [where m = m]
  {
    case (ColumnRef c)
    show ?case by (intro visitsI) (simp add: run)
  next
    case (Literal v a)
    show ?case by (intro visitsI) (simp add: run)
  next
    case NullLiteral
    show ?case by (intro visitsI) (simp add: run)
  next
    case ParamPlaceholder
    show ?case by (intro visitsI) (simp add: run run_visit_param [where m = m])
  next
    case (BinaryExpr l op r)
    then show ?case by (intro visitsI) (simp add: run)
  next
    case (UnaryExpr op e)
    then show ?case by (intro visitsI) (cases op; simp add: run)
  next
    case (BetweenExpr e l u)
    then show ?case by (intro visitsI) (simp add: run)
  next
    case (InListExpr e vs)
    have "visits d m (visit_tuple_elements m 0 (map (visit d m) vs)) (t_list (map template vs))"
      using InListExpr by (intro tuple_map_visits) auto
    with InListExpr show ?case by (intro visitsI) (simp add: run)
  next
    case (Subquery q a)
    then show ?case by (intro visitsI) (simp add: run)
  next
    case (ExistsExpr q)
    then show ?case by (intro visitsI) (simp add: run)
  next
    case (CountExpr c dist a)
    show ?case by (intro visitsI) (cases c; simp add: run t_flag_def del: visit_column.simps t_column.simps)
  next
    case (SumExpr c a)
    show ?case
      by (intro visitsI) (simp add: run_aggregate [where m = m and s = "''SUM(''"] visit_sum_impl_def hook_simps)
  next
    case (AvgExpr c a)
    show ?case
      by (intro visitsI) (simp add: run_aggregate [where m = m and s = "''AVG(''"] visit_avg_impl_def hook_simps)
  next
    case (MaxExpr c a)
    show ?case
      by (intro visitsI) (simp add: run_aggregate [where m = m and s = "''MAX(''"] visit_max_impl_def hook_simps)
  next
    case (MinExpr c a)
    show ?case
      by (intro visitsI) (simp add: run_aggregate [where m = m and s = "''MIN(''"] visit_min_impl_def hook_simps)
  next
    case (OrderBy c dir)
    show ?case by (intro visitsI) (simp add: run)
  next
    case (SelectExpr dist cs)
    have "visits d m (visit_tuple_elements m 0 (map (visit d m) cs)) (t_list (map template cs))"
      using SelectExpr by (intro tuple_map_visits) auto
    then show ?case by (intro visitsI) (simp add: run t_flag_def)
  next
    case (FromTableExpr q t a)
    then show ?case by (intro visitsI) (simp add: run)
  next
    case (FromCteExpr q name cq recursive)
    then show ?case by (intro visitsI) (simp add: run)
  next
    case (WhereExpr q c)
    then show ?case by (intro visitsI) (simp add: run)
  next
    case (GroupByColumnExpr q cs)
    have "visits d m (visit_tuple_elements m 0 (map (visit d m) cs)) (t_list (map template cs))"
      using GroupByColumnExpr by (intro tuple_map_visits) auto
    with GroupByColumnExpr show ?case by (intro visitsI) (simp add: run)
  next
    case (GroupByQueryExpr q c)
    then show ?case by (intro visitsI) (simp add: run)
  next
    case (HavingExpr q c)
    then show ?case by (intro visitsI) (simp add: run)
  next
    case (OrderByExpr q cs)
    have "visits d m (visit_tuple_elements m 0 (map (visit d m) cs)) (t_list (map template cs))"
      using OrderByExpr by (intro tuple_map_visits) auto
    with OrderByExpr show ?case by (intro visitsI) (simp add: run)
  next
    case (LimitExpr q count off)
    then show ?case by (intro visitsI) (simp add: run)
  next
    case (JoinExpr q c t ty a)
    then show ?case by (intro visitsI) (simp add: run)
  next
    case (InsertInto i)
    show ?case by (intro visitsI) (simp add: run)
  next
    case (UpdateSet u)
    show ?case by (intro visitsI) (simp add: run)
  next
    case (UpdateWhereExpr u c)
    then show ?case by (intro visitsI) (simp add: run)
  next
    case (DeleteExpr t)
    show ?case by (intro visitsI) (simp add: run)
  next
    case (DeleteWhereExpr t c)
    then show ?case by (intro visitsI) (simp add: run)
  next
    case (SetOpExpr l r op)
    then show ?case by (intro visitsI) (simp add: run)
  next
    case (CaseExpr ws a)
    have "visits d m (visit_when_clauses m (map (\<lambda>w. visit_single_when m (visit d m (fst w)) (visit d m (snd w))) ws))
        (concat (map (\<lambda>w. [FText '' WHEN ''] @ template (fst w) @ [FText '' THEN ''] @ template (snd w)) ws))"
      using CaseExpr by (intro when_clauses_visits visits_single_when) (auto simp: prod_set_simps)
    then show ?case by (intro visitsI) (simp add: run)
  next
    case (CaseExprWithElse ws e a)
    have "visits d m (visit_when_clauses m (map (\<lambda>w. visit_single_when m (visit d m (fst w)) (visit d m (snd w))) ws))
        (concat (map (\<lambda>w. [FText '' WHEN ''] @ template (fst w) @ [FText '' THEN ''] @ template (snd w)) ws))"
      using CaseExprWithElse by (intro when_clauses_visits visits_single_when) (auto simp: prod_set_simps)
    with CaseExprWithElse show ?case by (intro visitsI) (simp add: run)
  next
    case (CteExpr name q recursive)
    then show ?case by (intro visitsI) (simp add: run)
  next
    case (CreateTableExpr t ine)
    show ?case by (intro visitsI) (simp add: run t_flag_def)
  next
    case (DropTableExpr t ie cascade)
    show ?case by (intro visitsI) (simp add: run t_flag_def)
  }
qed

section \<open>The three parameter modes\<close>

definition is_slot :: "frag \<Rightarrow> bool" where
  "is_slot f = (case f of FLit v \<Rightarrow> True | FBind v \<Rightarrow> True | FParam \<Rightarrow> True | _ \<Rightarrow> False)"

definition slots :: "frag list \<Rightarrow> nat" where
  "slots fs = length (filter is_slot fs)"

lemma slots_simps [simp]:
  "slots [] = 0" "slots (FText s # fs) = slots fs" "slots (FIdent i # fs) = slots fs"
  "slots (FLimit c off # fs) = slots fs" "slots (FLit v # fs) = Suc (slots fs)"
  "slots (FBind v # fs) = Suc (slots fs)" "slots (FParam # fs) = Suc (slots fs)"
  "slots (fs @ gs) = slots fs + slots gs"
  by (simp_all add: slots_def is_slot_def)

lemma run_slot:
  "run_frag d Tuple (FLit v) g =
     g\<lparr>param_count := param_count g + 1, sql := placeholder d (sql g) (param_count g + 1)\<rparr>"
  "run_frag d Sink (FLit v) g =
     g\<lparr>sink := sink g @ [v], sql := placeholder d (sql g) (length (sink g) + 1)\<rparr>"
  "run_frag d Inline (FLit v) g = g\<lparr>sql := format_value d (sql g) v\<rparr>"
  "run_frag d m FParam g =
     g\<lparr>param_count := param_count g + 1, sql := placeholder d (sql g) (param_count g + 1)\<rparr>"
  by (simp_all add: run_frag.simps(3,5) visit_value_impl_def visit_param_placeholder_impl_def next_param_def
      push_def run_write_sql)

context lexed_dialect
begin

lemma run_text:
  "run_frag d m (FText s) g = g\<lparr>sql := sql g @ s\<rparr>"
  "run_frag d m (FIdent i) g = g\<lparr>sql := sql g @ quote_identifier d [] i\<rparr>"
  "run_frag d m (FLimit c off) g = g\<lparr>sql := sql g @ limit_clause d [] c off\<rparr>"
  using quote_append [of "sql g"] limit_append [of "sql g"] by simp_all

lemma run_tuple:
  "run_frags d Tuple fs g =
     g\<lparr>sql := sql g @ numbered d (param_count g) fs, param_count := param_count g + slots fs\<rparr>"
proof (induction fs arbitrary: g)
  case (Cons f fs)
  show ?case
    using placeholder_append [of "sql g" "param_count g + 1"]
    by (cases f) (simp_all add: run_text Cons.IH run_slot del: run_frag.simps(1,2,6))
qed simp

lemma run_sink:
  assumes "FParam \<notin> set fs"
  shows "run_frags d Sink fs g =
     g\<lparr>sql := sql g @ numbered d (length (sink g)) fs, sink := sink g @ frag_values fs\<rparr>"
  using assms
proof (induction fs arbitrary: g)
  case (Cons f fs)
  then show ?case
    using placeholder_append [of "sql g" "length (sink g) + 1"]
    by (cases f) (simp_all add: run_text run_slot del: run_frag.simps(1,2,6))
qed simp

lemma run_inline:
  assumes "FParam \<notin> set fs"
  shows "run_frags d Inline fs g = g\<lparr>sql := sql g @ inlined d fs\<rparr>"
  using assms
proof (induction fs arbitrary: g)
  case (Cons f fs)
  then show ?case
    using format_append [of "sql g"]
    by (cases f) (simp_all add: run_text run_slot inlined_def del: run_frag.simps(1,2,6))
qed (simp add: inlined_def)

lemma compile_sink:
  "placeholder_free e \<Longrightarrow>
   compile_dynamic d Sink e = (numbered d 0 (template e), Some (frag_values (template e)))"
  by (simp add: compile_dynamic_def visits_run [OF visit_template] run_sink placeholder_free_def new_generator_def)

lemma compile_tuple:
  "compile_static d Tuple n e =
     (if n < length (numbered d 0 (template e)) then Inl out_of_range
      else Inr (numbered d 0 (template e), frag_literals (template e)))"
  by (simp add: compile_static_def visits_run [OF visit_template] run_tuple new_generator_def)

lemma compile_inline:
  "placeholder_free e \<Longrightarrow> compile_dynamic d Inline e = (inlined d (template e), None)"
  by (simp add: compile_dynamic_def visits_run [OF visit_template] run_inline placeholder_free_def new_generator_def)

end

lemma dml_free_values: "dml_free e \<Longrightarrow> frag_literals (template e) = frag_values (template e)"
proof -
  have "list_all (\<lambda>f. case f of FBind v \<Rightarrow> False | _ \<Rightarrow> True) fs \<Longrightarrow> frag_literals fs = frag_values fs" for fs
    by (induction fs rule: frag_literals.induct) auto
  then show "dml_free e \<Longrightarrow> frag_literals (template e) = frag_values (template e)" by (simp add: dml_free_def)
qed

section \<open>Quoted parts never touch\<close>

text \<open>In a template a quoted part is always followed by fixed text that cannot extend it.\<close>

definition quoted :: "frag \<Rightarrow> bool" where
  "quoted f = (case f of FIdent i \<Rightarrow> True | FLit v \<Rightarrow> True | FBind v \<Rightarrow> True | _ \<Rightarrow> False)"

definition starts_safe :: "frag \<Rightarrow> bool" where
  "starts_safe f = (case f of FText s \<Rightarrow> s \<noteq> [] \<and> safe_rest s | FLimit c off \<Rightarrow> True | _ \<Rightarrow> False)"

fun spaced :: "frag list \<Rightarrow> bool" where
  "spaced [] = True"
| "spaced [f] = True"
| "spaced (f # g # fs) = ((quoted f \<longrightarrow> starts_safe g) \<and> spaced (g # fs))"

lemma quoted_simps [simp]:
  "quoted (FIdent i)" "quoted (FLit v)" "quoted (FBind v)" "\<not> quoted (FText s)" "\<not> quoted FParam" "\<not> quoted (FLimit c off)"
  by (simp_all add: quoted_def)

lemma starts_safe_simps [simp]:
  "starts_safe (FText s) \<longleftrightarrow> s \<noteq> [] \<and> safe_rest s" "starts_safe (FLimit c off)"
  by (simp_all add: starts_safe_def)

lemma spaced_Cons: "spaced (f # fs) \<longleftrightarrow> (fs \<noteq> [] \<longrightarrow> quoted f \<longrightarrow> starts_safe (hd fs)) \<and> spaced fs"
  by (cases fs) auto

lemma spaced_append:
  "spaced (fs @ gs) \<longleftrightarrow> spaced fs \<and> spaced gs \<and> (fs \<noteq> [] \<longrightarrow> gs \<noteq> [] \<longrightarrow> quoted (last fs) \<longrightarrow> starts_safe (hd gs))"
  by (induction fs) (auto simp: spaced_Cons)

text \<open>Glue: fixed text that starts safely may follow anything.\<close>

lemma spaced_glue [simp]:
  "s \<noteq> [] \<Longrightarrow> safe_rest s \<Longrightarrow> spaced (fs @ FText s # gs) \<longleftrightarrow> spaced fs \<and> spaced gs"
  "spaced (FText s # gs) \<longleftrightarrow> spaced gs"
  "spaced (fs @ [FLimit c off]) \<longleftrightarrow> spaced fs"
  by (auto simp: spaced_append spaced_Cons)

lemma spaced_t_alias: "spaced (fs @ t_alias a) \<longleftrightarrow> spaced fs"
  by (simp add: t_alias_def)

lemma spaced_t [simp]:
  "spaced (t_alias a)" "spaced (t_name n)" "spaced (t_table t)" "spaced (t_column c)" "spaced (t_counted c)"
  "spaced (t_flag b s)" "spaced (t_qualifier q)"
  by (cases t rule: t_table.cases; cases c;
      simp add: t_alias_def t_name_def t_flag_def t_qualifier_def spaced_Cons)+

lemma spaced_flag: "s \<noteq> [] \<Longrightarrow> safe_rest s \<Longrightarrow> spaced (fs @ t_flag b s @ gs) \<longleftrightarrow> (if b then spaced fs \<and> spaced gs else spaced (fs @ gs))"
  by (simp add: t_flag_def)

lemma spaced_t_list: "(\<And>f. f \<in> set fs \<Longrightarrow> spaced f) \<Longrightarrow> spaced (t_list fs)"
  by (induction fs rule: t_list.induct) auto

lemma spaced_concat:
  "(\<And>f. f \<in> set fs \<Longrightarrow> spaced f \<and> f \<noteq> [] \<and> starts_safe (hd f)) \<Longrightarrow> spaced (concat fs)"
proof (induction fs)
  case (Cons f fs)
  have "concat fs = [] \<or> starts_safe (hd (concat fs))"
    using Cons.prems by (cases fs) auto
  with Cons show ?case by (auto simp: spaced_append)
qed simp

lemma fixed_texts_safe [simp]:
  "binary_text op \<noteq> []" "safe_rest (binary_text op)" "join_text ty \<noteq> []" "safe_rest (join_text ty)"
  "set_op_text so \<noteq> []" "safe_rest (set_op_text so)" "direction_text dir \<noteq> []" "safe_rest (direction_text dir)"
  by (cases op; cases ty; cases so; cases dir; simp)+

lemma spaced_dynamic_field: "spaced (t_dynamic_field f)"
  by (simp add: t_dynamic_field_def t_flag_def spaced_Cons)

lemma spaced_static_field: "spaced (t_static_field f)"
  by (simp add: t_static_field_def t_flag_def spaced_Cons)

lemma spaced_columns: "spaced (t_table t @ t_columns t)"
  by (cases t rule: t_columns.cases)
    (auto simp: spaced_Cons t_name_def intro!: spaced_t_list spaced_dynamic_field spaced_static_field)

lemma spaced_insert: "spaced (t_insert i)"
  by (auto simp: t_insert_def intro!: spaced_t_list)

lemma spaced_update: "spaced (t_update u)"
  by (auto simp: t_update_def spaced_Cons intro!: spaced_t_list)

lemma spaced_delete: "spaced (t_delete t)"
  by (simp add: t_delete_def)

lemma spaced_cte: "spaced q \<Longrightarrow> spaced (t_cte name q recursive)"
  by (simp add: t_cte_def t_flag_def spaced_Cons spaced_append)

lemma spaced_aggregate: "spaced (t_aggregate s (t_column c) a)"
  by (simp add: t_aggregate_def)

lemma cte_glue: "spaced (t_cte name q recursive @ gs) \<longleftrightarrow> spaced (t_cte name q recursive) \<and> spaced gs"
  by (auto simp: spaced_append t_cte_def)

lemma spaced_whens:
  assumes "\<And>w. w \<in> set ws \<Longrightarrow> spaced (template (fst w)) \<and> spaced (template (snd w))"
  shows "spaced (concat (map (\<lambda>w. [FText '' WHEN ''] @ template (fst w) @ [FText '' THEN ''] @ template (snd w)) ws))"
  using assms by (intro spaced_concat) auto

lemma spaced_template: "spaced (template e)"
proof (induction e)
  case (CaseExpr ws a)
  then have "spaced (concat (map (\<lambda>w. [FText '' WHEN ''] @ template (fst w) @ [FText '' THEN ''] @ template (snd w)) ws))"
    by (intro spaced_whens) (auto simp: prod_set_simps)
  then show ?case by simp
next
  case (CaseExprWithElse ws e a)
  then have "spaced (concat (map (\<lambda>w. [FText '' WHEN ''] @ template (fst w) @ [FText '' THEN ''] @ template (snd w)) ws))"
    by (intro spaced_whens) (auto simp: prod_set_simps)
  with CaseExprWithElse show ?case by simp
next
  case (InListExpr e vs)
  then show ?case by (auto intro!: spaced_t_list)
next
  case (SelectExpr dist cs)
  then show ?case by (auto simp: t_flag_def intro!: spaced_t_list)
next
  case (GroupByColumnExpr q cs)
  then show ?case by (auto intro!: spaced_t_list)
next
  case (OrderByExpr q cs)
  then show ?case by (auto intro!: spaced_t_list)
next
  case (CreateTableExpr t ine)
  then show ?case by (simp add: t_flag_def spaced_columns)
next
  case (DropTableExpr t ie cascade)
  then show ?case by (simp add: t_flag_def spaced_Cons)
next
  case (Literal v a)
  then show ?case by (simp add: t_alias_def)
next
  case (JoinExpr q c t ty a)
  then show ?case by (simp add: t_alias_def spaced_Cons)
qed (simp_all add: spaced_insert spaced_update spaced_delete spaced_aggregate spaced_cte cte_glue
      spaced_t_alias t_flag_def split: unary_op.split)

section \<open>Inline text is read back as intended\<close>

fun frag_tokens :: "frag \<Rightarrow> sql_token list" where
  "frag_tokens (FText s) = map TChar s"
| "frag_tokens (FIdent i) = [TIdent i]"
| "frag_tokens (FLimit count off) = map TChar (limit_text count off)"
| "frag_tokens (FLit v) = value_tokens v"
| "frag_tokens (FBind v) = value_tokens v"
| "frag_tokens FParam = []"

text \<open>What the theorem asks of an expression: raw type and default texts of a runtime schema carry no
  quotes, and no literal is a floating-point number.\<close>

fun trusted_frag :: "frag \<Rightarrow> bool" where
  "trusted_frag (FText s) = plain s"
| "trusted_frag (FLit v) = (\<not> is_floating v)"
| "trusted_frag (FBind v) = (\<not> is_floating v)"
| "trusted_frag FParam = False"
| "trusted_frag _ = True"

definition trusted :: "expr \<Rightarrow> bool" where
  "trusted e \<longleftrightarrow> list_all trusted_frag (template e)"

lemma trusted_placeholder_free: "trusted e \<Longrightarrow> placeholder_free e"
  by (auto simp: trusted_def placeholder_free_def list_all_iff)

context lexed_dialect
begin

lemma inlined_safe_rest:
  assumes "spaced (f # fs)" "quoted f"
  shows "inlined d fs = [] \<or> safe_rest (inlined d fs)"
proof (cases fs)
  case (Cons g gs)
  then have "starts_safe g" using assms by simp
  then show ?thesis
    using limit_safe by (cases g) (auto simp: Cons inlined_def safe_rest_append starts_safe_def)
qed (simp add: inlined_def)

lemma frag_lexes:
  assumes "trusted_frag f" "\<And>l off. limit_clause d [] l off = limit_text l off"
  shows "lexes (frag_text d f) (frag_tokens f)"
proof (cases f)
  case (FLimit l off)
  then show ?thesis using limit_plain [of l off] assms(2) lexes_plain [of "limit_text l off"] by simp
qed (use assms in \<open>auto simp: quote_lexes format_lexes lexes_plain\<close>)

lemma inlined_lexes:
  assumes "spaced fs" "list_all trusted_frag fs" "\<And>l off. limit_clause d [] l off = limit_text l off"
  shows "lexes (inlined d fs) (concat (map frag_tokens fs))"
  using assms(1,2)
proof (induction fs)
  case (Cons f fs)
  have rest: "lexes (inlined d fs) (concat (map frag_tokens fs))"
    using Cons by (simp add: spaced_Cons)
  have f: "lexes (frag_text d f) (frag_tokens f)" using Cons.prems by (intro frag_lexes assms(3)) simp
  show ?case
  proof (cases "quoted f")
    case True
    then show ?thesis
      using lexes_append [OF f rest] inlined_safe_rest [OF Cons.prems(1) True] by (auto simp: inlined_def)
  next
    case False
    then have "plain (frag_text d f)" "frag_tokens f = map TChar (frag_text d f)"
      using Cons.prems(2) limit_plain assms(3) by (cases f; auto)+
    then show ?thesis using lexes_plain_append [OF _ rest] by (simp add: inlined_def)
  qed
qed (simp add: inlined_def)

lemma compile_inline_lexes:
  assumes "trusted e" "\<And>l off. limit_clause d [] l off = limit_text l off"
  shows "lex_sql (fst (compile_dynamic d Inline e)) = Some (concat (map frag_tokens (template e)))"
proof -
  have "lexes (inlined d (template e)) (concat (map frag_tokens (template e)))"
    using assms by (intro inlined_lexes spaced_template) (auto simp: trusted_def)
  then have "lex_sql (inlined d (template e) @ []) = map_option ((@) (concat (map frag_tokens (template e)))) (lex_sql [])"
    unfolding lexes_def by (metis safe_rest.simps(1))
  then show ?thesis using compile_inline trusted_placeholder_free [OF assms(1)] by simp
qed

end

section \<open>Properties of the compiler\<close>

lemma pg_limit_text: "limit_clause (PostgresDialect fp) [] l off = limit_text l off"
  by (simp add: PostgresDialect_def pg_limit_clause_def limit_text_def Let_def)

text \<open>C5: the compile-time and the run-time path agree. For an expression without INSERT or UPDATE values and
  without explicit placeholders, whatever \<open>compile_static\<close> returns in Tuple mode, \<open>compile_dynamic\<close> returns
  in Sink mode: the same SQL text and the same parameters in the same order.\<close>

theorem sql_static_dynamic_agree:
  assumes "dml_free e" "placeholder_free e"
    and "compile_static (PostgresDialect fp) Tuple max_len e = Inr (s, params)"
  shows "compile_dynamic (PostgresDialect fp) Sink e = (s, Some params)"
  using assms pg.compile_tuple [of fp max_len e] pg.compile_sink [of e fp] dml_free_values [of e]
  by (simp split: if_splits)

theorem sql_static_dynamic_agree_witness:
  "let fp = \<lparr>float_to_chars = (\<lambda>_. ''0''), double_to_chars = (\<lambda>_. ''0'')\<rparr>;
       e = SelectExpr False [Literal (FV_bool True) []]
   in compile_static (PostgresDialect fp) Tuple 99 e = Inr (''SELECT $1'', [FV_bool True])
      \<and> compile_dynamic (PostgresDialect fp) Sink e = (''SELECT $1'', Some [FV_bool True])"
proof -
  let ?fp = "\<lparr>float_to_chars = (\<lambda>_. ''0''), double_to_chars = (\<lambda>_. ''0'')\<rparr>"
  let ?e = "SelectExpr False [Literal (FV_bool True) []]"
  have "decimal 1 = ''1''" by code_simp
  then have c: "compile_static (PostgresDialect ?fp) Tuple 99 ?e = Inr (''SELECT $1'', [FV_bool True])"
    by (simp add: pg.compile_tuple t_alias_def t_flag_def)
      (simp add: PostgresDialect_def pg_placeholder_def)
  have "dml_free ?e" "placeholder_free ?e"
    by (simp_all add: dml_free_def placeholder_free_def t_alias_def t_flag_def)
  from sql_static_dynamic_agree [OF this c] c show ?thesis by (simp add: Let_def)
qed

text \<open>C17: the run-time path binds every value once. In Sink mode, for every expression without explicit
  placeholders, INSERT and UPDATE included, the n-th placeholder of the text stands where the n-th value of the
  expression stands, and the packet holds these values in that order.\<close>

theorem sql_sink_binds_in_order:
  assumes "placeholder_free e"
  shows "compile_dynamic (PostgresDialect fp) Sink e
    = (numbered (PostgresDialect fp) 0 (template e), Some (frag_values (template e)))"
  by (rule pg.compile_sink [OF assms])

theorem sql_sink_binds_in_order_witness:
  "let fp = \<lparr>float_to_chars = (\<lambda>_. ''0''), double_to_chars = (\<lambda>_. ''0'')\<rparr>;
       e = InsertInto (insert_values (into (insert_into (Table_name ''t'')) [''a'']) [FV_bool True])
   in placeholder_free e
      \<and> snd (compile_dynamic (PostgresDialect fp) Sink e) = Some [FV_bool True]"
proof -
  let ?e = "InsertInto (insert_values (into (insert_into (Table_name ''t'')) [''a'']) [FV_bool True])"
  have p: "placeholder_free ?e"
    by (simp add: placeholder_free_def t_insert_def insert_values_def into_def insert_into_def t_name_def)
  then show ?thesis
    using sql_sink_binds_in_order [OF p]
    by (simp add: Let_def t_insert_def insert_values_def into_def insert_into_def t_name_def)
qed

text \<open>C1: no value can escape its quotes. The Inline text of an expression, read the way PostgreSQL reads it, is
  exactly the token sequence of its template: fixed text character by character, every identifier as one
  quoted identifier with the given name, and every string, character and byte value as one string literal. The
  expression has no floating-point value and no explicit placeholder, and the text that table definitions pass on
  verbatim (types, defaults and the like) has no quotes.\<close>

theorem sql_inline_lexes:
  assumes "trusted e"
  shows "lex_sql (fst (compile_dynamic (PostgresDialect fp) Inline e)) = Some (concat (map frag_tokens (template e)))"
  by (rule pg.compile_inline_lexes [OF assms pg_limit_text])

theorem sql_inline_lexes_witness:
  "let fp = \<lparr>float_to_chars = (\<lambda>_. ''0''), double_to_chars = (\<lambda>_. ''0'')\<rparr>;
       e = BinaryExpr (ColumnRef (Column ''a'' [] [])) OpEqual (Literal (FV_string [CHR 0x27, CHR '';'']) [])
   in trusted e
      \<and> lex_sql (fst (compile_dynamic (PostgresDialect fp) Inline e))
        = Some ([TChar CHR ''('', TIdent ''a''] @ map TChar '' = '' @ [TString [CHR 0x27, CHR '';''], TChar CHR '')''])"
proof -
  let ?e = "BinaryExpr (ColumnRef (Column ''a'' [] [])) OpEqual (Literal (FV_string [CHR 0x27, CHR '';'']) [])"
  have t: "trusted ?e" by (simp add: trusted_def t_alias_def t_qualifier_def)
  then show ?thesis
    using sql_inline_lexes [OF t] by (simp add: Let_def t_alias_def t_qualifier_def double_backslashes_def)
qed

lemma double_backslashes_eq: "double_backslashes v = v \<longleftrightarrow> backslash \<notin> set v"
proof
  have len: "length v + count_list v backslash = length (double_backslashes v)"
    by (induction v) (auto simp: double_backslashes_def)
  assume "double_backslashes v = v"
  with len show "backslash \<notin> set v" by (simp add: count_list_0_iff)
next
  assume "backslash \<notin> set v"
  then show "double_backslashes v = v" by (induction v) (auto simp: double_backslashes_def)
qed

text \<open>C39: a string literal written by the dialect comes back from PostgreSQL as the value it was written for
  exactly when the value has no backslash; each backslash comes back doubled.\<close>

theorem sql_string_literal_value:
  "\<exists>v'. lex_sql (format_value (PostgresDialect fp) [] (FV_string v)) = Some [TString v']
     \<and> (v' = v \<longleftrightarrow> backslash \<notin> set v)"
proof -
  have "lexes (format_value (PostgresDialect fp) [] (FV_string v)) [TString (double_backslashes v)]"
    using pg.format_lexes [of "FV_string v" fp] by simp
  then have "lex_sql (format_value (PostgresDialect fp) [] (FV_string v) @ []) = Some [TString (double_backslashes v)]"
    unfolding lexes_def by (metis lex_sql.simps(1) option.map(2) append_Nil2 safe_rest.simps(1))
  then show ?thesis using double_backslashes_eq [of v] by auto
qed

lemma slots_t_list: "slots (t_list fs) = sum_list (map slots fs)"
  by (induction fs rule: t_list.induct) auto

lemma slots_insert: "slots (t_insert i) = sum_list (map length (ins_rows i))"
proof -
  have "slots (t_table t) = 0" for t by (cases t rule: t_table.cases) (simp_all add: t_name_def)
  then show ?thesis
    by (simp add: t_insert_def slots_t_list comp_def sum_list_triv)
qed

text \<open>In Tuple mode an INSERT writes one placeholder per value and returns no parameter at all.\<close>

theorem sql_tuple_insert_loses_params:
  "fst (run_state (visit (PostgresDialect fp) Tuple (InsertInto i)) new_generator) = []
   \<and> param_count (snd (run_state (visit (PostgresDialect fp) Tuple (InsertInto i)) new_generator))
     = sum_list (map length (ins_rows i))"
  by (simp add: run_insert pg.run_tuple new_generator_def slots_insert)

text \<open>In Sink mode an explicit placeholder and a bound literal are numbered independently, so that both are
  written as the first parameter, while the packet holds the literal only.\<close>

theorem sql_sink_placeholder_collision:
  "compile_dynamic (PostgresDialect fp) Sink (BinaryExpr ParamPlaceholder op (Literal v []))
   = (''($1'' @ binary_text op @ ''$1)'', Some [v])"
proof -
  have "decimal 1 = ''1''" by code_simp
  then show ?thesis
    by (simp add: compile_dynamic_def visits_run [OF visit_template] run_slot new_generator_def t_alias_def
        del: visit.simps)
      (simp add: PostgresDialect_def pg_placeholder_def)
qed

text \<open>The text does not determine the tree. \<open>is_null(!x)\<close> and \<open>!is_null(x)\<close> are written alike, and so are
  the two ways to nest set operations, although their meanings differ.\<close>

theorem sql_text_ambiguous:
  "run_state (visit d m (is_null (operator_not x))) g = run_state (visit d m (operator_not (is_null x))) g
   \<and> run_state (visit d m (except p (except q r))) g = run_state (visit d m (except (except p q) r)) g"
  by (simp add: visits_run [OF visit_template] is_null_def operator_not_def except_def del: visit.simps)

text \<open>A \<open>DbType\<close> constraint of a compile-time field, which is to override the inferred SQL type, has no
  effect on CREATE TABLE.\<close>

theorem sql_static_db_type_ignored:
  "visit_static_field d (s\<lparr>ss_constraints := DbType ty # cs\<rparr>) = visit_static_field d (s\<lparr>ss_constraints := cs\<rparr>)"
  by (simp add: visit_static_field_def ss_primary_key_def ss_nullable_def ss_unique_def)

end
