(* ===== verification/Window_Sorter.thy ===== *)
theory Window_Sorter
  imports Menagerie_Prelude "HOL-Library.Multiset"
begin

text \<open>
  The streaming sorter of \<open>src/common/algorithms-bowerbird/sliding_window_sorter/sliding_window_sorter.hpp\<close>.
  Entries are collected into batches, each batch is sorted and merged into a sorted window, and the front of the
  window goes to the consumer once the window is full.

  The comparator is a strict weak ordering, as the standard algorithms ask. \<open>std::merge\<close> and
  \<open>std::inplace_merge\<close> are stable and hence functions; \<open>std::upper_bound\<close> is the partition point;
  \<open>std::sort\<close> may order equivalent entries in any way and is the parameter \<open>std_sort\<close>. The capacity of the
  window's vector, which the standard leaves open, is the parameter \<open>cap\<close>. The calls of the consumer are
  recorded in the state.
\<close>

record 'a SlidingWindowConfig =
  window_size :: nat
  batch_size :: nat
  enable_sorting :: bool
  comparator :: "'a \<Rightarrow> 'a \<Rightarrow> bool"
  use_inplace_merge :: bool
  merge_threshold :: nat

record 'a SlidingWindowSorter =
  config :: "'a SlidingWindowConfig"
  sorted_window :: "'a list"
  new_entries :: "'a list"
  consumer_calls :: "'a list list"
  total_processed :: nat
  merge_operations :: nat
  sort_operations :: nat

record 'a std_env =
  std_sort :: "('a \<Rightarrow> 'a \<Rightarrow> bool) \<Rightarrow> 'a list \<Rightarrow> 'a list"
  cap :: "'a SlidingWindowSorter \<Rightarrow> nat"

section \<open>The standard algorithms\<close>

fun std_merge :: "('a \<Rightarrow> 'a \<Rightarrow> bool) \<Rightarrow> 'a list \<Rightarrow> 'a list \<Rightarrow> 'a list" where
  "std_merge lt [] ys = ys"
| "std_merge lt (x # xs) [] = x # xs"
| "std_merge lt (x # xs) (y # ys) =
     (if lt y x then y # std_merge lt (x # xs) ys else x # std_merge lt xs (y # ys))"

definition std_inplace_merge :: "('a \<Rightarrow> 'a \<Rightarrow> bool) \<Rightarrow> nat \<Rightarrow> 'a list \<Rightarrow> 'a list" where
  "std_inplace_merge lt middle xs = std_merge lt (take middle xs) (drop middle xs)"

definition upper_bound :: "('a \<Rightarrow> 'a \<Rightarrow> bool) \<Rightarrow> 'a \<Rightarrow> 'a list \<Rightarrow> nat" where
  "upper_bound lt key xs = length (takeWhile (\<lambda>x. \<not> lt key x) xs)"

lemma upper_bound_le: "upper_bound lt key xs \<le> length xs"
  by (simp add: upper_bound_def length_takeWhile_le)

section \<open>The sorter\<close>

function insertion_loop :: "('a \<Rightarrow> 'a \<Rightarrow> bool) \<Rightarrow> 'a list \<Rightarrow> nat \<Rightarrow> 'a list" where
  "insertion_loop lt xs it =
     (if it < length xs then
        let key = xs ! it;
            pos = upper_bound lt key (take it xs)
        in insertion_loop lt (take pos xs @ [key] @ drop pos (take it xs) @ drop (it + 1) xs) (it + 1)
      else xs)"
  by pat_completeness auto
termination
proof (relation "measure (\<lambda>(lt, xs, it). length xs - it)", goal_cases)
  case (2 lt xs it key pos)
  then show ?case using upper_bound_le [of lt "xs ! it" "take it xs"] by simp
qed simp

declare insertion_loop.simps [simp del]

definition insertion_sort :: "('a \<Rightarrow> 'a \<Rightarrow> bool) \<Rightarrow> 'a list \<Rightarrow> 'a list" where
  "insertion_sort lt xs = insertion_loop lt xs 1"

definition new_sorter :: "'a SlidingWindowConfig \<Rightarrow> 'a SlidingWindowSorter" where
  "new_sorter cfg =
     \<lparr>config = cfg, sorted_window = [], new_entries = [], consumer_calls = [],
      total_processed = 0, merge_operations = 0, sort_operations = 0\<rparr>"

definition should_process :: "'a SlidingWindowSorter \<Rightarrow> bool" where
  "should_process s = (length (new_entries s) \<ge> batch_size (config s))"

definition can_use_inplace_merge :: "'a std_env \<Rightarrow> 'a SlidingWindowSorter \<Rightarrow> bool" where
  "can_use_inplace_merge env s =
     (cap env s \<ge> length (sorted_window s) + length (new_entries s))"

definition perform_inplace_merge :: "'a SlidingWindowSorter \<Rightarrow> 'a SlidingWindowSorter" where
  "perform_inplace_merge s =
     (let old_size = length (sorted_window s);
          w = sorted_window s @ new_entries s
      in s\<lparr>sorted_window := std_inplace_merge (comparator (config s)) old_size w\<rparr>)"

definition perform_standard_merge :: "'a SlidingWindowSorter \<Rightarrow> 'a SlidingWindowSorter" where
  "perform_standard_merge s =
     s\<lparr>sorted_window := std_merge (comparator (config s)) (sorted_window s) (new_entries s)\<rparr>"

definition merge_with_window :: "'a std_env \<Rightarrow> 'a SlidingWindowSorter \<Rightarrow> 'a SlidingWindowSorter" where
  "merge_with_window env s =
     (let s' = (if use_inplace_merge (config s) \<and> can_use_inplace_merge env s then perform_inplace_merge s
                else perform_standard_merge s)
      in s'\<lparr>new_entries := []\<rparr>)"

definition sort_and_merge :: "'a std_env \<Rightarrow> 'a SlidingWindowSorter \<Rightarrow> 'a SlidingWindowSorter" where
  "sort_and_merge env s =
     (if new_entries s = [] then s
      else
        let lt = comparator (config s);
            s1 = s\<lparr>new_entries := (if length (new_entries s) \<le> merge_threshold (config s)
                                    then insertion_sort lt (new_entries s)
                                    else std_sort env lt (new_entries s))\<rparr>;
            s2 = s1\<lparr>sort_operations := sort_operations s1 + 1\<rparr>
        in if sorted_window s2 = [] then s2\<lparr>sorted_window := new_entries s2, new_entries := []\<rparr>
           else (let s3 = merge_with_window env s2 in s3\<lparr>merge_operations := merge_operations s3 + 1\<rparr>))"

definition calculate_output_count :: "'a SlidingWindowSorter \<Rightarrow> nat" where
  "calculate_output_count s =
     (if length (sorted_window s) < window_size (config s) then 0
      else
        let excess = length (sorted_window s) - window_size (config s)
        in max excess (batch_size (config s)))"

definition output_entries :: "nat \<Rightarrow> 'a SlidingWindowSorter \<Rightarrow> 'a SlidingWindowSorter" where
  "output_entries cnt s =
     (if cnt = 0 \<or> sorted_window s = [] then s
      else
        let n = min cnt (length (sorted_window s));
            output = take n (sorted_window s)
        in s\<lparr>sorted_window := drop n (sorted_window s),
             consumer_calls := consumer_calls s @ [output],
             total_processed := total_processed s + length output\<rparr>)"

definition maintain_window_size :: "'a SlidingWindowSorter \<Rightarrow> 'a SlidingWindowSorter" where
  "maintain_window_size s =
     (if length (sorted_window s) > window_size (config s) then
        let excess = length (sorted_window s) - window_size (config s)
        in s\<lparr>sorted_window := drop excess (sorted_window s)\<rparr>
      else s)"

definition process_batch :: "'a std_env \<Rightarrow> bool \<Rightarrow> 'a SlidingWindowSorter \<Rightarrow> 'a SlidingWindowSorter" where
  "process_batch env force_all s =
     (if new_entries s = [] \<and> sorted_window s = [] then s
      else
        let s1 = (if enable_sorting (config s) then sort_and_merge env s
                  else s\<lparr>sorted_window := sorted_window s @ new_entries s, new_entries := []\<rparr>);
            output_count = (if force_all then length (sorted_window s1) else calculate_output_count s1);
            s2 = (if output_count > 0 then output_entries output_count s1 else s1)
        in maintain_window_size s2)"

definition add_entries :: "'a std_env \<Rightarrow> 'a list \<Rightarrow> 'a SlidingWindowSorter \<Rightarrow> 'a SlidingWindowSorter" where
  "add_entries env entries s =
     (if entries = [] then s
      else
        let s' = s\<lparr>new_entries := new_entries s @ entries\<rparr>
        in if should_process s' then process_batch env False s' else s')"

definition add_entry :: "'a std_env \<Rightarrow> 'a \<Rightarrow> 'a SlidingWindowSorter \<Rightarrow> 'a SlidingWindowSorter" where
  "add_entry env entry s =
     (let s' = s\<lparr>new_entries := new_entries s @ [entry]\<rparr>
      in if should_process s' then process_batch env False s' else s')"

definition flush :: "'a std_env \<Rightarrow> 'a SlidingWindowSorter \<Rightarrow> 'a SlidingWindowSorter" where
  "flush env s = (if new_entries s \<noteq> [] \<or> sorted_window s \<noteq> [] then process_batch env True s else s)"

definition reconfigure ::
    "'a std_env \<Rightarrow> 'a SlidingWindowConfig \<Rightarrow> 'a SlidingWindowSorter \<Rightarrow> 'a SlidingWindowSorter" where
  "reconfigure env new_config s = (flush env s)\<lparr>config := new_config\<rparr>"

section \<open>Orderings and the two sorting routines\<close>

definition strict_weak :: "('a \<Rightarrow> 'a \<Rightarrow> bool) \<Rightarrow> bool" where
  "strict_weak lt \<longleftrightarrow>
     (\<forall>x. \<not> lt x x) \<and> (\<forall>x y z. lt x y \<longrightarrow> lt y z \<longrightarrow> lt x z)
     \<and> (\<forall>x y z. lt x z \<longrightarrow> lt x y \<or> lt y z)"

text \<open>Sorted: no entry is ordered before an earlier one.\<close>

abbreviation ordered :: "('a \<Rightarrow> 'a \<Rightarrow> bool) \<Rightarrow> 'a list \<Rightarrow> bool" where
  "ordered lt \<equiv> sorted_wrt (\<lambda>x y. \<not> lt y x)"

definition std_env_ok :: "'a std_env \<Rightarrow> bool" where
  "std_env_ok env \<longleftrightarrow>
     (\<forall>lt xs. strict_weak lt \<longrightarrow> ordered lt (std_sort env lt xs) \<and> mset (std_sort env lt xs) = mset xs)"

lemma mset_merge [simp]: "mset (std_merge lt xs ys) = mset xs + mset ys"
  by (induction lt xs ys rule: std_merge.induct) auto

lemma set_merge [simp]: "set (std_merge lt xs ys) = set xs \<union> set ys"
  by (metis mset_merge set_mset_mset set_mset_union)

lemma swo_irrefl: "strict_weak lt \<Longrightarrow> \<not> lt x x"
  by (simp add: strict_weak_def)

lemma swo_trans: "strict_weak lt \<Longrightarrow> lt x y \<Longrightarrow> lt y z \<Longrightarrow> lt x z"
  unfolding strict_weak_def by blast

lemma swo_cotrans: "strict_weak lt \<Longrightarrow> lt x z \<Longrightarrow> \<not> lt x y \<Longrightarrow> lt y z"
  unfolding strict_weak_def by blast

lemma swo_asym: "strict_weak lt \<Longrightarrow> lt x y \<Longrightarrow> \<not> lt y x"
  unfolding strict_weak_def by blast

lemma ordered_merge:
  assumes swo: "strict_weak lt" and "ordered lt xs" "ordered lt ys"
  shows "ordered lt (std_merge lt xs ys)"
  using assms(2,3)
proof (induction xs arbitrary: ys)
  case (Cons x xs)
  note outer = Cons
  show ?case
    using Cons.prems(2)
  proof (induction ys)
    case Nil
    then show ?case using outer by simp
  next
    case (Cons y ys)
    show ?case
    proof (cases "lt y x")
      case True
      then have "\<forall>z \<in> set xs. \<not> lt z y"
        using outer(2) swo_trans [OF swo, where y = y and z = x] by auto
      with True Cons outer show ?thesis by (auto simp: swo_asym [OF swo])
    next
      case False
      then have "\<forall>z \<in> set ys. \<not> lt z x"
        using Cons.prems swo_cotrans [OF swo, where y = y and z = x] by auto
      with False Cons outer show ?thesis by auto
    qed
  qed
qed simp

lemma inplace_merge_append [simp]: "std_inplace_merge lt (length xs) (xs @ ys) = std_merge lt xs ys"
  by (simp add: std_inplace_merge_def)

text \<open>One round of insertion sort: the sorted prefix grows by one entry.\<close>

lemma upper_bound_splits:
  assumes swo: "strict_weak lt" and "ordered lt xs"
  shows "ordered lt (take (upper_bound lt key xs) xs @ key # drop (upper_bound lt key xs) xs)"
proof -
  define A where "A = takeWhile (\<lambda>x. \<not> lt key x) xs"
  define B where "B = dropWhile (\<lambda>x. \<not> lt key x) xs"
  have split: "take (upper_bound lt key xs) xs = A" "drop (upper_bound lt key xs) xs = B"
    unfolding upper_bound_def A_def B_def by (rule takeWhile_eq_take [symmetric], rule dropWhile_eq_drop [symmetric])
  have "ordered lt (A @ B)" using assms(2) by (simp add: A_def B_def)
  moreover have "\<forall>x \<in> set A. \<not> lt key x" 
    using set_takeWhileD [of _ "\<lambda>x. \<not> lt key x" xs] unfolding A_def by blast
  moreover have "\<forall>x \<in> set B. \<not> lt x key"
  proof (cases B)
    case (Cons z zs)
    then have "lt key z" using hd_dropWhile [of "\<lambda>x. \<not> lt key x" xs] by (simp add: B_def)
    moreover have "\<forall>x \<in> set zs. \<not> lt x z" using \<open>ordered lt (A @ B)\<close> Cons by (simp add: sorted_wrt_append)
    ultimately show ?thesis
      using swo_asym [OF swo, of key z] swo_trans [OF swo, where y = key and z = z] Cons by auto
  qed simp
  ultimately show ?thesis unfolding split by (simp add: sorted_wrt_append)
qed

lemma insertion_loop_ordered:
  assumes "strict_weak lt" "ordered lt (take it xs)" "it \<le> length xs"
  shows "ordered lt (insertion_loop lt xs it) \<and> mset (insertion_loop lt xs it) = mset xs"
  using assms
proof (induction lt xs it rule: insertion_loop.induct)
  case (1 lt xs it)
  show ?case
  proof (cases "it < length xs")
    case True
    define front where "front = take it xs"
    define pos where "pos = upper_bound lt (xs ! it) front"
    define ys where "ys = take pos xs @ [xs ! it] @ drop pos (take it xs) @ drop (it + 1) xs"
    have pos: "pos \<le> it" using upper_bound_le [of lt "xs ! it" front] True by (simp add: pos_def front_def)
    then have ys: "ys = (take pos front @ xs ! it # drop pos front) @ drop (it + 1) xs"
      by (simp add: ys_def front_def min_def)
    have "take (it + 1) ys = take pos front @ xs ! it # drop pos front"
      unfolding ys using True pos by (simp add: front_def Suc_diff_le)
    then have "ordered lt (take (it + 1) ys)"
      using upper_bound_splits [of lt front "xs ! it"] 1(2,3) by (simp add: pos_def front_def)
    moreover have "it + 1 \<le> length ys" using True pos unfolding ys by (simp add: front_def)
    moreover have "mset ys = mset xs"
    proof -
      have "mset ys = mset (front @ xs ! it # drop (Suc it) xs)"
        using mset_append [of "take pos front" "drop pos front"] unfolding ys by simp
      also have "front @ xs ! it # drop (Suc it) xs = xs"
        unfolding front_def by (rule id_take_nth_drop [OF True, symmetric])
      finally show ?thesis .
    qed
    moreover have "insertion_loop lt xs it = insertion_loop lt ys (it + 1)"
      using True by (subst insertion_loop.simps) (simp add: Let_def ys_def pos_def front_def)
    moreover have "strict_weak lt \<Longrightarrow> ordered lt (take (it + 1) ys) \<Longrightarrow> it + 1 \<le> length ys \<Longrightarrow>
        ordered lt (insertion_loop lt ys (it + 1)) \<and> mset (insertion_loop lt ys (it + 1)) = mset ys"
      using 1(1) [OF True refl refl] by (simp add: ys_def pos_def front_def)
    ultimately show ?thesis using 1(2) by simp
  next
    case False
    with 1 show ?thesis by (simp add: insertion_loop.simps)
  qed
qed

lemma insertion_sort_ordered:
  assumes "strict_weak lt"
  shows "ordered lt (insertion_sort lt xs)" "mset (insertion_sort lt xs) = mset xs"
proof -
  consider "xs = []" | x where "xs = [x]" | x y zs where "xs = x # y # zs" by (metis list.exhaust)
  then have "ordered lt (insertion_sort lt xs) \<and> mset (insertion_sort lt xs) = mset xs"
  proof cases
    case 1
    then show ?thesis by (simp add: insertion_sort_def insertion_loop.simps)
  qed (use insertion_loop_ordered [OF assms, of 1 xs] in \<open>simp_all add: insertion_sort_def\<close>)
  then show "ordered lt (insertion_sort lt xs)" "mset (insertion_sort lt xs) = mset xs" by auto
qed

section \<open>One batch\<close>

definition output_count :: "bool \<Rightarrow> 'a SlidingWindowConfig \<Rightarrow> nat \<Rightarrow> nat" where
  "output_count force_all cfg len =
     (if force_all then len
      else if len < window_size cfg then 0
      else min len (max (len - window_size cfg) (batch_size cfg)))"

lemma merge_with_window_merges:
  "merge_with_window env s =
     s\<lparr>sorted_window := std_merge (comparator (config s)) (sorted_window s) (new_entries s), new_entries := []\<rparr>"
  by (simp add: merge_with_window_def perform_inplace_merge_def perform_standard_merge_def)

lemma sort_and_merge_window:
  assumes "std_env_ok env" "strict_weak (comparator (config s))" "ordered (comparator (config s)) (sorted_window s)"
  shows "\<exists>w k l. sort_and_merge env s =
           s\<lparr>sorted_window := w, new_entries := [], merge_operations := k, sort_operations := l\<rparr>
         \<and> ordered (comparator (config s)) w \<and> mset w = mset (sorted_window s) + mset (new_entries s)"
proof (cases "new_entries s = []")
  case True
  then show ?thesis
    using assms(3) by (intro exI [of _ "sorted_window s"] exI [of _ "merge_operations s"] exI [of _ "sort_operations s"])
      (simp add: sort_and_merge_def)
next
  case False
  define lt where "lt = comparator (config s)"
  define b where "b = (if length (new_entries s) \<le> merge_threshold (config s) then insertion_sort lt (new_entries s)
                       else std_sort env lt (new_entries s))"
  have b: "ordered lt b" "mset b = mset (new_entries s)"
    using assms(1,2) insertion_sort_ordered [of lt "new_entries s"]
    unfolding b_def lt_def std_env_ok_def by (simp_all split: if_split)
  have "sort_and_merge env s =
      s\<lparr>sorted_window := std_merge lt (sorted_window s) b, new_entries := [],
        merge_operations := (if sorted_window s = [] then merge_operations s else merge_operations s + 1),
        sort_operations := sort_operations s + 1\<rparr>"
    using False unfolding b_def lt_def by (simp add: sort_and_merge_def merge_with_window_merges Let_def)
  moreover have "ordered lt (std_merge lt (sorted_window s) b)"
    using assms(2,3) b(1) by (simp add: ordered_merge lt_def)
  moreover have "mset (std_merge lt (sorted_window s) b) = mset (sorted_window s) + mset (new_entries s)"
    using b(2) by simp
  ultimately show ?thesis unfolding lt_def by blast
qed

lemma output_count_leaves: "len - output_count force_all cfg len \<le> window_size cfg"
  by (cases "len < window_size cfg") (auto simp: output_count_def)

lemma output_count_le: "output_count force_all cfg len \<le> len"
  by (simp add: output_count_def)

lemma maintain_small: "length (sorted_window s) \<le> window_size (config s) \<Longrightarrow> maintain_window_size s = s"
  by (simp add: maintain_window_size_def)

text \<open>What a batch does once its entries are in the window \<open>w\<close>: \<open>maintain_window_size\<close> never drops anything.\<close>

lemma output_and_maintain:
  assumes "c = (if force_all then length (sorted_window s) else calculate_output_count s)"
    and "n = output_count force_all (config s) (length (sorted_window s))"
  shows "\<exists>cs. maintain_window_size (if c > 0 then output_entries c s else s)
           = s\<lparr>sorted_window := drop n (sorted_window s), consumer_calls := consumer_calls s @ cs,
               total_processed := total_processed s + n\<rparr>
         \<and> concat cs = take n (sorted_window s)"
proof (cases "c = 0 \<or> sorted_window s = []")
  case True
  then have "n = 0"
    using assms by (auto simp: output_count_def calculate_output_count_def Let_def split: if_splits)
  moreover have "length (sorted_window s) \<le> window_size (config s)"
    using output_count_leaves [of "length (sorted_window s)" force_all "config s"] assms(2) \<open>n = 0\<close> by simp
  ultimately show ?thesis
    using True by (intro exI [of _ "[]"]) (auto simp: output_entries_def maintain_small)
next
  case False
  then have "n = min c (length (sorted_window s))"
    using assms by (auto simp: output_count_def calculate_output_count_def Let_def min.commute split: if_splits)
  moreover have "length (sorted_window s) - n \<le> window_size (config s)"
    using output_count_leaves assms(2) by simp
  ultimately show ?thesis
    using False by (intro exI [of _ "[take n (sorted_window s)]"])
      (simp add: output_entries_def maintain_small Let_def)
qed

text \<open>One pass of \<open>process_batch\<close>: the window \<open>w\<close> before output holds all entries; its front goes out.\<close>

lemma process_batch_pass:
  assumes "std_env_ok env" "strict_weak (comparator (config s))"
    and "enable_sorting (config s) \<Longrightarrow> ordered (comparator (config s)) (sorted_window s)"
  shows "\<exists>w n. n = output_count force_all (config s) (length w)
         \<and> mset w = mset (sorted_window s) + mset (new_entries s)
         \<and> (enable_sorting (config s) \<longrightarrow> ordered (comparator (config s)) w)
         \<and> (\<not> enable_sorting (config s) \<longrightarrow> w = sorted_window s @ new_entries s)
         \<and> sorted_window (process_batch env force_all s) = drop n w
         \<and> new_entries (process_batch env force_all s) = []
         \<and> concat (consumer_calls (process_batch env force_all s)) = concat (consumer_calls s) @ take n w
         \<and> total_processed (process_batch env force_all s) = total_processed s + n
         \<and> config (process_batch env force_all s) = config s"
proof (cases "new_entries s = [] \<and> sorted_window s = []")
  case True
  then show ?thesis
    by (intro exI [of _ "[]"] exI [of _ 0]) (simp add: process_batch_def output_count_def)
next
  case False
  define s1 where "s1 = (if enable_sorting (config s) then sort_and_merge env s
                  else s\<lparr>sorted_window := sorted_window s @ new_entries s, new_entries := []\<rparr>)"
  define w where "w = sorted_window s1"
  define n where "n = output_count force_all (config s) (length w)"
  have s1: "mset w = mset (sorted_window s) + mset (new_entries s)"
    "enable_sorting (config s) \<longrightarrow> ordered (comparator (config s)) w"
    "\<not> enable_sorting (config s) \<longrightarrow> w = sorted_window s @ new_entries s"
    "new_entries s1 = []" "consumer_calls s1 = consumer_calls s" "total_processed s1 = total_processed s"
    "config s1 = config s"
    using sort_and_merge_window [OF assms(1,2)] assms(3) by (auto simp: s1_def w_def split: if_splits)
  have "process_batch env force_all s
      = (let c = (if force_all then length (sorted_window s1) else calculate_output_count s1)
         in maintain_window_size (if c > 0 then output_entries c s1 else s1))"
    using False by (simp only: process_batch_def s1_def [symmetric] Let_def if_False)
  then obtain cs where "process_batch env force_all s
      = s1\<lparr>sorted_window := drop n w, consumer_calls := consumer_calls s1 @ cs,
           total_processed := total_processed s1 + n\<rparr>" "concat cs = take n w"
    using output_and_maintain [OF refl refl, of force_all s1] unfolding n_def w_def s1(7) Let_def by auto
  then show ?thesis using s1 n_def by (intro exI [of _ w] exI [of _ n]) simp
qed

section \<open>Sequences of calls\<close>

datatype 'a sorter_call =
    Call_add_entries "'a list"
  | Call_add_entry 'a
  | Call_flush
  | Call_reconfigure "'a SlidingWindowConfig"

fun apply_sorter_call :: "'a std_env \<Rightarrow> 'a SlidingWindowSorter \<Rightarrow> 'a sorter_call \<Rightarrow> 'a SlidingWindowSorter" where
  "apply_sorter_call env s (Call_add_entries xs) = add_entries env xs s"
| "apply_sorter_call env s (Call_add_entry x) = add_entry env x s"
| "apply_sorter_call env s Call_flush = flush env s"
| "apply_sorter_call env s (Call_reconfigure cfg) = reconfigure env cfg s"

fun arrived :: "'a sorter_call \<Rightarrow> 'a list" where
  "arrived (Call_add_entries xs) = xs"
| "arrived (Call_add_entry x) = [x]"
| "arrived _ = []"

fun configs :: "'a sorter_call \<Rightarrow> 'a SlidingWindowConfig list" where
  "configs (Call_reconfigure cfg) = [cfg]"
| "configs _ = []"

fun is_add :: "'a sorter_call \<Rightarrow> bool" where
  "is_add (Call_add_entries xs) = True"
| "is_add (Call_add_entry x) = True"
| "is_add _ = False"

lemma add_entry_add_entries: "add_entry env x s = add_entries env [x] s"
  by (simp add: add_entry_def add_entries_def)

text \<open>The invariant: \<open>hist\<close> is everything that has arrived.\<close>

definition sorter_ok :: "'a list \<Rightarrow> 'a SlidingWindowSorter \<Rightarrow> bool" where
  "sorter_ok hist s \<longleftrightarrow>
     strict_weak (comparator (config s))
     \<and> (enable_sorting (config s) \<longrightarrow> ordered (comparator (config s)) (sorted_window s))
     \<and> mset (concat (consumer_calls s)) + mset (sorted_window s) + mset (new_entries s) = mset hist
     \<and> total_processed s = length (concat (consumer_calls s))
     \<and> length (sorted_window s) \<le> window_size (config s)
     \<and> (new_entries s = [] \<or> length (new_entries s) < batch_size (config s))"

lemma sorter_ok_batch:
  assumes "std_env_ok env" and s: "strict_weak (comparator (config s))"
    "enable_sorting (config s) \<longrightarrow> ordered (comparator (config s)) (sorted_window s)"
    "mset (concat (consumer_calls s)) + mset (sorted_window s) + mset (new_entries s) = mset hist"
    "total_processed s = length (concat (consumer_calls s))"
  shows "sorter_ok hist (process_batch env force_all s)"
    and "config (process_batch env force_all s) = config s"
    and "new_entries (process_batch env force_all s) = []"
    and "force_all \<Longrightarrow> sorted_window (process_batch env force_all s) = []"
    and "\<not> enable_sorting (config s) \<Longrightarrow>
      concat (consumer_calls (process_batch env force_all s)) @ sorted_window (process_batch env force_all s)
      = concat (consumer_calls s) @ sorted_window s @ new_entries s"
proof -
  define s' where "s' = process_batch env force_all s"
  from process_batch_pass [OF assms(1) s(1), of force_all] s(2) obtain w n
    where n: "n = output_count force_all (config s) (length w)"
      and w: "mset w = mset (sorted_window s) + mset (new_entries s)"
      "enable_sorting (config s) \<longrightarrow> ordered (comparator (config s)) w"
      "\<not> enable_sorting (config s) \<longrightarrow> w = sorted_window s @ new_entries s"
      and s': "sorted_window s' = drop n w" "new_entries s' = []"
      "concat (consumer_calls s') = concat (consumer_calls s) @ take n w"
      "total_processed s' = total_processed s + n" "config s' = config s"
    unfolding s'_def by blast
  have tw: "mset (take n w) + mset (drop n w) = mset w" by (metis append_take_drop_id mset_append)
  have "n \<le> length w" "length w - n \<le> window_size (config s)"
    unfolding n by (rule output_count_le, rule output_count_leaves)
  moreover have "ordered (comparator (config s)) (drop n w)" if "enable_sorting (config s)"
    using w(2) that by (simp add: sorted_wrt_drop)
  moreover have "mset (concat (consumer_calls s')) + mset (sorted_window s') + mset (new_entries s') = mset hist"
    using s(3) tw unfolding s' w(1) by (simp add: ac_simps)
  ultimately show "sorter_ok hist (process_batch env force_all s)"
    using s(1,4) unfolding sorter_ok_def s'_def [symmetric] by (simp add: s')
  show "force_all \<Longrightarrow> sorted_window (process_batch env force_all s) = []"
    using s'(1) n by (simp add: s'_def output_count_def)
  show "\<not> enable_sorting (config s) \<Longrightarrow>
      concat (consumer_calls (process_batch env force_all s)) @ sorted_window (process_batch env force_all s)
      = concat (consumer_calls s) @ sorted_window s @ new_entries s"
    using s'(1,3) w(3) append_take_drop_id [of n w] unfolding s'_def by (metis append_assoc)
qed (use process_batch_pass [OF assms(1) s(1), of force_all] s(2) in blast)+

lemma sorter_ok_add:
  assumes "std_env_ok env" "sorter_ok hist s"
  shows "sorter_ok (hist @ xs) (add_entries env xs s)" "config (add_entries env xs s) = config s"
    and "\<not> enable_sorting (config s) \<Longrightarrow>
      concat (consumer_calls (add_entries env xs s)) @ sorted_window (add_entries env xs s) @ new_entries (add_entries env xs s)
      = concat (consumer_calls s) @ sorted_window s @ new_entries s @ xs"
proof -
  let ?s = "s\<lparr>new_entries := new_entries s @ xs\<rparr>"
  have "mset (concat (consumer_calls ?s)) + mset (sorted_window ?s) + mset (new_entries ?s) = mset (hist @ xs)"
    using assms(2) by (auto simp: sorter_ok_def ac_simps)
  then have b: "sorter_ok (hist @ xs) (process_batch env False ?s)" "config (process_batch env False ?s) = config s"
    "new_entries (process_batch env False ?s) = []"
    "\<not> enable_sorting (config s) \<Longrightarrow> concat (consumer_calls (process_batch env False ?s))
       @ sorted_window (process_batch env False ?s) = concat (consumer_calls s) @ sorted_window s @ new_entries s @ xs"
    using sorter_ok_batch [OF assms(1), of ?s "hist @ xs" False] assms(2) by (simp_all add: sorter_ok_def)
  show "sorter_ok (hist @ xs) (add_entries env xs s)"
    using assms(2) b(1) by (auto simp: add_entries_def should_process_def sorter_ok_def Let_def ac_simps)
  show "config (add_entries env xs s) = config s"
    using b(2) by (simp add: add_entries_def Let_def)
  show "\<not> enable_sorting (config s) \<Longrightarrow>
      concat (consumer_calls (add_entries env xs s)) @ sorted_window (add_entries env xs s) @ new_entries (add_entries env xs s)
      = concat (consumer_calls s) @ sorted_window s @ new_entries s @ xs"
    using b(3,4) by (simp add: add_entries_def Let_def)
qed

lemma sorter_ok_flush:
  assumes "std_env_ok env" "sorter_ok hist s"
  shows "sorter_ok hist (flush env s)" "config (flush env s) = config s"
    and "sorted_window (flush env s) = []" "new_entries (flush env s) = []"
    and "\<not> enable_sorting (config s) \<Longrightarrow>
      concat (consumer_calls (flush env s)) = concat (consumer_calls s) @ sorted_window s @ new_entries s"
  using sorter_ok_batch [OF assms(1), of s hist True] assms(2) by (auto simp: flush_def sorter_ok_def)

lemma sorter_ok_reconfigure:
  assumes "std_env_ok env" "sorter_ok hist s" "strict_weak (comparator cfg)"
  shows "sorter_ok hist (reconfigure env cfg s)"
  using sorter_ok_flush [OF assms(1,2)] assms(3) by (simp add: reconfigure_def sorter_ok_def)

lemma sorter_ok_call:
  assumes "std_env_ok env" "sorter_ok hist s" "\<forall>cfg \<in> set (configs c). strict_weak (comparator cfg)"
  shows "sorter_ok (hist @ arrived c) (apply_sorter_call env s c)"
  using assms sorter_ok_add [OF assms(1,2)] sorter_ok_flush [OF assms(1,2)] sorter_ok_reconfigure [OF assms(1,2)]
  by (cases c) (simp_all add: add_entry_add_entries)

lemma sorter_ok_calls:
  assumes "std_env_ok env" "\<forall>cfg \<in> set (concat (map configs calls)). strict_weak (comparator cfg)" "sorter_ok hist s"
  shows "sorter_ok (hist @ concat (map arrived calls)) (foldl (apply_sorter_call env) s calls)"
  using assms(2,3)
proof (induction calls arbitrary: hist s)
  case (Cons c cs)
  then show ?case using sorter_ok_call [OF assms(1), of hist s c] Cons.IH [of "hist @ arrived c"] by simp
qed simp

lemma sorter_ok_new: "strict_weak (comparator cfg) \<Longrightarrow> sorter_ok [] (new_sorter cfg)"
  by (simp add: sorter_ok_def new_sorter_def)

text \<open>Without sorting, entries leave in the order they came.\<close>

definition in_line :: "'a SlidingWindowSorter \<Rightarrow> 'a list" where
  "in_line s = concat (consumer_calls s) @ sorted_window s @ new_entries s"

lemma fifo_calls:
  assumes "std_env_ok env" "\<forall>cfg \<in> set (concat (map configs calls)). strict_weak (comparator cfg) \<and> \<not> enable_sorting cfg"
    and "sorter_ok hist s" "\<not> enable_sorting (config s)"
  shows "in_line (foldl (apply_sorter_call env) s calls) = in_line s @ concat (map arrived calls)"
  using assms(2-4)
proof (induction calls arbitrary: hist s)
  case (Cons c cs)
  let ?s = "apply_sorter_call env s c"
  note a = sorter_ok_add [OF assms(1) Cons.prems(2)] and f = sorter_ok_flush [OF assms(1) Cons.prems(2)]
  have "sorter_ok (hist @ arrived c) ?s" using sorter_ok_call [OF assms(1) Cons.prems(2)] Cons.prems(1) by simp
  moreover have "\<not> enable_sorting (config ?s) \<and> in_line ?s = in_line s @ arrived c"
    using Cons.prems(1,3) a(2,3) f(2-5)
    by (cases c) (simp_all add: add_entry_add_entries in_line_def reconfigure_def)
  ultimately show ?case using Cons.IH [of "hist @ arrived c" ?s] Cons.prems(1) by simp
qed simp

section \<open>Sorted output\<close>

text \<open>No entry arrives after more than \<open>k\<close> entries that belong behind it.\<close>

definition displaced :: "('a \<Rightarrow> 'a \<Rightarrow> bool) \<Rightarrow> nat \<Rightarrow> 'a list \<Rightarrow> bool" where
  "displaced lt k xs \<longleftrightarrow> (\<forall>i < length xs. length (filter (lt (xs ! i)) (take i xs)) \<le> k)"

text \<open>Everything output so far is in order, nothing that is still here belongs before it, and each output entry
  has more than \<open>k\<close> entries that do not belong before it.\<close>

definition front_ok :: "('a \<Rightarrow> 'a \<Rightarrow> bool) \<Rightarrow> nat \<Rightarrow> 'a list \<Rightarrow> 'a list \<Rightarrow> 'a list \<Rightarrow> bool" where
  "front_ok lt k hist out rest \<longleftrightarrow>
     ordered lt out \<and> (\<forall>x \<in> set out. \<forall>y \<in> set rest. \<not> lt y x)
     \<and> (\<forall>x \<in> set out. k < length (filter (\<lambda>z. \<not> lt z x) hist))"

lemma front_ok_arrive:
  assumes swo: "strict_weak lt" and "displaced lt k (hist @ xs)" "front_ok lt k hist out rest"
  shows "front_ok lt k (hist @ xs) out (rest @ xs)"
proof -
  have "\<not> lt y x" if "x \<in> set out" "y \<in> set xs" for x y
  proof
    assume "lt y x"
    from \<open>y \<in> set xs\<close> obtain j where j: "j < length xs" "xs ! j = y" by (metis in_set_conv_nth)
    have "filter (\<lambda>z. \<not> lt z x) hist = filter (\<lambda>z. \<not> lt z x) (filter (lt y) hist)"
      using swo_cotrans [OF swo \<open>lt y x\<close>] by (simp, metis (mono_tags, lifting) filter_cong)
    then have "length (filter (\<lambda>z. \<not> lt z x) hist) \<le> length (filter (lt y) hist)"
      by (metis length_filter_le)
    also have "\<dots> \<le> length (filter (lt y) (take (length hist + j) (hist @ xs)))" by simp
    also have "\<dots> \<le> k" using assms(2) j unfolding displaced_def
      by (metis add_less_cancel_left length_append nth_append_length_plus)
    finally show False using assms(3) \<open>x \<in> set out\<close> unfolding front_ok_def by fastforce
  qed
  moreover have "k < length (filter (\<lambda>z. \<not> lt z x) (hist @ xs))" if "x \<in> set out" for x
    using assms(3) that unfolding front_ok_def by (simp add: trans_less_add1)
  ultimately show ?thesis using assms(3) unfolding front_ok_def by auto
qed

lemma front_ok_output:
  assumes swo: "strict_weak lt" and "front_ok lt k hist out w" "ordered lt w"
    and "mset out + mset w = mset hist" and n: "n \<le> length w" "n = 0 \<or> k \<le> length w - n"
  shows "front_ok lt k hist (out @ take n w) (drop n w)"
proof -
  have w: "ordered lt (take n w @ drop n w)" using assms(3) by simp
  have "k < length (filter (\<lambda>z. \<not> lt z x) hist)" if x: "x \<in> set (take n w)" for x
  proof -
    have "filter (\<lambda>z. \<not> lt z x) (drop n w) = drop n w"
      using w x by (simp add: sorted_wrt_append filter_id_conv del: append_take_drop_id)
    moreover have "0 < length (filter (\<lambda>z. \<not> lt z x) (take n w))"
      using x swo_irrefl [OF swo, of x] by (simp add: filter_empty_conv) blast
    ultimately have "length (drop n w) < length (filter (\<lambda>z. \<not> lt z x) (take n w @ drop n w))"
      by (simp del: append_take_drop_id)
    also have "\<dots> \<le> length (filter (\<lambda>z. \<not> lt z x) (out @ w))" by simp
    also have "\<dots> = length (filter (\<lambda>z. \<not> lt z x) hist)"
      using arg_cong [OF assms(4), of "\<lambda>M. size (filter_mset (\<lambda>z. \<not> lt z x) M)"]
      by (metis mset_append mset_filter size_mset)
    finally show ?thesis using n x by auto
  qed
  moreover have "ordered lt (out @ take n w)" "\<forall>x \<in> set (out @ take n w). \<forall>y \<in> set (drop n w). \<not> lt y x"
    using assms(2) w unfolding front_ok_def sorted_wrt_append
    by (auto dest: in_set_takeD in_set_dropD simp del: append_take_drop_id)
  ultimately show ?thesis using assms(2) unfolding front_ok_def by auto
qed

abbreviation sorter_front :: "nat \<Rightarrow> 'a list \<Rightarrow> 'a SlidingWindowSorter \<Rightarrow> bool" where
  "sorter_front k hist s \<equiv>
     front_ok (comparator (config s)) k hist (concat (consumer_calls s)) (sorted_window s @ new_entries s)"

lemma front_ok_rest: "set r = set r' \<Longrightarrow> front_ok lt k hist out r = front_ok lt k hist out r'"
  by (simp add: front_ok_def)

lemma front_ok_batch:
  assumes "std_env_ok env" and s: "strict_weak (comparator (config s))" "enable_sorting (config s)"
    "ordered (comparator (config s)) (sorted_window s)"
    "mset (concat (consumer_calls s)) + mset (sorted_window s) + mset (new_entries s) = mset hist"
    and k: "k = window_size (config s) - batch_size (config s)" and front: "sorter_front k hist s"
  shows "sorter_front k hist (process_batch env False s)"
    and "ordered (comparator (config s)) (concat (consumer_calls (process_batch env True s)))"
proof -
  have "\<exists>n w. n = output_count f (config s) (length w) \<and> ordered (comparator (config s)) w
      \<and> front_ok (comparator (config s)) k hist (concat (consumer_calls s)) w
      \<and> mset (concat (consumer_calls s)) + mset w = mset hist
      \<and> sorted_window (process_batch env f s) = drop n w \<and> new_entries (process_batch env f s) = []
      \<and> concat (consumer_calls (process_batch env f s)) = concat (consumer_calls s) @ take n w
      \<and> config (process_batch env f s) = config s" for f
  proof -
    from process_batch_pass [OF assms(1) s(1), of f] s(2,3) obtain w n
      where w: "mset w = mset (sorted_window s) + mset (new_entries s)" "ordered (comparator (config s)) w"
        and r: "n = output_count f (config s) (length w)"
        "sorted_window (process_batch env f s) = drop n w" "new_entries (process_batch env f s) = []"
        "concat (consumer_calls (process_batch env f s)) = concat (consumer_calls s) @ take n w"
        "config (process_batch env f s) = config s"
      by blast
    have "set w = set (sorted_window s @ new_entries s)" by (metis w(1) mset_append set_mset_mset)
    with front have "front_ok (comparator (config s)) k hist (concat (consumer_calls s)) w"
      using front_ok_rest by metis
    with w r s(4) show ?thesis by (intro exI [of _ n] exI [of _ w]) (simp add: add.assoc)
  qed
  note pass = this
  from pass [of False] obtain n w where p: "n = output_count False (config s) (length w)"
    "ordered (comparator (config s)) w" "front_ok (comparator (config s)) k hist (concat (consumer_calls s)) w"
    "mset (concat (consumer_calls s)) + mset w = mset hist"
    "sorted_window (process_batch env False s) = drop n w" "new_entries (process_batch env False s) = []"
    "concat (consumer_calls (process_batch env False s)) = concat (consumer_calls s) @ take n w"
    "config (process_batch env False s) = config s" by blast
  have "n \<le> length w" "n = 0 \<or> k \<le> length w - n"
    unfolding p(1) k by (rule output_count_le, auto simp: output_count_def)
  from front_ok_output [OF s(1) p(3,2,4) this] show "sorter_front k hist (process_batch env False s)"
    by (simp add: p(5-8))
  from pass [of True] show "ordered (comparator (config s)) (concat (consumer_calls (process_batch env True s)))"
    by (auto simp: output_count_def front_ok_def sorted_wrt_append)
qed

lemma front_ok_add:
  assumes "std_env_ok env" "sorter_ok hist s" "enable_sorting (config s)"
    and "k = window_size (config s) - batch_size (config s)" "displaced (comparator (config s)) k (hist @ xs)"
    and "sorter_front k hist s"
  shows "sorter_front k (hist @ xs) (add_entries env xs s)"
proof -
  let ?s = "s\<lparr>new_entries := new_entries s @ xs\<rparr>"
  have swo: "strict_weak (comparator (config s))" using assms(2) by (simp add: sorter_ok_def)
  have f: "sorter_front k (hist @ xs) ?s" using front_ok_arrive [OF swo assms(5,6)] by simp
  then have "sorter_front k (hist @ xs) (process_batch env False ?s)"
    using front_ok_batch(1) [OF assms(1), of ?s "hist @ xs" k] assms(2-4) by (auto simp: sorter_ok_def ac_simps)
  then show ?thesis using f assms(6) by (simp add: add_entries_def Let_def)
qed

lemma displaced_prefix: "displaced lt k (xs @ ys) \<Longrightarrow> displaced lt k xs"
  unfolding displaced_def
proof (intro allI impI)
  fix i
  assume d: "\<forall>i < length (xs @ ys). length (filter (lt ((xs @ ys) ! i)) (take i (xs @ ys))) \<le> k" and i: "i < length xs"
  from d [rule_format, of i] i show "length (filter (lt (xs ! i)) (take i xs)) \<le> k" by (simp add: nth_append)
qed

lemma front_ok_calls:
  assumes "std_env_ok env" "list_all is_add calls" "sorter_ok hist s" "enable_sorting (config s)"
    and "k = window_size (config s) - batch_size (config s)"
    and "displaced (comparator (config s)) k (hist @ concat (map arrived calls))" "sorter_front k hist s"
  shows "sorter_front k (hist @ concat (map arrived calls)) (foldl (apply_sorter_call env) s calls)
    \<and> config (foldl (apply_sorter_call env) s calls) = config s"
  using assms(2-7)
proof (induction calls arbitrary: hist s)
  case (Cons c cs)
  obtain xs where c: "apply_sorter_call env s c = add_entries env xs s" "arrived c = xs"
    using Cons.prems(1) by (cases c) (auto simp: add_entry_add_entries)
  have d: "displaced (comparator (config s)) k (hist @ xs)"
    using Cons.prems(5) displaced_prefix [of _ _ "hist @ xs"] by (simp add: c)
  show ?case
    using Cons.IH [of "hist @ xs" "add_entries env xs s"] Cons.prems sorter_ok_add [OF assms(1) Cons.prems(2)]
      front_ok_add [OF assms(1) Cons.prems(2-4) d Cons.prems(6)]
    by (auto simp: c)
qed simp

section \<open>Properties of the sorter\<close>

text \<open>An instance of the parameters: a stable sort, and a window that has reserved what it needs.\<close>

definition sorter_env :: "'a std_env" where
  "sorter_env = \<lparr>std_sort = insertion_sort, cap = (\<lambda>s. window_size (config s))\<rparr>"

lemma std_env_ok_sorter_env: "std_env_ok sorter_env"
  by (simp add: std_env_ok_def sorter_env_def insertion_sort_ordered)

lemma strict_weak_less: "strict_weak ((<) :: 'a :: linorder \<Rightarrow> 'a \<Rightarrow> bool)"
  by (auto simp: strict_weak_def)


text \<open>C24: no entry is lost, invented or held back without bound. After any sequence of calls, under any
  configurations, the entries handed to the consumer together with those in the window and in the batch are exactly
  the entries that arrived; the window never exceeds its size and the batch never reaches its size;
  \<open>total_processed\<close> counts the entries handed out; and with sorting disabled they leave in arrival order.\<close>

theorem sorter_conserves:
  assumes "std_env_ok env"
    and "\<forall>c \<in> set (cfg # concat (map configs calls)). strict_weak (comparator c)"
    and "s = foldl (apply_sorter_call env) (new_sorter cfg) calls"
  shows "mset (concat (consumer_calls s)) + mset (sorted_window s) + mset (new_entries s)
           = mset (concat (map arrived calls))
       \<and> length (sorted_window s) \<le> window_size (config s)
       \<and> (new_entries s = [] \<or> length (new_entries s) < batch_size (config s))
       \<and> total_processed s = length (concat (consumer_calls s))
       \<and> ((\<forall>c \<in> set (cfg # concat (map configs calls)). \<not> enable_sorting c) \<longrightarrow>
           concat (consumer_calls s) @ sorted_window s @ new_entries s = concat (map arrived calls))"
proof -
  have new: "sorter_ok [] (new_sorter cfg)" using assms(2) by (simp add: sorter_ok_new)
  have "sorter_ok (concat (map arrived calls)) s"
    using sorter_ok_calls [OF assms(1) _ new, of calls] assms(2,3) by simp
  moreover have "in_line s = concat (map arrived calls)"
    if "\<forall>c \<in> set (cfg # concat (map configs calls)). \<not> enable_sorting c"
    using fifo_calls [OF assms(1) _ new, of calls] assms(2,3) that by (simp add: new_sorter_def in_line_def)
  ultimately show ?thesis by (simp add: sorter_ok_def in_line_def)
qed

theorem sorter_conserves_witness:
  "let cfg = \<lparr>window_size = 2, batch_size = 1, enable_sorting = False, comparator = (<),
              use_inplace_merge = True, merge_threshold = 64\<rparr>;
       calls = [Call_add_entries [2, 1], Call_add_entry (3 :: nat)];
       s = foldl (apply_sorter_call sorter_env) (new_sorter cfg) calls
   in total_processed s = length (concat (consumer_calls s))
      \<and> concat (consumer_calls s) @ sorted_window s @ new_entries s = [2, 1, 3]"
  using sorter_conserves [OF std_env_ok_sorter_env, where
      cfg = "\<lparr>window_size = 2, batch_size = 1, enable_sorting = False, comparator = (<),
              use_inplace_merge = True, merge_threshold = 64\<rparr>"
      and calls = "[Call_add_entries [2, 1], Call_add_entry (3 :: nat)]", OF _ refl]
  by (simp add: Let_def strict_weak_less)

text \<open>C14: the output is sorted when entries arrive not too late. If every entry arrives after at most
  \<open>window_size - batch_size\<close> entries that belong behind it, then after a final flush the consumer has received
  all the entries in sorted order, whatever \<open>std::sort\<close>, the merge strategy and the batching did.\<close>

theorem sorter_sorts:
  assumes "std_env_ok env" "strict_weak (comparator cfg)" "enable_sorting cfg" "list_all is_add calls"
    and "displaced (comparator cfg) (window_size cfg - batch_size cfg) (concat (map arrived calls))"
    and "s = flush env (foldl (apply_sorter_call env) (new_sorter cfg) calls)"
  shows "ordered (comparator cfg) (concat (consumer_calls s))
       \<and> mset (concat (consumer_calls s)) = mset (concat (map arrived calls))"
proof -
  define s1 where "s1 = foldl (apply_sorter_call env) (new_sorter cfg) calls"
  let ?hist = "concat (map arrived calls)" and ?k = "window_size cfg - batch_size cfg"
  have "configs c = []" if "c \<in> set calls" for c
  proof -
    from that assms(4) have "is_add c" by (simp add: list_all_iff)
    then show ?thesis by (cases c) simp_all
  qed
  then have ok: "sorter_ok ?hist s1"
    using sorter_ok_calls [OF assms(1) _ sorter_ok_new [OF assms(2)], of calls] by (simp add: s1_def)
  have c0: "config (new_sorter cfg) = cfg" and "sorter_front ?k [] (new_sorter cfg)"
    by (simp_all add: new_sorter_def front_ok_def)
  then have f: "sorter_front ?k ?hist s1" and cfg: "config s1 = cfg"
    using front_ok_calls [OF assms(1,4) sorter_ok_new [OF assms(2)], of ?k] assms(3,5) unfolding s1_def c0 by auto
  have "ordered (comparator cfg) (concat (consumer_calls (process_batch env True s1)))"
    using front_ok_batch(2) [OF assms(1), of s1 ?hist ?k] ok f assms(2,3) by (simp add: cfg sorter_ok_def)
  moreover have "ordered (comparator cfg) (concat (consumer_calls s1))" using f by (simp add: cfg front_ok_def)
  moreover note sorter_ok_flush [OF assms(1) ok]
  ultimately show ?thesis using assms(6) by (auto simp: s1_def [symmetric] flush_def sorter_ok_def)
qed

theorem sorter_sorts_witness:
  "let cfg = \<lparr>window_size = 2, batch_size = 1, enable_sorting = True, comparator = (<),
              use_inplace_merge = True, merge_threshold = 64\<rparr>;
       calls = [Call_add_entries [2, 1], Call_add_entry (3 :: nat)];
       s = flush sorter_env (foldl (apply_sorter_call sorter_env) (new_sorter cfg) calls)
   in displaced (<) 1 [2, 1, 3 :: nat]
      \<and> ordered (<) (concat (consumer_calls s)) \<and> mset (concat (consumer_calls s)) = {#1, 2, 3#}"
proof -
  have d: "displaced (<) 1 [2, 1, 3 :: nat]"
    by (simp add: displaced_def less_Suc_eq all_conj_distrib imp_disjL nth_Cons')
  show ?thesis
    using d sorter_sorts [OF std_env_ok_sorter_env, where
        cfg = "\<lparr>window_size = 2, batch_size = 1, enable_sorting = True, comparator = (<),
                use_inplace_merge = True, merge_threshold = 64\<rparr>"
        and calls = "[Call_add_entries [2, 1], Call_add_entry (3 :: nat)]", OF _ _ _ _ refl]
    by (simp add: Let_def strict_weak_less add_mset_commute)
qed

end
