(* ===== verification/Disruptor_Ring.thy ===== *)
theory Disruptor_Ring
  imports Menagerie_Prelude "HOL-Library.Word"
begin

text \<open>
  What both sequencers of \<open>src/common/concurrency-starling/disruptor\<close> build on: the ring buffer
  (\<open>ring_buffer.hpp\<close>, \<open>static_ring_buffer.hpp\<close>), which finds a slot by masking the sequence number, and the
  32-bit slot generations of \<open>multi_producer_sequencer.hpp\<close>. The casts and masks are word operations; the lemmas
  give their arithmetic meaning for a capacity that is a power of two.

  Sequence numbers are the unbounded integers: \<open>std::int64_t\<close> positions start at -1 and only grow by the number
  of claimed entries, so they stay in range for the first \<open>2^63\<close> entries.
\<close>

unbundle bit_operations_syntax

definition ring_index :: "nat \<Rightarrow> int \<Rightarrow> nat" where
  "ring_index buffer_size sequence =
     unat ((word_of_int sequence :: 64 word) AND (of_nat buffer_size - 1))"

definition ring_get :: "'a list \<Rightarrow> int \<Rightarrow> 'a" where
  "ring_get buffer sequence = buffer ! ring_index (length buffer) sequence"

definition ring_set :: "'a list \<Rightarrow> int \<Rightarrow> 'a \<Rightarrow> 'a list" where
  "ring_set buffer sequence x = buffer[ring_index (length buffer) sequence := x]"

definition generation_of :: "nat \<Rightarrow> int \<Rightarrow> 32 word" where
  "generation_of generation_shift sequence = word_of_int (drop_bit generation_shift sequence)"

section \<open>Masking is the remainder\<close>

definition ring_size :: "nat \<Rightarrow> nat \<Rightarrow> bool" where
  "ring_size n k \<longleftrightarrow> n = 2 ^ k \<and> k < 64"

lemma ring_size_pos: "ring_size n k \<Longrightarrow> 0 < n"
  by (simp add: ring_size_def)

lemma mask_word: "k < 64 \<Longrightarrow> (of_nat (2 ^ k) - 1 :: 64 word) = mask k"
  by (simp add: mask_eq_decr_exp)

lemma ring_index_mod:
  assumes "ring_size n k"
  shows "int (ring_index n q) = q mod int n"
proof -
  have n: "n = 2 ^ k" "k < 64" using assms by (auto simp: ring_size_def)
  have "uint ((word_of_int q :: 64 word) AND mask k) = take_bit k (uint (word_of_int q :: 64 word))"
    by (simp only: take_bit_eq_mask [symmetric] unsigned_take_bit_eq)
  also have "uint (word_of_int q :: 64 word) = take_bit 64 q"
    by (simp add: unsigned_of_int)
  also have "take_bit k (take_bit 64 q) = take_bit k q"
    using n(2) by (simp only: take_bit_take_bit min_absorb1 less_imp_le)
  finally have "uint ((word_of_int q :: 64 word) AND mask k) = take_bit k q" .
  then show ?thesis using mask_word [OF n(2)] unfolding ring_index_def n(1) by (simp add: take_bit_eq_mod)
qed

lemma ring_index_less: "ring_size n k \<Longrightarrow> ring_index n q < n"
  using ring_index_mod [of n k q] ring_size_pos [of n k] by (metis of_nat_0_less_iff of_nat_less_iff pos_mod_bound)

lemma ring_index_eq:
  assumes "ring_size n k"
  shows "ring_index n q = ring_index n r \<longleftrightarrow> q mod int n = r mod int n"
  using ring_index_mod [OF assms] by (metis of_nat_eq_iff)

lemma ring_index_wrap: "ring_size n k \<Longrightarrow> ring_index n (q - int n) = ring_index n q"
  by (simp add: ring_index_eq)

text \<open>Within one window of the ring's size, different sequences have different slots.\<close>

lemma ring_index_window:
  assumes "ring_size n k" "d < q" "q \<le> d + int n" "d < r" "r \<le> d + int n" "ring_index n q = ring_index n r"
  shows "q = r"
proof -
  from assms have "(q - r) mod int n = 0" by (metis mod_0 mod_diff_cong diff_self ring_index_eq)
  then obtain z where z: "q - r = int n * z" by (auto simp: mod_eq_0_iff_dvd)
  have n: "0 < int n" using ring_size_pos [OF assms(1)] by simp
  have "\<bar>q - r\<bar> < int n" using assms by auto
  with z n have "z = 0" by (metis abs_mult abs_of_pos mult.commute mult_less_cancel_right2 abs_less_iff zabs_less_one_iff less_le not_less)
  with z show ?thesis by simp
qed

lemma ring_get_set_same: "ring_size (length b) k \<Longrightarrow> ring_get (ring_set b q x) q = x"
  by (simp add: ring_get_def ring_set_def ring_index_less)

lemma ring_get_set_other:
  assumes "ring_size (length b) k" "d < q" "q \<le> d + int (length b)" "d < r" "r \<le> d + int (length b)" "q \<noteq> r"
  shows "ring_get (ring_set b q x) r = ring_get b r"
proof -
  have "ring_index (length b) q \<noteq> ring_index (length b) r" using ring_index_window [OF assms(1-5)] assms(6) by blast
  then show ?thesis by (simp add: ring_get_def ring_set_def)
qed

lemma length_ring_set [simp]: "length (ring_set b q x) = length b"
  by (simp add: ring_set_def)

section \<open>Generations\<close>

lemma generation_wrap: "generation_of k (q - 2 ^ k) = generation_of k q - 1"
proof -
  have "drop_bit k (q - 2 ^ k) = drop_bit k q - 1"
    using div_mult_self1 [of "2 ^ k" q "-1"] by (simp add: drop_bit_eq_div)
  then show ?thesis by (simp add: generation_of_def wi_hom_sub)
qed

lemma generation_wrap_neq: "generation_of k (q - 2 ^ k) \<noteq> generation_of k q"
  by (simp add: generation_wrap)

lemma generation_start: "0 \<le> q \<Longrightarrow> q < 2 ^ k \<Longrightarrow> generation_of k (q - 2 ^ k) = - 1"
  by (simp add: generation_wrap) (simp add: generation_of_def drop_bit_eq_div)

end
