(* ===== verification/Fifo_Queue.thy ===== *)
theory Fifo_Queue
  imports Menagerie_Prelude
begin

text \<open>
  What the disruptor promises its users, whichever sequencer it runs on (\<open>IsSequencer\<close> of
  \<open>sequencer_concept.hpp\<close>): threads begin calls and go on with them in any order, and what comes out is what went
  in, in order. The locale states the contract of a sequencer over an invariant; its lemmas are the guarantees of
  the queue.
\<close>

inductive fifo_reachable :: "('s \<Rightarrow> 's \<Rightarrow> bool) \<Rightarrow> ('s \<Rightarrow> 's \<Rightarrow> bool) \<Rightarrow> 's \<Rightarrow> 's \<Rightarrow> bool" for call run s0 where
  fifo_start: "fifo_reachable call run s0 s0"
| fifo_call: "fifo_reachable call run s0 s \<Longrightarrow> call s s' \<Longrightarrow> fifo_reachable call run s0 s'"
| fifo_run: "fifo_reachable call run s0 s \<Longrightarrow> run s s' \<Longrightarrow> fifo_reachable call run s0 s'"

locale fifo_queue =
  fixes ok ready :: "'s \<Rightarrow> bool"
    and call run :: "'s \<Rightarrow> 's \<Rightarrow> bool"
    and sent received :: "'s \<Rightarrow> 'a list"
  assumes call_ok: "call s s' \<Longrightarrow> ok s \<Longrightarrow> ok s'"
    and run_ok: "run s s' \<Longrightarrow> ok s \<Longrightarrow> ok s'"
    and order: "ok s \<Longrightarrow> received s = take (length (received s)) (sent s)"
    and progress: "ok s \<Longrightarrow> ready s \<Longrightarrow> length (received s) < length (sent s) \<Longrightarrow>
      \<exists>s'. run\<^sup>*\<^sup>* s s' \<and> ready s' \<and> sent s' = sent s \<and> length (received s) < length (received s')"
begin

lemma reachable_ok: "fifo_reachable call run s0 s \<Longrightarrow> ok s0 \<Longrightarrow> ok s"
  by (induction rule: fifo_reachable.induct) (auto intro: call_ok run_ok)

lemma runs_ok: "run\<^sup>*\<^sup>* s s' \<Longrightarrow> ok s \<Longrightarrow> ok s'"
  by (induction rule: rtranclp_induct) (auto intro: run_ok)

lemma delivers:
  assumes "ok s" "ready s"
  shows "\<exists>s'. run\<^sup>*\<^sup>* s s' \<and> sent s' = sent s \<and> received s' = sent s"
  using assms
proof (induction "length (sent s) - length (received s)" arbitrary: s rule: less_induct)
  case less
  show ?case
  proof (cases "length (received s) < length (sent s)")
    case True
    with progress [OF less.prems] obtain s1
      where s1: "run\<^sup>*\<^sup>* s s1" "ready s1" "sent s1 = sent s" "length (received s) < length (received s1)" by blast
    have "length (sent s1) - length (received s1) < length (sent s) - length (received s)"
      using s1(3,4) True by simp
    from less.hyps [OF this runs_ok [OF s1(1) less.prems(1)] s1(2)] obtain s'
      where "run\<^sup>*\<^sup>* s1 s'" "sent s' = sent s1" "received s' = sent s1" by blast
    with s1(1,3) show ?thesis by (metis rtranclp_trans)
  next
    case False
    then have "take (length (received s)) (sent s) = sent s" by simp
    then have "received s = sent s" using order [OF less.prems(1)] by metis
    then show ?thesis by blast
  qed
qed

end

end
