(* ===== verification/Disruptor_MP.thy ===== *)
theory Disruptor_MP
  imports Disruptor_Ring Fifo_Queue
begin

text \<open>
  The multi-producer disruptor: \<open>MultiProducerSequencer\<close>
  (\<open>src/common/concurrency-starling/disruptor/sequencer/multi_producer_sequencer.hpp\<close>) with the queue operations
  of \<open>disruptor.hpp\<close> on top of it.

  Any number of producer threads and one consumer share the sequencer and the ring. Each step of the model is one
  access to shared memory, and the threads interleave in every possible way. Atomic operations are taken in the
  order they happen, which is what the acquire and release orderings of the source provide for the payload. A
  producer runs \<open>emplace\<close>, \<open>next_batch\<close> followed by \<open>publish_batch\<close>, or \<open>try_next\<close>; the consumer runs
  \<open>pull\<close>, or \<open>get_published_sequence\<close> followed by \<open>consume_batch\<close>. Moving a payload out of a slot leaves an
  arbitrary value there. Waiting strategies only decide how a thread passes the time until a cursor has moved; a
  waiting thread makes no step.

  Two lists that no thread reads record the history: \<open>sent\<close> holds the payload of every claimed sequence, and
  \<open>received\<close> what the consumer has released.
\<close>

record 'a mp_disruptor =
  claimed_sequence :: int
  consumed_sequence :: int
  capacity :: nat
  generation_shift :: nat
  slot_generations :: "32 word list"
  ring :: "'a list"
  cached_published_sequence :: int

definition new_disruptor :: "nat \<Rightarrow> nat \<Rightarrow> 'a \<Rightarrow> 'a mp_disruptor" where
  "new_disruptor buffer_size shift x =
     \<lparr>claimed_sequence = -1, consumed_sequence = -1, capacity = buffer_size, generation_shift = shift,
      slot_generations = replicate buffer_size (- 1), ring = replicate buffer_size x,
      cached_published_sequence = -1\<rparr>"

section \<open>The sequencer\<close>

definition next_one :: "'a mp_disruptor \<Rightarrow> int \<times> 'a mp_disruptor" where
  "next_one d =
     (let sequence = claimed_sequence d + 1 in (sequence, d\<lparr>claimed_sequence := sequence\<rparr>))"

definition next_batch :: "nat \<Rightarrow> 'a mp_disruptor \<Rightarrow> int \<times> 'a mp_disruptor" where
  "next_batch n d =
     (let last = claimed_sequence d + int n
      in (last - int n + 1, d\<lparr>claimed_sequence := last\<rparr>))"

definition has_capacity :: "'a mp_disruptor \<Rightarrow> int \<Rightarrow> bool" where
  "has_capacity d sequence =
     (let wrap_point = sequence - int (capacity d) in \<not> wrap_point > consumed_sequence d)"

definition publish_slot :: "int \<Rightarrow> 'a mp_disruptor \<Rightarrow> 'a mp_disruptor" where
  "publish_slot sequence d =
     d\<lparr>slot_generations :=
         ring_set (slot_generations d) sequence (generation_of (generation_shift d) sequence)\<rparr>"

definition is_available :: "'a mp_disruptor \<Rightarrow> int \<Rightarrow> bool" where
  "is_available d sequence =
     (ring_get (slot_generations d) sequence = generation_of (generation_shift d) sequence)"

function scan_published :: "'a mp_disruptor \<Rightarrow> int \<Rightarrow> int \<Rightarrow> int" where
  "scan_published d sq claimed =
     (if sq \<le> claimed then (if is_available d sq then scan_published d (sq + 1) claimed else sq - 1)
      else claimed)"
  by pat_completeness auto
termination
  by (relation "measure (\<lambda>(d, sq, claimed). nat (claimed + 1 - sq))") auto

declare scan_published.simps [simp del]

definition get_published_sequence :: "'a mp_disruptor \<Rightarrow> int \<Rightarrow> int" where
  "get_published_sequence d lower_bound = scan_published d lower_bound (claimed_sequence d)"

definition consume :: "int \<Rightarrow> 'a mp_disruptor \<Rightarrow> 'a mp_disruptor" where
  "consume sequence d = d\<lparr>consumed_sequence := sequence\<rparr>"

definition remaining_capacity :: "'a mp_disruptor \<Rightarrow> int" where
  "remaining_capacity d = int (capacity d) - (claimed_sequence d - consumed_sequence d)"

definition approx_size :: "'a mp_disruptor \<Rightarrow> int" where
  "approx_size d = claimed_sequence d - consumed_sequence d"

section \<open>The threads\<close>

text \<open>Where a producer stands: waiting for capacity for the payloads it has claimed sequences for, filling their
  slots (so many are filled), publishing them (so many are published), or at one of the three accesses of
  \<open>try_next\<close>.\<close>

datatype 'a producer =
    P_idle
  | P_wait int "'a list"
  | P_fill int "'a list" nat
  | P_publish int "'a list" nat
  | P_try_read 'a
  | P_try_check int 'a
  | P_try_cas int 'a

text \<open>Where the consumer stands. A scan belongs to \<open>wait_for\<close> (flag true) or to
  \<open>get_published_sequence\<close>.\<close>

datatype 'a consumer =
    C_idle
  | C_next int
  | C_wait int
  | C_scan bool int int int
  | C_take int
  | C_taken int 'a
  | C_read int int "'a list"

record ('p, 'a) mp_system =
  disruptor :: "'a mp_disruptor"
  producers :: "'p \<Rightarrow> 'a producer"
  consumer :: "'a consumer"
  sent :: "'a list"
  received :: "'a list"

definition start :: "nat \<Rightarrow> nat \<Rightarrow> 'a \<Rightarrow> ('p, 'a) mp_system" where
  "start buffer_size shift x =
     \<lparr>disruptor = new_disruptor buffer_size shift x, producers = (\<lambda>_. P_idle), consumer = C_idle,
      sent = [], received = []\<rparr>"

definition at :: "('p, 'a) mp_system \<Rightarrow> 'p \<Rightarrow> 'a producer \<Rightarrow> ('p, 'a) mp_system" where
  "at s p pc = s\<lparr>producers := (producers s)(p := pc)\<rparr>"

text \<open>What \<open>wait_for\<close>/\<open>pull\<close> and the manual consumer do with the result of a scan.\<close>

definition scanned :: "bool \<Rightarrow> int \<Rightarrow> int \<Rightarrow> ('p, 'a) mp_system \<Rightarrow> ('p, 'a) mp_system" where
  "scanned pulling sq published s =
     (if pulling then
        if published < sq then s\<lparr>consumer := C_wait sq\<rparr>
        else s\<lparr>consumer := C_take sq,
               disruptor := (disruptor s)\<lparr>cached_published_sequence := published\<rparr>\<rparr>
      else
        if published < sq then s\<lparr>consumer := C_idle\<rparr>
        else s\<lparr>consumer := C_read sq published []\<rparr>)"

text \<open>A thread begins an operation.\<close>

inductive mp_call :: "('p, 'a) mp_system \<Rightarrow> ('p, 'a) mp_system \<Rightarrow> bool" where
  call_emplace:
    "producers s p = P_idle \<Longrightarrow> next_one (disruptor s) = (sequence, d) \<Longrightarrow>
     mp_call s ((at s p (P_wait sequence [x]))\<lparr>disruptor := d, sent := sent s @ [x]\<rparr>)"
| call_next_batch:
    "producers s p = P_idle \<Longrightarrow> payloads \<noteq> [] \<Longrightarrow> next_batch (length payloads) (disruptor s) = (first, d) \<Longrightarrow>
     mp_call s ((at s p (P_wait first payloads))\<lparr>disruptor := d, sent := sent s @ payloads\<rparr>)"
| call_try_next:
    "producers s p = P_idle \<Longrightarrow> mp_call s (at s p (P_try_read x))"

text \<open>A thread goes on.\<close>

inductive mp_run :: "('p, 'a) mp_system \<Rightarrow> ('p, 'a) mp_system \<Rightarrow> bool" where
  run_wait:
    "producers s p = P_wait lo xs \<Longrightarrow> has_capacity (disruptor s) (lo + int (length xs) - 1) \<Longrightarrow>
     mp_run s (at s p (P_fill lo xs 0))"
| run_fill:
    "producers s p = P_fill lo xs i \<Longrightarrow> i < length xs \<Longrightarrow>
     mp_run s ((at s p (P_fill lo xs (i + 1)))\<lparr>disruptor :=
       (disruptor s)\<lparr>ring := ring_set (ring (disruptor s)) (lo + int i) (xs ! i)\<rparr>\<rparr>)"
| run_filled:
    "producers s p = P_fill lo xs i \<Longrightarrow> i = length xs \<Longrightarrow> mp_run s (at s p (P_publish lo xs 0))"
| run_publish:
    "producers s p = P_publish lo xs i \<Longrightarrow> i < length xs \<Longrightarrow>
     mp_run s ((at s p (P_publish lo xs (i + 1)))\<lparr>disruptor := publish_slot (lo + int i) (disruptor s)\<rparr>)"
| run_published:
    "producers s p = P_publish lo xs i \<Longrightarrow> i = length xs \<Longrightarrow> mp_run s (at s p P_idle)"
| run_try_read:
    "producers s p = P_try_read x \<Longrightarrow> mp_run s (at s p (P_try_check (claimed_sequence (disruptor s)) x))"
| run_try_full:
    "producers s p = P_try_check current x \<Longrightarrow> \<not> has_capacity (disruptor s) (current + 1) \<Longrightarrow>
     mp_run s (at s p P_idle)"
| run_try_room:
    "producers s p = P_try_check current x \<Longrightarrow> has_capacity (disruptor s) (current + 1) \<Longrightarrow>
     mp_run s (at s p (P_try_cas current x))"
| run_try_claim:
    "producers s p = P_try_cas current x \<Longrightarrow> claimed_sequence (disruptor s) = current \<Longrightarrow>
     mp_run s ((at s p (P_fill (current + 1) [x] 0))\<lparr>disruptor :=
       (disruptor s)\<lparr>claimed_sequence := current + 1\<rparr>, sent := sent s @ [x]\<rparr>)"
| run_try_lost:
    "producers s p = P_try_cas current x \<Longrightarrow> mp_run s (at s p P_idle)"
| run_pull:
    "consumer s = C_idle \<Longrightarrow> mp_run s (s\<lparr>consumer := C_next (consumed_sequence (disruptor s) + 1)\<rparr>)"
| run_drain:
    "consumer s = C_idle \<Longrightarrow> lo = consumed_sequence (disruptor s) + 1 \<Longrightarrow>
     mp_run s (s\<lparr>consumer := C_scan False lo lo (claimed_sequence (disruptor s))\<rparr>)"
| run_cached:
    "consumer s = C_next sq \<Longrightarrow> \<not> sq > cached_published_sequence (disruptor s) \<Longrightarrow>
     mp_run s (s\<lparr>consumer := C_take sq\<rparr>)"
| run_uncached:
    "consumer s = C_next sq \<Longrightarrow> sq > cached_published_sequence (disruptor s) \<Longrightarrow>
     mp_run s (s\<lparr>consumer := C_wait sq\<rparr>)"
| run_claimed:
    "consumer s = C_wait sq \<Longrightarrow> \<not> claimed_sequence (disruptor s) < sq \<Longrightarrow>
     mp_run s (s\<lparr>consumer := C_scan True sq sq (claimed_sequence (disruptor s))\<rparr>)"
| run_scan:
    "consumer s = C_scan pulling lo sq limit \<Longrightarrow> sq \<le> limit \<Longrightarrow> is_available (disruptor s) sq \<Longrightarrow>
     mp_run s (s\<lparr>consumer := C_scan pulling lo (sq + 1) limit\<rparr>)"
| run_gap:
    "consumer s = C_scan pulling lo sq limit \<Longrightarrow> sq \<le> limit \<Longrightarrow> \<not> is_available (disruptor s) sq \<Longrightarrow>
     mp_run s (scanned pulling lo (sq - 1) s)"
| run_scanned:
    "consumer s = C_scan pulling lo sq limit \<Longrightarrow> \<not> sq \<le> limit \<Longrightarrow> mp_run s (scanned pulling lo limit s)"
| run_take:
    "consumer s = C_take sq \<Longrightarrow> d = disruptor s \<Longrightarrow>
     mp_run s (s\<lparr>consumer := C_taken sq (ring_get (ring d) sq),
                 disruptor := d\<lparr>ring := ring_set (ring d) sq moved_from\<rparr>\<rparr>)"
| run_consume:
    "consumer s = C_taken sq x \<Longrightarrow>
     mp_run s (s\<lparr>consumer := C_idle, disruptor := consume sq (disruptor s), received := received s @ [x]\<rparr>)"
| run_read:
    "consumer s = C_read lo hi xs \<Longrightarrow> sq = lo + int (length xs) \<Longrightarrow> sq \<le> hi \<Longrightarrow> d = disruptor s \<Longrightarrow>
     mp_run s (s\<lparr>consumer := C_read lo hi (xs @ [ring_get (ring d) sq]),
                 disruptor := d\<lparr>ring := ring_set (ring d) sq moved_from\<rparr>\<rparr>)"
| run_consume_batch:
    "consumer s = C_read lo hi xs \<Longrightarrow> \<not> lo + int (length xs) \<le> hi \<Longrightarrow>
     mp_run s (s\<lparr>consumer := C_idle, disruptor := consume hi (disruptor s), received := received s @ xs\<rparr>)"

section \<open>Claimed, published, consumed\<close>

text \<open>The sequences that a producer has claimed and not yet published.\<close>

fun holds :: "'a producer \<Rightarrow> int set" where
  "holds (P_wait lo xs) = {lo..<lo + int (length xs)}"
| "holds (P_fill lo xs i) = {lo..<lo + int (length xs)}"
| "holds (P_publish lo xs i) = {lo + int i..<lo + int (length xs)}"
| "holds _ = {}"

definition pub :: "('p \<Rightarrow> int set) \<Rightarrow> int \<Rightarrow> int \<Rightarrow> bool" where
  "pub H c q \<longleftrightarrow> 0 \<le> q \<and> q \<le> c \<and> (\<forall>p. q \<notin> H p)"

definition own_ok :: "('p \<Rightarrow> int set) \<Rightarrow> int \<Rightarrow> int \<Rightarrow> nat \<Rightarrow> bool" where
  "own_ok H c d n \<longleftrightarrow>
     (\<forall>p. \<forall>q \<in> H p. d < q \<and> q \<le> c) \<and> (\<forall>p p' q. q \<in> H p \<longrightarrow> q \<in> H p' \<longrightarrow> p = p')
     \<and> (\<forall>q. pub H c q \<longrightarrow> q \<le> d + int n) \<and> - 1 \<le> d \<and> d \<le> c"

text \<open>A slot carries the generation of its sequence in the current window if that is published, and of the sequence
  one lap earlier if not.\<close>

definition gen_ok :: "(int \<Rightarrow> bool) \<Rightarrow> int \<Rightarrow> nat \<Rightarrow> nat \<Rightarrow> 32 word list \<Rightarrow> bool" where
  "gen_ok P d n k gens \<longleftrightarrow>
     (\<forall>q. d < q \<longrightarrow> q \<le> d + int n \<longrightarrow>
        ring_get gens q = generation_of k (if P q then q else q - int n))"

definition data_ok :: "(int \<Rightarrow> bool) \<Rightarrow> int \<Rightarrow> 'a list \<Rightarrow> 'a list \<Rightarrow> bool" where
  "data_ok P from buf vals \<longleftrightarrow> (\<forall>q. P q \<longrightarrow> from \<le> q \<longrightarrow> ring_get buf q = vals ! nat q)"

text \<open>A batch at \<open>lo\<close> is the part of \<open>vals\<close> from there.\<close>

definition batch_ok :: "'a list \<Rightarrow> int \<Rightarrow> 'a list \<Rightarrow> bool" where
  "batch_ok vals lo xs \<longleftrightarrow>
     0 \<le> lo \<and> lo + int (length xs) \<le> int (length vals) \<and> (\<forall>j < length xs. vals ! nat (lo + int j) = xs ! j)"

definition fits :: "int \<Rightarrow> nat \<Rightarrow> int \<Rightarrow> 'a list \<Rightarrow> bool" where
  "fits d n lo xs \<longleftrightarrow> lo + int (length xs) \<le> d + int n + 1"

fun producer_ok :: "int \<Rightarrow> nat \<Rightarrow> 'a list \<Rightarrow> 'a list \<Rightarrow> 'a producer \<Rightarrow> bool" where
  "producer_ok d n buf vals (P_wait lo xs) = batch_ok vals lo xs"
| "producer_ok d n buf vals (P_fill lo xs i) =
     (batch_ok vals lo xs \<and> fits d n lo xs \<and> i \<le> length xs \<and> (\<forall>j < i. ring_get buf (lo + int j) = xs ! j))"
| "producer_ok d n buf vals (P_publish lo xs i) =
     (batch_ok vals lo xs \<and> fits d n lo xs \<and> i \<le> length xs
      \<and> (\<forall>j < length xs. i \<le> j \<longrightarrow> ring_get buf (lo + int j) = xs ! j))"
| "producer_ok d n buf vals (P_try_cas current x) = (current + 1 \<le> d + int n)"
| "producer_ok d n buf vals _ = True"

fun consumer_ok :: "(int \<Rightarrow> bool) \<Rightarrow> int \<Rightarrow> int \<Rightarrow> 'a list \<Rightarrow> 'a consumer \<Rightarrow> bool" where
  "consumer_ok P c d vals C_idle = True"
| "consumer_ok P c d vals (C_next sq) = (sq = d + 1)"
| "consumer_ok P c d vals (C_wait sq) = (sq = d + 1)"
| "consumer_ok P c d vals (C_scan pulling lo sq limit) =
     (lo = d + 1 \<and> lo \<le> sq \<and> limit \<le> c \<and> sq \<le> limit + 1 \<and> (\<forall>x. lo \<le> x \<longrightarrow> x < sq \<longrightarrow> P x))"
| "consumer_ok P c d vals (C_take sq) = (sq = d + 1 \<and> P sq)"
| "consumer_ok P c d vals (C_taken sq x) = (sq = d + 1 \<and> P sq \<and> x = vals ! nat sq)"
| "consumer_ok P c d vals (C_read lo hi xs) =
     (lo = d + 1 \<and> lo \<le> hi \<and> (\<forall>x. lo \<le> x \<longrightarrow> x \<le> hi \<longrightarrow> P x) \<and> lo + int (length xs) \<le> hi + 1
      \<and> batch_ok vals lo xs)"

text \<open>The first sequence whose payload the consumer has not yet moved out.\<close>

fun unread :: "int \<Rightarrow> 'a consumer \<Rightarrow> int" where
  "unread d (C_taken sq x) = d + 2"
| "unread d (C_read lo hi xs) = d + 1 + int (length xs)"
| "unread d _ = d + 1"

abbreviation held :: "('p, 'a) mp_system \<Rightarrow> 'p \<Rightarrow> int set" where
  "held s \<equiv> \<lambda>p. holds (producers s p)"

abbreviation published :: "('p, 'a) mp_system \<Rightarrow> int \<Rightarrow> bool" where
  "published s \<equiv> pub (held s) (claimed_sequence (disruptor s))"

definition mp_ok :: "('p, 'a) mp_system \<Rightarrow> bool" where
  "mp_ok s \<longleftrightarrow>
     (let d = disruptor s; c = claimed_sequence d; e = consumed_sequence d; n = capacity d in
      ring_size n (generation_shift d) \<and> length (slot_generations d) = n \<and> length (ring d) = n
      \<and> int (length (sent s)) = c + 1
      \<and> own_ok (held s) c e n
      \<and> gen_ok (published s) e n (generation_shift d) (slot_generations d)
      \<and> data_ok (published s) (unread e (consumer s)) (ring d) (sent s)
      \<and> (\<forall>p. producer_ok e n (ring d) (sent s) (producers s p))
      \<and> consumer_ok (published s) c e (sent s) (consumer s)
      \<and> (\<forall>x. e < x \<longrightarrow> x \<le> cached_published_sequence d \<longrightarrow> published s x)
      \<and> received s = take (nat (e + 1)) (sent s))"

lemma mp_okD:
  assumes "mp_ok s"
  shows "ring_size (capacity (disruptor s)) (generation_shift (disruptor s))"
    and "length (slot_generations (disruptor s)) = capacity (disruptor s)"
    and "length (ring (disruptor s)) = capacity (disruptor s)"
    and "int (length (sent s)) = claimed_sequence (disruptor s) + 1"
    and "own_ok (held s) (claimed_sequence (disruptor s)) (consumed_sequence (disruptor s)) (capacity (disruptor s))"
    and "gen_ok (published s) (consumed_sequence (disruptor s)) (capacity (disruptor s))
           (generation_shift (disruptor s)) (slot_generations (disruptor s))"
    and "data_ok (published s) (unread (consumed_sequence (disruptor s)) (consumer s)) (ring (disruptor s)) (sent s)"
    and "producer_ok (consumed_sequence (disruptor s)) (capacity (disruptor s)) (ring (disruptor s)) (sent s) (producers s p)"
    and "consumer_ok (published s) (claimed_sequence (disruptor s)) (consumed_sequence (disruptor s)) (sent s) (consumer s)"
    and "consumed_sequence (disruptor s) < x \<Longrightarrow> x \<le> cached_published_sequence (disruptor s) \<Longrightarrow> published s x"
    and "received s = take (nat (consumed_sequence (disruptor s) + 1)) (sent s)"
  using assms unfolding mp_ok_def Let_def by blast+

lemma mp_okI:
  assumes "ring_size (capacity (disruptor s)) (generation_shift (disruptor s))"
    and "length (slot_generations (disruptor s)) = capacity (disruptor s)"
    and "length (ring (disruptor s)) = capacity (disruptor s)"
    and "int (length (sent s)) = claimed_sequence (disruptor s) + 1"
    and "own_ok (held s) (claimed_sequence (disruptor s)) (consumed_sequence (disruptor s)) (capacity (disruptor s))"
    and "gen_ok (published s) (consumed_sequence (disruptor s)) (capacity (disruptor s))
           (generation_shift (disruptor s)) (slot_generations (disruptor s))"
    and "data_ok (published s) (unread (consumed_sequence (disruptor s)) (consumer s)) (ring (disruptor s)) (sent s)"
    and "\<And>p. producer_ok (consumed_sequence (disruptor s)) (capacity (disruptor s)) (ring (disruptor s)) (sent s) (producers s p)"
    and "consumer_ok (published s) (claimed_sequence (disruptor s)) (consumed_sequence (disruptor s)) (sent s) (consumer s)"
    and "\<And>x. consumed_sequence (disruptor s) < x \<Longrightarrow> x \<le> cached_published_sequence (disruptor s) \<Longrightarrow> published s x"
    and "received s = take (nat (consumed_sequence (disruptor s) + 1)) (sent s)"
  shows "mp_ok s"
  using assms unfolding mp_ok_def Let_def by blast

lemma published_in:
  assumes "mp_ok s" "published s q"
  shows "nat q < length (sent s)" "0 \<le> q" "q \<le> consumed_sequence (disruptor s) + int (capacity (disruptor s))"
  using assms mp_okD(4,5) [OF assms(1)] by (auto simp: pub_def own_ok_def)

lemma held_at: "held (at s p pc) = (held s)(p := holds pc)"
  by (rule ext) (simp add: at_def)

lemma held_at_same: "holds pc = holds (producers s p) \<Longrightarrow> held (at s p pc) = held s"
  by (rule ext) (simp add: at_def)

lemma mp_ok_start:
  assumes "ring_size n k"
  shows "mp_ok (start n k x)"
proof -
  have "ring_get (replicate n (- 1 :: 32 word)) q = generation_of k (q - int n)" if "- 1 < q" "q \<le> int n - 1" for q
    using that assms generation_start [of q k] ring_index_less [OF assms, of q]
    by (simp add: ring_get_def ring_size_def)
  then show ?thesis
    using assms by (auto simp: mp_ok_def start_def new_disruptor_def Let_def own_ok_def pub_def gen_ok_def data_ok_def)
qed

section \<open>Every step keeps the invariant\<close>

text \<open>A producer moves without touching memory or what it holds.\<close>

lemma mp_ok_at:
  assumes "mp_ok s" "holds pc = holds (producers s p)"
    and "producer_ok (consumed_sequence (disruptor s)) (capacity (disruptor s)) (ring (disruptor s)) (sent s) pc"
  shows "mp_ok (at s p pc)"
proof -
  have "held (at s p pc) = held s" using assms(2) by (rule held_at_same)
  moreover have "disruptor (at s p pc) = disruptor s" "consumer (at s p pc) = consumer s"
    "sent (at s p pc) = sent s" "received (at s p pc) = received s"
    "producers (at s p pc) = (producers s)(p := pc)" by (simp_all add: at_def)
  ultimately show ?thesis using assms(1,3) unfolding mp_ok_def Let_def by (simp add: fun_upd_def)
qed

text \<open>The consumer moves without touching the ring or the consumed position.\<close>

lemma mp_ok_consumer:
  assumes "mp_ok s" "unread (consumed_sequence (disruptor s)) pc = unread (consumed_sequence (disruptor s)) (consumer s)"
    and "consumer_ok (published s) (claimed_sequence (disruptor s)) (consumed_sequence (disruptor s)) (sent s) pc"
  shows "mp_ok (s\<lparr>consumer := pc\<rparr>)"
  using assms unfolding mp_ok_def Let_def by simp

subsection \<open>Claiming\<close>

lemma pub_claim:
  assumes "H p = {}"
  shows "pub (H(p := {c + 1..<c + 1 + int m})) (c + int m) = pub H c"
proof (rule ext)
  fix q
  show "pub (H(p := {c + 1..<c + 1 + int m})) (c + int m) q = pub H c q"
    using assms by (auto simp: pub_def split: if_splits)
qed

lemma own_okD:
  assumes "own_ok H c d n"
  shows "q \<in> H p \<Longrightarrow> d < q" "q \<in> H p \<Longrightarrow> q \<le> c" "q \<in> H p \<Longrightarrow> q \<in> H p' \<Longrightarrow> p = p'"
    and "pub H c q \<Longrightarrow> q \<le> d + int n" "- 1 \<le> d" "d \<le> c"
  using assms unfolding own_ok_def by blast+

lemma own_okI:
  assumes "\<And>p q. q \<in> H p \<Longrightarrow> d < q \<and> q \<le> c" "\<And>p p' q. q \<in> H p \<Longrightarrow> q \<in> H p' \<Longrightarrow> p = p'"
    and "\<And>q. pub H c q \<Longrightarrow> q \<le> d + int n" "- 1 \<le> d" "d \<le> c"
  shows "own_ok H c d n"
  using assms unfolding own_ok_def by blast

lemma own_ok_claim:
  assumes own: "own_ok H c d n" and p: "H p = {}"
  shows "own_ok (H(p := {c + 1..<c + 1 + int m})) (c + int m) d n"
proof (rule own_okI)
  fix p' q
  assume "q \<in> (H(p := {c + 1..<c + 1 + int m})) p'"
  then show "d < q \<and> q \<le> c + int m"
    using own_okD(1,2) [OF own, of q p'] own_okD(6) [OF own] by (cases "p' = p") auto
next
  fix p1 p2 q
  assume "q \<in> (H(p := {c + 1..<c + 1 + int m})) p1" "q \<in> (H(p := {c + 1..<c + 1 + int m})) p2"
  then show "p1 = p2"
    using own_okD(2) [OF own, of q p1] own_okD(2) [OF own, of q p2] own_okD(3) [OF own, of q p1 p2]
    by (cases "p1 = p"; cases "p2 = p") auto
next
  fix q
  assume "pub (H(p := {c + 1..<c + 1 + int m})) (c + int m) q"
  then show "q \<le> d + int n" unfolding pub_claim [of H p, OF p] by (rule own_okD(4) [OF own])
qed (use own_okD(5,6) [OF own] in auto)

lemma batch_ok_append: "batch_ok vals lo xs \<Longrightarrow> batch_ok (vals @ ys) lo xs"
  by (auto simp: batch_ok_def nth_append)

lemma batch_ok_new: "int (length vals) = c + 1 \<Longrightarrow> batch_ok (vals @ xs) (c + 1) xs"
proof -
  assume len: "int (length vals) = c + 1"
  then have "nat (c + 1 + int j) = length vals + j" for j by simp
  with len show ?thesis by (simp add: batch_ok_def)
qed

lemma producer_ok_append: "producer_ok d n buf vals pc \<Longrightarrow> producer_ok d n buf (vals @ ys) pc"
  by (cases pc) (auto simp: batch_ok_append)

lemma data_ok_append:
  assumes "data_ok P from buf vals" "\<And>q. P q \<Longrightarrow> nat q < length vals"
  shows "data_ok P from buf (vals @ ys)"
  using assms by (simp add: data_ok_def nth_append)

lemma consumer_ok_append:
  assumes "consumer_ok P c d vals pc" "c \<le> c'" "\<And>q. P q \<Longrightarrow> nat q < length vals"
  shows "consumer_ok P c' d (vals @ ys) pc"
  using assms by (cases pc) (auto simp: batch_ok_append nth_append)

lemma mp_ok_claim:
  assumes ok: "mp_ok s" and p: "holds (producers s p) = {}" and m: "m = length xs"
    and c: "c = claimed_sequence (disruptor s)"
    and pc: "holds pc = {c + 1..<c + 1 + int m}"
    and prod: "producer_ok (consumed_sequence (disruptor s)) (capacity (disruptor s)) (ring (disruptor s)) (sent s @ xs) pc"
  shows "mp_ok ((at s p pc)\<lparr>disruptor := (disruptor s)\<lparr>claimed_sequence := c + int m\<rparr>, sent := sent s @ xs\<rparr>)"
    (is "mp_ok ?s")
proof -
  note D = mp_okD [OF ok]
  have H: "held ?s = (held s)(p := {c + 1..<c + 1 + int m})" using held_at [of s p pc] pc by simp
  have c': "claimed_sequence (disruptor ?s) = c + int m" by simp
  have P: "published ?s = published s"
    unfolding H c' using pub_claim [of "held s" p c m] p by (simp add: c)
  show ?thesis
  proof (rule mp_okI, goal_cases)
    case 5
    then show ?case unfolding H using own_ok_claim [OF D(5), of p m] p by (simp add: c)
  next
    case 6
    then show ?case unfolding P using D(6) by simp
  next
    case 7
    then show ?case unfolding P using data_ok_append [OF D(7) published_in(1) [OF ok]] by (simp add: at_def)
  next
    case (8 q)
    then show ?case using producer_ok_append [OF D(8)] prod by (simp add: at_def)
  next
    case 9
    then show ?case
      unfolding P using consumer_ok_append [OF D(9) _ published_in(1) [OF ok], of "c + int m"] by (simp add: at_def c)
  next
    case (10 x)
    then show ?case unfolding P using D(10) by simp
  next
    case 11
    have "nat (consumed_sequence (disruptor s) + 1) \<le> length (sent s)"
      using D(4) own_okD(6) [OF D(5)] by (simp add: nat_le_iff)
    then show ?case using D(11) by (simp add: at_def)
  qed (use D(1-4) m c in simp_all)
qed

subsection \<open>Filling slots\<close>

text \<open>A store into the slot of a held sequence is seen neither by the consumer nor by another producer.\<close>

lemma data_ok_store:
  assumes "data_ok P from buf vals" "ring_size (length buf) k" "\<And>x. P x \<Longrightarrow> x \<le> d + int (length buf)"
    and "d < from" "d < q" "q \<le> d + int (length buf)" "\<not> (P q \<and> from \<le> q)"
  shows "data_ok P from (ring_set buf q v) vals"
  unfolding data_ok_def
proof (intro allI impI)
  fix x
  assume x: "P x" "from \<le> x"
  then have "ring_get (ring_set buf q v) x = ring_get buf x"
    using assms by (intro ring_get_set_other [of _ k d]) auto
  then show "ring_get (ring_set buf q v) x = vals ! nat x" using assms(1) x by (simp add: data_ok_def)
qed

lemma producer_ok_store:
  assumes "producer_ok d n buf vals pc" "ring_size (length buf) k" "n = length buf"
    and "\<And>x. x \<in> holds pc \<Longrightarrow> d < x" "q \<notin> holds pc" "d < q" "q \<le> d + int n"
  shows "producer_ok d n (ring_set buf q v) vals pc"
proof -
  have other: "ring_get (ring_set buf q v) x = ring_get buf x" if "x \<in> holds pc" "x \<le> d + int n" for x
    using assms that by (intro ring_get_set_other [of _ k d]) auto
  show ?thesis
  proof (cases pc)
    case (P_fill lo xs i)
    then have "ring_get (ring_set buf q v) (lo + int j) = ring_get buf (lo + int j)" if "j < i" for j
      using assms(1) that by (intro other) (auto simp: fits_def)
    then show ?thesis using assms(1) P_fill by simp
  next
    case (P_publish lo xs i)
    then have "ring_get (ring_set buf q v) (lo + int j) = ring_get buf (lo + int j)" if "i \<le> j" "j < length xs" for j
      using assms(1) that by (intro other) (auto simp: fits_def)
    then show ?thesis using assms(1) P_publish by simp
  qed (use assms(1) in simp_all)
qed

lemma unread_gt: "consumer_ok P c d vals pc \<Longrightarrow> d < unread d pc"
  by (cases pc) auto

lemma mp_ok_fill:
  assumes ok: "mp_ok s" and p: "producers s p = P_fill lo xs i" "i < length xs"
  shows "mp_ok ((at s p (P_fill lo xs (i + 1)))\<lparr>disruptor :=
       (disruptor s)\<lparr>ring := ring_set (ring (disruptor s)) (lo + int i) (xs ! i)\<rparr>\<rparr>)" (is "mp_ok ?s")
proof -
  note D = mp_okD [OF ok]
  let ?d = "consumed_sequence (disruptor s)" and ?n = "capacity (disruptor s)" and ?q = "lo + int i"
  have H: "held ?s = held s" using held_at_same [of "P_fill lo xs (i + 1)" s p] p by simp
  have P: "published ?s = published s" unfolding H by simp
  have q: "?q \<in> held s p" using p by simp
  have bounds: "?d < ?q" "?q \<le> ?d + int ?n"
    using own_okD(1) [OF D(5) q] D(8) [of p] p by (auto simp: fits_def)
  have size: "ring_size (length (ring (disruptor s))) (generation_shift (disruptor s))" using D(1,3) by simp
  have notpub: "\<not> published s ?q" using q by (auto simp: pub_def)
  show ?thesis
  proof (rule mp_okI, goal_cases)
    case 7
    then show ?case
      unfolding P using data_ok_store [OF D(7) size, of ?d ?q "xs ! i"] own_okD(4) [OF D(5)] D(3) notpub bounds
        unread_gt [OF D(9)] by (simp add: at_def)
  next
    case (8 p')
    show ?case
    proof (cases "p' = p")
      case True
      have "ring_get (ring_set (ring (disruptor s)) ?q (xs ! i)) (lo + int j) = xs ! j" if "j < i + 1" for j
      proof (cases "j = i")
        case True
        then show ?thesis using ring_get_set_same [OF size] by simp
      next
        case False
        with that have "j < i" by simp
        then have "lo + int j \<in> held s p" using p by simp
        then have "ring_get (ring_set (ring (disruptor s)) ?q (xs ! i)) (lo + int j) = ring_get (ring (disruptor s)) (lo + int j)"
          using own_okD(1) [OF D(5)] bounds \<open>j < i\<close> D(3) by (intro ring_get_set_other [OF size, of ?d]) auto
        then show ?thesis using D(8) [of p] p \<open>j < i\<close> by simp
      qed
      then show ?thesis using D(8) [of p] p True by (simp add: at_def)
    next
      case False
      then have "?q \<notin> held s p'" using own_okD(3) [OF D(5) q, of p'] by blast
      with False show ?thesis
        using producer_ok_store [OF D(8) size D(3) [symmetric], of p' ?q "xs ! i"] own_okD(1) [OF D(5)] bounds
        by (simp add: at_def)
    qed
  next
    case 9
    then show ?case unfolding P using D(9) by (simp add: at_def)
  qed (use D H in \<open>simp_all add: at_def\<close>)
qed

subsection \<open>Publishing\<close>

lemma pub_publish:
  assumes "own_ok H c d n" "q \<in> H p"
  shows "pub (H(p := H p - {q})) c x \<longleftrightarrow> pub H c x \<or> x = q"
proof -
  have "0 \<le> q" "q \<le> c" using own_okD [OF assms(1)] assms(2) by force+
  moreover have "q \<notin> H p'" if "p' \<noteq> p" for p' using own_okD(3) [OF assms(1) _ assms(2)] that by blast
  ultimately show ?thesis by (auto simp: pub_def)
qed

lemma own_ok_publish:
  assumes own: "own_ok H c d n" and q: "q \<in> H p" "q \<le> d + int n"
  shows "own_ok (H(p := H p - {q})) c d n"
proof (rule own_okI)
  fix p' x
  assume "x \<in> (H(p := H p - {q})) p'"
  then have "x \<in> H p'" by (cases "p' = p") auto
  then show "d < x \<and> x \<le> c" using own_okD(1,2) [OF own] by blast
next
  fix p1 p2 x
  assume "x \<in> (H(p := H p - {q})) p1" "x \<in> (H(p := H p - {q})) p2"
  then have "x \<in> H p1" "x \<in> H p2" by (auto split: if_splits)
  then show "p1 = p2" by (rule own_okD(3) [OF own])
next
  fix x
  assume "pub (H(p := H p - {q})) c x"
  then show "x \<le> d + int n" using pub_publish [OF own q(1)] own_okD(4) [OF own] q(2) by blast
qed (use own_okD(5,6) [OF own] in auto)

lemma gen_ok_publish:
  assumes "gen_ok P d n k gens" "ring_size n k" "length gens = n" "d < q" "q \<le> d + int n"
    and "\<And>x. P' x \<longleftrightarrow> P x \<or> x = q"
  shows "gen_ok P' d n k (ring_set gens q (generation_of k q))"
  unfolding gen_ok_def
proof (intro allI impI)
  fix x
  assume x: "d < x" "x \<le> d + int n"
  have size: "ring_size (length gens) k" using assms(2,3) by simp
  show "ring_get (ring_set gens q (generation_of k q)) x = generation_of k (if P' x then x else x - int n)"
  proof (cases "x = q")
    case True
    then show ?thesis using ring_get_set_same [OF size] assms(6) by simp
  next
    case False
    then have "ring_get (ring_set gens q (generation_of k q)) x = ring_get gens x"
      using assms x by (intro ring_get_set_other [OF size, of d]) auto
    then show ?thesis using assms(1,6) x False by (simp add: gen_ok_def)
  qed
qed

lemma consumer_ok_mono:
  assumes "consumer_ok P c d vals pc" "\<And>x. P x \<Longrightarrow> P' x"
  shows "consumer_ok P' c d vals pc"
  using assms by (cases pc) auto

lemma mp_ok_publish:
  assumes ok: "mp_ok s" and p: "producers s p = P_publish lo xs i" "i < length xs"
  shows "mp_ok ((at s p (P_publish lo xs (i + 1)))\<lparr>disruptor := publish_slot (lo + int i) (disruptor s)\<rparr>)"
    (is "mp_ok ?s")
proof -
  note D = mp_okD [OF ok]
  let ?q = "lo + int i"
  have q: "?q \<in> held s p" using p by simp
  have "holds (P_publish lo xs (i + 1)) = held s p - {?q}" using p by auto
  then have H: "held ?s = (held s)(p := held s p - {?q})"
    using held_at [of s p "P_publish lo xs (i + 1)"] by simp
  have P: "published ?s x \<longleftrightarrow> published s x \<or> x = ?q" for x
    unfolding H using pub_publish [OF D(5) q] by (simp add: publish_slot_def)
  have bounds: "consumed_sequence (disruptor s) < ?q" "?q \<le> consumed_sequence (disruptor s) + int (capacity (disruptor s))"
    using own_okD(1) [OF D(5) q] D(8) [of p] p by (auto simp: fits_def)
  show ?thesis
  proof (rule mp_okI, goal_cases)
    case 5
    then show ?case unfolding H using own_ok_publish [OF D(5) q bounds(2)] by (simp add: publish_slot_def)
  next
    case 6
    then show ?case
      using gen_ok_publish [OF D(6,1,2) bounds P] by (simp add: publish_slot_def)
  next
    case 7
    have "ring_get (ring (disruptor s)) ?q = sent s ! nat ?q" using D(8) [of p] p by (auto simp: batch_ok_def)
    then show ?case using D(7) P by (auto simp: data_ok_def publish_slot_def at_def)
  next
    case (8 p')
    then show ?case using D(8) [of p'] D(8) [of p] p by (simp add: at_def publish_slot_def)
  next
    case 9
    then show ?case using consumer_ok_mono [OF D(9), of "published ?s"] P by (simp add: at_def publish_slot_def)
  next
    case (10 x)
    then show ?case using D(10) [of x] P by (simp add: publish_slot_def)
  qed (use D in \<open>simp_all add: at_def publish_slot_def\<close>)
qed

subsection \<open>Consuming\<close>

text \<open>The consumer sees exactly the published sequences, one after another.\<close>

lemma available_iff:
  assumes own: "own_ok H c d n" and gen: "gen_ok (pub H c) d n k gens" and size: "ring_size n k" "length gens = n"
    and "d < q" "\<And>x. d < x \<Longrightarrow> x < q \<Longrightarrow> pub H c x"
  shows "ring_get gens q = generation_of k q \<longleftrightarrow> pub H c q"
proof (cases "q \<le> d + int n")
  case True
  then show ?thesis using gen assms(5) generation_wrap_neq [of k q] size(1) by (simp add: gen_ok_def ring_size_def)
next
  case False
  have n: "0 < n" using size(1) by (rule ring_size_pos)
  have "\<not> pub H c (d + int n + 1)" using own_okD(4) [OF own, of "d + int n + 1"] by auto
  then have q: "q = d + int n + 1" using assms(6) [of "d + int n + 1"] False n by force
  have "pub H c (d + 1)" using assms(6) [of "d + 1"] q n by simp
  moreover have "ring_get gens q = ring_get gens (q - int n)"
    using ring_index_wrap [OF size(1), of q] size(2) by (simp add: ring_get_def)
  ultimately have "ring_get gens q = generation_of k (q - int n)" using gen n q by (simp add: gen_ok_def)
  then show ?thesis
    using generation_wrap_neq [of k q] size(1) \<open>\<not> pub H c (d + int n + 1)\<close> q by (simp add: ring_size_def)
qed

lemma mp_available:
  assumes "mp_ok s" "consumer s = C_scan pulling lo sq limit"
  shows "is_available (disruptor s) sq \<longleftrightarrow> published s sq"
  using available_iff [OF mp_okD(5,6,1,2) [OF assms(1)], of sq] mp_okD(9) [OF assms(1)] assms(2)
  by (simp add: is_available_def)

lemma mp_ok_scanned:
  assumes ok: "mp_ok s" and c: "consumer s = C_scan pulling lo sq limit"
    and r: "\<And>x. lo \<le> x \<Longrightarrow> x \<le> r \<Longrightarrow> published s x"
  shows "mp_ok (scanned pulling lo r s)"
proof -
  note D = mp_okD [OF ok]
  have lo: "lo = consumed_sequence (disruptor s) + 1" using D(9) c by simp
  then have lo': "0 \<le> lo" "lo \<le> int (length (sent s))" using own_okD(5,6) [OF D(5)] D(4) by auto
  have "mp_ok (s\<lparr>consumer := C_wait lo\<rparr>)" "mp_ok (s\<lparr>consumer := C_idle\<rparr>)"
    using lo c by (auto intro!: mp_ok_consumer [OF ok])
  moreover have "mp_ok (s\<lparr>consumer := C_read lo r []\<rparr>)" if "lo \<le> r"
    using lo lo' c r that by (intro mp_ok_consumer [OF ok]) (auto simp: batch_ok_def)
  moreover have "mp_ok (s\<lparr>consumer := C_take lo, disruptor := (disruptor s)\<lparr>cached_published_sequence := r\<rparr>\<rparr>)" if "lo \<le> r"
  proof -
    have "mp_ok (s\<lparr>consumer := C_take lo\<rparr>)" using lo c r that by (intro mp_ok_consumer [OF ok]) auto
    from mp_okD [OF this] show ?thesis by (intro mp_okI) (use r lo in auto)
  qed
  ultimately show ?thesis by (simp add: scanned_def)
qed

text \<open>Moving the payload of the first unread sequence out of its slot.\<close>

lemma mp_ok_move:
  assumes ok: "mp_ok s" and q: "published s q" "q = unread (consumed_sequence (disruptor s)) (consumer s)"
    and pc: "unread (consumed_sequence (disruptor s)) pc = q + 1"
      "consumer_ok (published s) (claimed_sequence (disruptor s)) (consumed_sequence (disruptor s)) (sent s) pc"
  shows "mp_ok (s\<lparr>consumer := pc, disruptor := (disruptor s)\<lparr>ring := ring_set (ring (disruptor s)) q v\<rparr>\<rparr>)" (is "mp_ok ?s")
proof -
  note D = mp_okD [OF ok]
  let ?d = "consumed_sequence (disruptor s)"
  have size: "ring_size (length (ring (disruptor s))) (generation_shift (disruptor s))" using D(1,3) by simp
  have dq: "?d < q" using unread_gt [OF D(9)] q(2) by simp
  have qn: "q \<le> ?d + int (capacity (disruptor s))" using published_in(3) [OF ok q(1)] .
  show ?thesis
  proof (rule mp_okI, goal_cases)
    case 7
    have "data_ok (published s) (q + 1) (ring (disruptor s)) (sent s)" using D(7) q(2) by (simp add: data_ok_def)
    then show ?case
      using data_ok_store [OF _ size, of "published s" "q + 1" _ ?d q v] published_in(3) [OF ok] D(3) dq qn pc(1) by simp
  next
    case (8 p)
    have "q \<notin> held s p" using q(1) by (simp add: pub_def)
    then show ?case
      using producer_ok_store [OF D(8) size D(3) [symmetric], of p q v] own_okD(1) [OF D(5)] dq qn by simp
  qed (use D pc(2) in simp_all)
qed

lemma gen_ok_advance:
  assumes gen: "gen_ok P d n k gens" and size: "ring_size n k" "length gens = n"
    and "d \<le> d'" "\<And>x. d < x \<Longrightarrow> x \<le> d' \<Longrightarrow> P x" "\<And>x. P x \<Longrightarrow> x \<le> d + int n"
  shows "gen_ok P d' n k gens"
  unfolding gen_ok_def
proof (intro allI impI)
  fix q
  assume q: "d' < q" "q \<le> d' + int n"
  show "ring_get gens q = generation_of k (if P q then q else q - int n)"
  proof (cases "q \<le> d + int n")
    case True
    then show ?thesis using gen q(1) assms(4) by (simp add: gen_ok_def)
  next
    case False
    then have "P (q - int n)" "\<not> P q" using assms(5) [of "q - int n"] assms(6) [of q] q by auto
    moreover have "ring_get gens q = ring_get gens (q - int n)"
      using ring_index_wrap [OF size(1), of q] size(2) by (simp add: ring_get_def)
    moreover have "q - int n \<le> d + int n" using assms(6) \<open>P (q - int n)\<close> by simp
    ultimately show ?thesis using gen False by (simp add: gen_ok_def)
  qed
qed

lemma producer_ok_advance: "producer_ok d n buf vals pc \<Longrightarrow> d \<le> d' \<Longrightarrow> producer_ok d' n buf vals pc"
  by (cases pc) (auto simp: fits_def)

lemma mp_ok_consume:
  assumes ok: "mp_ok s" and "consumed_sequence (disruptor s) \<le> e"
    and e: "\<And>x. consumed_sequence (disruptor s) < x \<Longrightarrow> x \<le> e \<Longrightarrow> published s x" "e \<le> claimed_sequence (disruptor s)"
    and "unread (consumed_sequence (disruptor s)) (consumer s) = e + 1"
    and "received s @ xs = take (nat (e + 1)) (sent s)"
  shows "mp_ok (s\<lparr>consumer := C_idle, disruptor := consume e (disruptor s), received := received s @ xs\<rparr>)" (is "mp_ok ?s")
proof -
  note D = mp_okD [OF ok]
  show ?thesis
  proof (rule mp_okI, goal_cases)
    case 5
    have "e < q" if "q \<in> held s p" for p q
      using own_okD(1) [OF D(5) that] e(1) [of q] that by (force simp: pub_def)
    then have "own_ok (held s) (claimed_sequence (disruptor s)) e (capacity (disruptor s))"
      using own_okD [OF D(5)] assms(2) e(2) by (intro own_okI) force+
    then show ?case by (simp add: consume_def)
  next
    case 6
    then show ?case
      using gen_ok_advance [OF D(6,1,2) assms(2) e(1)] own_okD(4) [OF D(5)] by (simp add: consume_def)
  next
    case 7
    then show ?case using D(7) assms(5) by (simp add: consume_def)
  next
    case (8 p)
    then show ?case using producer_ok_advance [OF D(8) assms(2)] by (simp add: consume_def)
  next
    case (10 x)
    then show ?case using D(10) assms(2) by (simp add: consume_def)
  qed (use D assms(6) in \<open>simp_all add: consume_def\<close>)
qed

lemma take_batch:
  assumes "batch_ok vals lo xs"
  shows "take (nat lo) vals @ xs = take (nat (lo + int (length xs))) vals"
proof (rule nth_equalityI)
  show "length (take (nat lo) vals @ xs) = length (take (nat (lo + int (length xs))) vals)"
    using assms by (auto simp: batch_ok_def)
next
  fix i
  assume i: "i < length (take (nat lo) vals @ xs)"
  show "(take (nat lo) vals @ xs) ! i = take (nat (lo + int (length xs))) vals ! i"
  proof (cases "i < nat lo")
    case True
    then show ?thesis using assms by (auto simp: batch_ok_def nth_append min_def)
  next
    case False
    define j where "j = i - nat lo"
    have "int (length (take (nat lo) vals)) = lo" using assms by (auto simp: batch_ok_def)
    with False i have j: "i = nat lo + j" "j < length xs" by (auto simp: j_def)
    then have "nat (lo + int j) = i" "nat lo \<le> length vals" using assms by (auto simp: batch_ok_def)
    then show ?thesis using assms j by (auto simp: batch_ok_def nth_append min_def)
  qed
qed

subsection \<open>All steps\<close>

lemma mp_ok_call: "mp_call s s' \<Longrightarrow> mp_ok s \<Longrightarrow> mp_ok s'"
proof (induction rule: mp_call.induct)
  case (call_emplace s p sequence d x)
  then show ?case
    using mp_ok_claim [OF call_emplace(3), of p 1 "[x]" _ "P_wait sequence [x]", OF _ _ refl]
      batch_ok_new [OF mp_okD(4) [OF call_emplace(3)], of "[x]"]
    by (auto simp: next_one_def Let_def)
next
  case (call_next_batch s p payloads first d)
  then show ?case
    using mp_ok_claim [OF call_next_batch(4), of p "length payloads" payloads _ "P_wait first payloads", OF _ _ refl]
      batch_ok_new [OF mp_okD(4) [OF call_next_batch(4)], of payloads]
    by (auto simp: next_batch_def Let_def)
next
  case (call_try_next s p x)
  then show ?case by (intro mp_ok_at) auto
qed

lemma batch_ok_snoc:
  "batch_ok vals lo xs \<Longrightarrow> lo + int (length xs) < int (length vals) \<Longrightarrow>
     batch_ok vals lo (xs @ [vals ! nat (lo + int (length xs))])"
  by (auto simp: batch_ok_def nth_append less_Suc_eq)

lemma mp_ok_run: "mp_run s s' \<Longrightarrow> mp_ok s \<Longrightarrow> mp_ok s'"
proof (induction rule: mp_run.induct)
  case (run_wait s p lo xs)
  then show ?case using mp_okD(8) [OF run_wait(3), of p]
    by (intro mp_ok_at) (auto simp: has_capacity_def fits_def Let_def)
next
  case (run_fill s p lo xs i)
  then show ?case by (intro mp_ok_fill)
next
  case (run_filled s p lo xs i)
  then show ?case using mp_okD(8) [OF run_filled(3), of p] by (intro mp_ok_at) auto
next
  case (run_publish s p lo xs i)
  then show ?case by (intro mp_ok_publish)
next
  case (run_published s p lo xs i)
  then show ?case by (intro mp_ok_at) auto
next
  case (run_try_room s p current x)
  then show ?case by (intro mp_ok_at) (auto simp: has_capacity_def Let_def)
next
  case (run_try_claim s p current x)
  then show ?case
    using mp_ok_claim [OF run_try_claim(3), of p 1 "[x]" _ "P_fill (current + 1) [x] 0", OF _ _ refl]
      batch_ok_new [OF mp_okD(4) [OF run_try_claim(3)], of "[x]"] mp_okD(8) [OF run_try_claim(3), of p]
    by (auto simp: fits_def)
next
  case (run_pull s)
  then show ?case by (intro mp_ok_consumer) auto
next
  case (run_drain s lo)
  then show ?case using own_okD(6) [OF mp_okD(5) [OF run_drain(3)]] by (intro mp_ok_consumer) auto
next
  case (run_cached s sq)
  then show ?case using mp_okD(9,10) [OF run_cached(3)] by (intro mp_ok_consumer) auto
next
  case (run_uncached s sq)
  then show ?case using mp_okD(9) [OF run_uncached(3)] by (intro mp_ok_consumer) auto
next
  case (run_claimed s sq)
  then show ?case using mp_okD(9) [OF run_claimed(3)] by (intro mp_ok_consumer) auto
next
  case (run_scan s pulling lo sq limit)
  then have "published s sq" using mp_available by blast
  then have "\<forall>x. lo \<le> x \<longrightarrow> x < sq + 1 \<longrightarrow> published s x"
    using mp_okD(9) [OF run_scan(4)] run_scan(1) by (metis consumer_ok.simps(4) zless_add1_eq)
  then show ?case using mp_okD(9) [OF run_scan(4)] run_scan by (intro mp_ok_consumer) auto
next
  case (run_gap s pulling lo sq limit)
  then show ?case using mp_okD(9) [OF run_gap(4)] by (intro mp_ok_scanned) auto
next
  case (run_scanned s pulling lo sq limit)
  then show ?case using mp_okD(9) [OF run_scanned(3)] by (intro mp_ok_scanned) auto
next
  case (run_take s sq d moved_from)
  then show ?case using mp_okD(7,9) [OF run_take(3)]
    by (auto intro!: mp_ok_move simp: data_ok_def)
next
  case (run_consume s sq x)
  note D = mp_okD [OF run_consume(2)]
  from D(9) run_consume(1) have sq: "sq = consumed_sequence (disruptor s) + 1" "published s sq" "x = sent s ! nat sq" by auto
  have "batch_ok (sent s) sq [x]" using sq published_in(1,2) [OF run_consume(2) sq(2)] by (auto simp: batch_ok_def)
  moreover have "published s y" if "consumed_sequence (disruptor s) < y" "y \<le> sq" for y
  proof -
    have "y = sq" using that sq(1) by simp
    with sq(2) show ?thesis by simp
  qed
  moreover have "sq \<le> claimed_sequence (disruptor s)" using sq(2) by (simp add: pub_def)
  ultimately show ?case
    using take_batch [of "sent s" sq "[x]"] sq(1) D(11) run_consume by (intro mp_ok_consume) auto
next
  case (run_read s lo hi xs sq d moved_from)
  note D = mp_okD [OF run_read(5)]
  have c: "lo = consumed_sequence (disruptor s) + 1" "published s sq" "batch_ok (sent s) lo xs"
    using D(9) run_read by auto
  moreover have "ring_get (ring d) sq = sent s ! nat sq" using D(7) c run_read by (simp add: data_ok_def)
  moreover have "sq < int (length (sent s))" using published_in(1,2) [OF run_read(5) c(2)] by simp
  ultimately show ?case
    using batch_ok_snoc [of "sent s" lo xs] D(9) run_read by (auto intro!: mp_ok_move)
next
  case (run_consume_batch s lo hi xs)
  note D = mp_okD [OF run_consume_batch(3)]
  have c: "lo = consumed_sequence (disruptor s) + 1" "\<forall>x. lo \<le> x \<longrightarrow> x \<le> hi \<longrightarrow> published s x" "lo \<le> hi"
    "batch_ok (sent s) lo xs" "lo + int (length xs) = hi + 1"
    using D(9) run_consume_batch by auto
  from c(2,3) have "hi \<le> claimed_sequence (disruptor s)" by (auto simp: pub_def)
  moreover have "received s @ xs = take (nat (hi + 1)) (sent s)"
    using take_batch [OF c(4)] D(11) unfolding c(5) by (simp add: c(1))
  ultimately show ?case using c run_consume_batch by (intro mp_ok_consume) auto
qed (auto intro: mp_ok_at)

section \<open>Progress\<close>

text \<open>Runs that leave the claims and the producers other than \<open>p\<close> alone.\<close>

definition quiet :: "'p \<Rightarrow> ('p, 'a) mp_system \<Rightarrow> ('p, 'a) mp_system \<Rightarrow> bool" where
  "quiet p s s' \<longleftrightarrow>
     sent s' = sent s \<and> claimed_sequence (disruptor s') = claimed_sequence (disruptor s)
     \<and> consumed_sequence (disruptor s') = consumed_sequence (disruptor s)
     \<and> capacity (disruptor s') = capacity (disruptor s) \<and> (\<forall>p'. p' \<noteq> p \<longrightarrow> producers s' p' = producers s p')"

lemma quiet_trans: "quiet p s s' \<Longrightarrow> quiet p s' s'' \<Longrightarrow> quiet p s s''"
  by (simp add: quiet_def)

lemma mp_ok_runs: "mp_run\<^sup>*\<^sup>* s s' \<Longrightarrow> mp_ok s \<Longrightarrow> mp_ok s'"
  by (induction rule: rtranclp_induct) (auto intro: mp_ok_run)

text \<open>A producer that has filled its slots publishes them up to any sequence it holds.\<close>

lemma publish_reaches:
  assumes "mp_ok s" "producers s p = P_publish lo xs i" "lo + int i \<le> q" "q < lo + int (length xs)"
  shows "\<exists>s' j. mp_run\<^sup>*\<^sup>* s s' \<and> quiet p s s' \<and> producers s' p = P_publish lo xs j \<and> q < lo + int j"
  using assms
proof (induction "nat (q - lo - int i)" arbitrary: s i)
  case (0 i s)
  define s1 where "s1 = (at s p (P_publish lo xs (i + 1)))\<lparr>disruptor := publish_slot (lo + int i) (disruptor s)\<rparr>"
  have "mp_run s s1" unfolding s1_def using 0 by (intro run_publish) auto
  moreover have "quiet p s s1" by (simp add: s1_def quiet_def at_def publish_slot_def)
  moreover have "producers s1 p = P_publish lo xs (i + 1)" by (simp add: s1_def at_def)
  ultimately show ?case using 0 by (intro exI [of _ s1] exI [of _ "i + 1"]) auto
next
  case (Suc n i s)
  define s1 where "s1 = (at s p (P_publish lo xs (i + 1)))\<lparr>disruptor := publish_slot (lo + int i) (disruptor s)\<rparr>"
  have r: "mp_run s s1" unfolding s1_def using Suc.prems by (intro run_publish) auto
  moreover have qt: "quiet p s s1" by (simp add: s1_def quiet_def at_def publish_slot_def)
  moreover have "\<exists>s' j. mp_run\<^sup>*\<^sup>* s1 s' \<and> quiet p s1 s' \<and> producers s' p = P_publish lo xs j \<and> q < lo + int j"
    using Suc.hyps(2) Suc.prems mp_ok_run [OF r Suc.prems(1)]
    by (intro Suc.hyps(1) [of "i + 1"]) (auto simp: s1_def at_def)
  ultimately show ?case by (metis converse_rtranclp_into_rtranclp quiet_trans)
qed

lemma fill_reaches:
  assumes "mp_ok s" "producers s p = P_fill lo xs i"
  shows "\<exists>s'. mp_run\<^sup>*\<^sup>* s s' \<and> quiet p s s' \<and> producers s' p = P_publish lo xs 0"
  using assms
proof (induction "length xs - i" arbitrary: s i)
  case (0 i s)
  then have "i = length xs" using mp_okD(8) [OF 0(2), of p] by simp
  then have "mp_run s (at s p (P_publish lo xs 0))" using 0 by (intro run_filled)
  then show ?case by (intro exI [of _ "at s p (P_publish lo xs 0)"]) (auto simp: quiet_def at_def)
next
  case (Suc n i s)
  define s1 where "s1 = (at s p (P_fill lo xs (i + 1)))\<lparr>disruptor :=
       (disruptor s)\<lparr>ring := ring_set (ring (disruptor s)) (lo + int i) (xs ! i)\<rparr>\<rparr>"
  have r: "mp_run s s1" unfolding s1_def using Suc by (intro run_fill) auto
  moreover have "quiet p s s1" by (simp add: s1_def quiet_def at_def)
  moreover have "\<exists>s'. mp_run\<^sup>*\<^sup>* s1 s' \<and> quiet p s1 s' \<and> producers s' p = P_publish lo xs 0"
    using Suc.hyps(2) mp_ok_run [OF r Suc.prems(1)] by (intro Suc.hyps(1) [of "i + 1"]) (auto simp: s1_def at_def)
  ultimately show ?case by (metis converse_rtranclp_into_rtranclp quiet_trans)
qed

text \<open>If the next sequence to be consumed is claimed, its producer can publish it without anyone's help.\<close>

lemma next_gets_published:
  assumes ok: "mp_ok s" and q: "q = consumed_sequence (disruptor s) + 1" "q \<le> claimed_sequence (disruptor s)"
    and small: "\<And>p lo xs. producers s p = P_wait lo xs \<Longrightarrow> length xs \<le> capacity (disruptor s)"
  shows "\<exists>s' p. mp_run\<^sup>*\<^sup>* s s' \<and> quiet p s s' \<and> published s' q
    \<and> (\<forall>lo xs. producers s' p = P_wait lo xs \<longrightarrow> producers s p = P_wait lo xs)"
proof (cases "published s q")
  case True
  then show ?thesis by (intro exI [of _ s]) (auto simp: quiet_def)
next
  case False
  note D = mp_okD [OF ok]
  have "0 \<le> q" using own_okD(5) [OF D(5)] q(1) by simp
  with False q(2) obtain p where p: "q \<in> held s p" by (auto simp: pub_def)
  have "\<exists>s' j lo xs. mp_run\<^sup>*\<^sup>* s s' \<and> quiet p s s' \<and> producers s' p = P_publish lo xs j \<and> lo \<le> q \<and> q < lo + int j"
  proof -
    have from_fill: ?thesis if s1: "mp_run\<^sup>*\<^sup>* s s1" "quiet p s s1" "producers s1 p = P_fill lo xs i" "lo \<le> q" "q < lo + int (length xs)"
      for s1 lo xs i
    proof -
      obtain s2 where s2: "mp_run\<^sup>*\<^sup>* s1 s2" "quiet p s1 s2" "producers s2 p = P_publish lo xs 0"
        using fill_reaches [OF mp_ok_runs [OF s1(1) ok] s1(3)] by blast
      moreover obtain s3 j where "mp_run\<^sup>*\<^sup>* s2 s3" "quiet p s2 s3" "producers s3 p = P_publish lo xs j" "q < lo + int j"
        using publish_reaches [OF mp_ok_runs [OF s2(1) mp_ok_runs [OF s1(1) ok]] s2(3), of q] s1(4,5) by auto
      ultimately show ?thesis using s1 by (meson quiet_trans rtranclp_trans)
    qed
    have "\<exists>lo xs i. producers s p = P_wait lo xs \<or> producers s p = P_fill lo xs i \<or> producers s p = P_publish lo xs i"
      using p by (cases "producers s p") auto
    then consider (wait) lo xs where "producers s p = P_wait lo xs" | (fill) lo xs i where "producers s p = P_fill lo xs i"
      | (publish) lo xs i where "producers s p = P_publish lo xs i" by blast
    then show ?thesis
    proof cases
      case wait
      have "lo \<in> held s p" using p wait by (cases xs) auto
      then have "lo = q" using own_okD(1) [OF D(5), of lo p] p q(1) wait by simp
      then have "has_capacity (disruptor s) (lo + int (length xs) - 1)"
        using small [OF wait] q(1) by (simp add: has_capacity_def)
      from run_wait [OF wait this] have "mp_run\<^sup>*\<^sup>* s (at s p (P_fill lo xs 0))" by blast
      then show ?thesis using p wait by (intro from_fill) (auto simp: quiet_def at_def)
    next
      case fill
      then show ?thesis using p by (intro from_fill [of s]) (auto simp: quiet_def)
    next
      case publish
      then show ?thesis using publish_reaches [OF ok publish, of q] p by auto
    qed
  qed
  then obtain s' j lo xs where s': "mp_run\<^sup>*\<^sup>* s s'" "quiet p s s'" "producers s' p = P_publish lo xs j" "lo \<le> q" "q < lo + int j"
    by blast
  have "q \<notin> held s' p'" for p'
  proof (cases "p' = p")
    case False
    then have "held s' p' = held s p'" using s'(2) by (simp add: quiet_def)
    then show ?thesis using own_okD(3) [OF D(5) p, of p'] False by blast
  qed (use s'(3,5) in auto)
  then have "published s' q" using \<open>0 \<le> q\<close> q(2) s'(2) by (simp add: pub_def quiet_def)
  then show ?thesis using s' by (intro exI [of _ s'] exI [of _ p]) auto
qed

text \<open>The consumer moves and the producers do not.\<close>

definition same :: "('p, 'a) mp_system \<Rightarrow> ('p, 'a) mp_system \<Rightarrow> bool" where
  "same s s' \<longleftrightarrow>
     sent s' = sent s \<and> claimed_sequence (disruptor s') = claimed_sequence (disruptor s)
     \<and> capacity (disruptor s') = capacity (disruptor s) \<and> producers s' = producers s"

definition advances :: "('p, 'a) mp_system \<Rightarrow> bool" where
  "advances s \<longleftrightarrow>
     (\<exists>s'. mp_run\<^sup>*\<^sup>* s s' \<and> same s s' \<and> consumed_sequence (disruptor s) < consumed_sequence (disruptor s'))"

lemma advances_step:
  assumes "mp_run s s1" "advances s1" "same s s1" "consumed_sequence (disruptor s1) = consumed_sequence (disruptor s)"
  shows "advances s"
proof -
  from assms(2) obtain s' where "mp_run\<^sup>*\<^sup>* s1 s'" "same s1 s'" "consumed_sequence (disruptor s1) < consumed_sequence (disruptor s')"
    by (auto simp: advances_def)
  with assms(1,3,4) show ?thesis unfolding advances_def same_def by (metis converse_rtranclp_into_rtranclp)
qed

lemma advances_last:
  assumes "mp_run s s'" "same s s'" "consumed_sequence (disruptor s) < consumed_sequence (disruptor s')"
  shows "advances s"
  using assms unfolding advances_def by blast

lemma take_advances:
  assumes "mp_ok s" "consumer s = C_take sq"
  shows "advances s"
proof -
  define s1 where "s1 = s\<lparr>consumer := C_taken sq (ring_get (ring (disruptor s)) sq),
     disruptor := (disruptor s)\<lparr>ring := ring_set (ring (disruptor s)) sq (ring_get (ring (disruptor s)) sq)\<rparr>\<rparr>"
  have "mp_run s s1" unfolding s1_def by (rule run_take [OF assms(2) refl])
  moreover have "advances s1"
    using mp_okD(9) [OF assms(1)] assms(2)
    by (intro advances_last [OF run_consume [of s1 sq]]) (auto simp: s1_def same_def consume_def)
  ultimately show ?thesis by (rule advances_step) (simp_all add: s1_def same_def)
qed

lemma read_advances:
  assumes "mp_ok s" "consumer s = C_read lo hi xs"
  shows "advances s"
  using assms
proof (induction "nat (hi + 1 - lo - int (length xs))" arbitrary: s xs)
  case (0 xs s)
  then show ?case
    using mp_okD(9) [OF 0(2)] by (intro advances_last [OF run_consume_batch [of s lo hi xs]]) (auto simp: same_def consume_def)
next
  case (Suc n xs s)
  define sq where "sq = lo + int (length xs)"
  define s1 where "s1 = s\<lparr>consumer := C_read lo hi (xs @ [ring_get (ring (disruptor s)) sq]),
     disruptor := (disruptor s)\<lparr>ring := ring_set (ring (disruptor s)) sq (ring_get (ring (disruptor s)) sq)\<rparr>\<rparr>"
  have r: "mp_run s s1" unfolding s1_def using Suc by (intro run_read) (auto simp: sq_def)
  moreover have "advances s1"
    using Suc.hyps(2) mp_ok_run [OF r Suc.prems(1)] by (intro Suc.hyps(1)) (auto simp: s1_def)
  ultimately show ?case by (rule advances_step) (simp_all add: s1_def same_def)
qed

text \<open>A pulling scan that has seen one published sequence ends with a take.\<close>

lemma scan_advances:
  assumes "mp_ok s" "consumer s = C_scan True lo sq limit" "lo < sq"
  shows "advances s"
  using assms
proof (induction "nat (limit + 1 - sq)" arbitrary: s sq)
  case (0 sq s)
  have c: "sq = limit + 1" using mp_okD(9) [OF 0(2)] 0 by simp
  have r: "mp_run s (scanned True lo limit s)" using 0 c by (intro run_scanned [of s True lo sq limit]) auto
  have "advances (scanned True lo limit s)"
    using mp_ok_run [OF r 0(2)] 0 c by (intro take_advances [of _ lo]) (auto simp: scanned_def)
  with r show ?case by (rule advances_step) (use 0 c in \<open>simp_all add: scanned_def same_def\<close>)
next
  case (Suc n sq s)
  show ?case
  proof (cases "is_available (disruptor s) sq")
    case True
    define s1 where "s1 = s\<lparr>consumer := C_scan True lo (sq + 1) limit\<rparr>"
    have r: "mp_run s s1" unfolding s1_def using Suc True by (intro run_scan) auto
    moreover have "advances s1"
      using Suc.hyps(2) Suc.prems mp_ok_run [OF r Suc.prems(1)] by (intro Suc.hyps(1) [of "sq + 1"]) (auto simp: s1_def)
    ultimately show ?thesis by (rule advances_step) (simp_all add: s1_def same_def)
  next
    case False
    have r: "mp_run s (scanned True lo (sq - 1) s)" using Suc False by (intro run_gap [of s True lo sq limit]) auto
    have "advances (scanned True lo (sq - 1) s)"
      using mp_ok_run [OF r Suc.prems(1)] Suc.prems(3) by (intro take_advances [of _ lo]) (auto simp: scanned_def)
    with r show ?thesis by (rule advances_step) (use Suc.prems(3) in \<open>simp_all add: scanned_def same_def\<close>)
  qed
qed

lemma wait_advances:
  assumes ok: "mp_ok s" and c: "consumer s = C_wait sq" and "published s sq"
  shows "advances s"
proof -
  let ?c = "claimed_sequence (disruptor s)"
  have sq: "sq \<le> ?c" using assms(3) by (simp add: pub_def)
  define s1 where "s1 = s\<lparr>consumer := C_scan True sq sq ?c\<rparr>"
  define s2 where "s2 = s1\<lparr>consumer := C_scan True sq (sq + 1) ?c\<rparr>"
  have r1: "mp_run s s1" unfolding s1_def using c sq by (intro run_claimed) auto
  note ok1 = mp_ok_run [OF r1 ok]
  have "is_available (disruptor s1) sq" using mp_available [OF ok1] assms(3) by (simp add: s1_def)
  then have r2: "mp_run s1 s2" unfolding s2_def using sq by (intro run_scan) (auto simp: s1_def)
  have "advances s2"
    using scan_advances [OF mp_ok_run [OF r2 ok1]] by (simp add: s2_def)
  with r2 have "advances s1" by (rule advances_step) (simp_all add: s2_def same_def)
  with r1 show ?thesis by (rule advances_step) (simp_all add: s1_def same_def)
qed

lemma next_advances:
  assumes ok: "mp_ok s" and c: "consumer s = C_next sq" and "published s sq"
  shows "advances s"
proof (cases "sq > cached_published_sequence (disruptor s)")
  case True
  then have r: "mp_run s (s\<lparr>consumer := C_wait sq\<rparr>)" using c by (intro run_uncached)
  with wait_advances [OF mp_ok_run [OF r ok]] assms(3) have "advances (s\<lparr>consumer := C_wait sq\<rparr>)" by simp
  with r show ?thesis by (rule advances_step) (simp_all add: same_def)
next
  case False
  then have r: "mp_run s (s\<lparr>consumer := C_take sq\<rparr>)" using c by (intro run_cached)
  with take_advances [OF mp_ok_run [OF r ok]] have "advances (s\<lparr>consumer := C_take sq\<rparr>)" by simp
  with r show ?thesis by (rule advances_step) (simp_all add: same_def)
qed

lemma idle_advances:
  assumes ok: "mp_ok s" and c: "consumer s = C_idle" and p: "published s (consumed_sequence (disruptor s) + 1)"
  shows "advances s"
proof -
  define s1 where "s1 = s\<lparr>consumer := C_next (consumed_sequence (disruptor s) + 1)\<rparr>"
  have r: "mp_run s s1" unfolding s1_def using c by (rule run_pull)
  then have "advances s1" using next_advances [OF mp_ok_run [OF r ok]] p by (simp add: s1_def)
  with r show ?thesis by (rule advances_step) (simp_all add: s1_def same_def)
qed

text \<open>Whatever the consumer is doing, a published sequence gets consumed.\<close>

lemma scanned_advances:
  assumes ok: "mp_ok (scanned pulling lo r s)" and lo: "lo = consumed_sequence (disruptor s) + 1" and p: "published s lo"
  shows "advances (scanned pulling lo r s)"
proof -
  have "consumer (scanned pulling lo r s) \<in> {C_wait lo, C_take lo, C_idle, C_read lo r []}"
    by (simp add: scanned_def)
  moreover have "published (scanned pulling lo r s) lo"
    "consumed_sequence (disruptor (scanned pulling lo r s)) + 1 = lo" using p lo by (simp_all add: scanned_def)
  ultimately show ?thesis
    using wait_advances [OF ok] take_advances [OF ok] idle_advances [OF ok] read_advances [OF ok] by auto
qed

lemma any_scan_advances:
  assumes "mp_ok s" "consumer s = C_scan pulling lo sq limit" "published s lo"
  shows "advances s"
  using assms
proof (induction "nat (limit + 1 - sq)" arbitrary: s sq)
  case (0 sq s)
  have lo: "lo = consumed_sequence (disruptor s) + 1" using mp_okD(9) [OF 0(2)] 0 by simp
  have r: "mp_run s (scanned pulling lo limit s)" using 0 by (intro run_scanned [of s pulling lo sq limit]) auto
  with scanned_advances [OF mp_ok_run [OF r 0(2)] lo 0(4)] show ?case
    by (intro advances_step [OF r]) (simp_all add: scanned_def same_def)
next
  case (Suc n sq s)
  have lo: "lo = consumed_sequence (disruptor s) + 1" using mp_okD(9) [OF Suc.prems(1)] Suc.prems by simp
  show ?case
  proof (cases "is_available (disruptor s) sq")
    case True
    define s1 where "s1 = s\<lparr>consumer := C_scan pulling lo (sq + 1) limit\<rparr>"
    have r: "mp_run s s1" unfolding s1_def using Suc True by (intro run_scan) auto
    moreover have "advances s1"
      using Suc.hyps(2) Suc.prems mp_ok_run [OF r Suc.prems(1)] by (intro Suc.hyps(1) [of "sq + 1"]) (auto simp: s1_def)
    ultimately show ?thesis by (rule advances_step) (simp_all add: s1_def same_def)
  next
    case False
    have r: "mp_run s (scanned pulling lo (sq - 1) s)" using Suc False by (intro run_gap [of s pulling lo sq limit]) auto
    with scanned_advances [OF mp_ok_run [OF r Suc.prems(1)] lo Suc.prems(3)] show ?thesis
      by (intro advances_step [OF r]) (simp_all add: scanned_def same_def)
  qed
qed

lemma published_advances:
  assumes ok: "mp_ok s" and p: "published s (consumed_sequence (disruptor s) + 1)"
  shows "advances s"
proof (cases "consumer s")
  case (C_taken sq x)
  then show ?thesis using mp_okD(9) [OF ok]
    by (intro advances_last [OF run_consume [of s sq x]]) (auto simp: same_def consume_def)
qed (use mp_okD(9) [OF ok] p in \<open>auto intro: idle_advances [OF ok] next_advances [OF ok] wait_advances [OF ok]
    any_scan_advances [OF ok] take_advances [OF ok] read_advances [OF ok]\<close>)

text \<open>No waiting batch is larger than the ring.\<close>

definition small_batches :: "('p, 'a) mp_system \<Rightarrow> bool" where
  "small_batches s \<longleftrightarrow> (\<forall>p lo xs. producers s p = P_wait lo xs \<longrightarrow> length xs \<le> capacity (disruptor s))"

lemma received_length:
  assumes "mp_ok s"
  shows "int (length (received s)) = consumed_sequence (disruptor s) + 1"
  using mp_okD(4,11) [OF assms] own_okD(5,6) [OF mp_okD(5) [OF assms]] by simp

lemma mp_progress:
  assumes ok: "mp_ok s" and small: "small_batches s" and more: "length (received s) < length (sent s)"
  shows "\<exists>s'. mp_run\<^sup>*\<^sup>* s s' \<and> small_batches s' \<and> sent s' = sent s \<and> length (received s) < length (received s')"
proof -
  let ?q = "consumed_sequence (disruptor s) + 1"
  have q: "?q \<le> claimed_sequence (disruptor s)" using received_length [OF ok] mp_okD(4) [OF ok] more by simp
  have "length xs \<le> capacity (disruptor s)" if "producers s p = P_wait lo xs" for p lo xs
    using small that unfolding small_batches_def by blast
  then obtain s1 p where s1: "mp_run\<^sup>*\<^sup>* s s1" "quiet p s s1" "published s1 ?q"
    "\<forall>lo xs. producers s1 p = P_wait lo xs \<longrightarrow> producers s p = P_wait lo xs"
    using next_gets_published [OF ok refl q] by blast
  have ok1: "mp_ok s1" using mp_ok_runs [OF s1(1) ok] .
  have "consumed_sequence (disruptor s1) = consumed_sequence (disruptor s)" using s1(2) by (simp add: quiet_def)
  then obtain s2 where s2: "mp_run\<^sup>*\<^sup>* s1 s2" "same s1 s2" "consumed_sequence (disruptor s) < consumed_sequence (disruptor s2)"
    using published_advances [OF ok1] s1(3) by (auto simp: advances_def)
  have wait: "producers s p' = P_wait lo xs" if "producers s2 p' = P_wait lo xs" for p' lo xs
    using that s2(2) s1(2,4) by (cases "p' = p") (auto simp: same_def quiet_def)
  have eq: "capacity (disruptor s2) = capacity (disruptor s)" "sent s2 = sent s"
    using s1(2) s2(2) by (auto simp: same_def quiet_def)
  have "small_batches s2"
    unfolding small_batches_def eq(1) using wait small unfolding small_batches_def by blast
  moreover have "length (received s) < length (received s2)"
    using received_length [OF ok] received_length [OF mp_ok_runs [OF s2(1) ok1]] s2(3) by simp
  moreover have "mp_run\<^sup>*\<^sup>* s s2" using s1(1) s2(1) by (rule rtranclp_trans)
  ultimately show ?thesis using eq(2) by blast
qed

lemma mp_order:
  assumes "mp_ok s"
  shows "received s = take (length (received s)) (sent s)"
proof -
  have "nat (consumed_sequence (disruptor s) + 1) = length (received s)" using received_length [OF assms] by simp
  with mp_okD(11) [OF assms] show ?thesis by metis
qed

interpretation mp: fifo_queue mp_ok small_batches mp_call mp_run sent received
  by unfold_locales (fact mp_ok_call, fact mp_ok_run, fact mp_order, fact mp_progress)

text \<open>\<open>scan_published\<close> from the first unconsumed sequence stops at the first gap.\<close>

lemma scan_published_frontier:
  assumes ok: "mp_ok s" and "consumed_sequence (disruptor s) < sq" "sq \<le> claimed_sequence (disruptor s) + 1"
    and "\<And>x. consumed_sequence (disruptor s) < x \<Longrightarrow> x < sq \<Longrightarrow> published s x"
    and r: "r = scan_published (disruptor s) sq (claimed_sequence (disruptor s))"
  shows "sq - 1 \<le> r \<and> (\<forall>x. consumed_sequence (disruptor s) < x \<longrightarrow> x \<le> r \<longrightarrow> published s x) \<and> \<not> published s (r + 1)"
  using assms(2-)
proof (induction "nat (claimed_sequence (disruptor s) + 1 - sq)" arbitrary: sq)
  case 0
  then have "r = claimed_sequence (disruptor s)" by (subst (asm) scan_published.simps) simp
  with 0 show ?case by (auto simp: pub_def)
next
  case (Suc n)
  have avail: "is_available (disruptor s) sq \<longleftrightarrow> published s sq"
    using available_iff [OF mp_okD(5,6,1,2) [OF ok] Suc.prems(1,3)] by (simp add: is_available_def)
  have sq: "sq \<le> claimed_sequence (disruptor s)" using Suc.hyps(2) by simp
  show ?case
  proof (cases "published s sq")
    case True
    then have "r = scan_published (disruptor s) (sq + 1) (claimed_sequence (disruptor s))"
      using Suc.prems(4) avail sq by (subst (asm) scan_published.simps) simp
    moreover have "published s x" if "consumed_sequence (disruptor s) < x" "x < sq + 1" for x
      using Suc.prems(3) [of x] True that by (cases "x = sq") auto
    moreover have "n = nat (claimed_sequence (disruptor s) + 1 - (sq + 1))" using Suc.hyps(2) by simp
    ultimately show ?thesis
      using Suc.hyps(1) [of "sq + 1"] Suc.prems(1) sq by auto
  next
    case False
    then have "r = sq - 1" using Suc.prems(4) avail sq by (subst (asm) scan_published.simps) simp
    with False Suc.prems(3) show ?thesis by auto
  qed
qed

section \<open>Properties of the multi-producer disruptor\<close>

text \<open>C7: the queue is first-in first-out and loses, repeats and tears nothing. Under every interleaving of any
  number of producers (single, batch and trying) with the consumer (pulling or draining), what the consumer has
  received is exactly the payloads of the first claimed sequences, in claim order; a published payload stays intact in
  its slot until it is read; and never more payloads are published than the ring has slots.\<close>

theorem mp_fifo:
  assumes "ring_size n k" "fifo_reachable mp_call mp_run (start n k x) s"
  shows "received s = take (length (received s)) (sent s)
       \<and> int (length (received s)) = consumed_sequence (disruptor s) + 1
       \<and> (\<forall>q. published s q \<longrightarrow> unread (consumed_sequence (disruptor s)) (consumer s) \<le> q \<longrightarrow>
            ring_get (ring (disruptor s)) q = sent s ! nat q)
       \<and> (\<forall>q. published s q \<longrightarrow> q \<le> consumed_sequence (disruptor s) + int (capacity (disruptor s)))"
proof -
  have ok: "mp_ok s" using mp.reachable_ok [OF assms(2) mp_ok_start [OF assms(1)]] .
  have "\<forall>q. published s q \<longrightarrow> q \<le> consumed_sequence (disruptor s) + int (capacity (disruptor s))"
    using own_okD(4) [OF mp_okD(5) [OF ok]] by blast
  then show ?thesis
    by (intro conjI mp.order [OF ok] received_length [OF ok] mp_okD(7) [OF ok, unfolded data_ok_def])
qed

text \<open>A producer has claimed the first sequence.\<close>

definition one_claimed :: "(unit, nat) mp_system" where
  "one_claimed =
     (at (start 2 1 0) () (P_wait 0 [7]))\<lparr>disruptor := (new_disruptor 2 1 0)\<lparr>claimed_sequence := 0\<rparr>, sent := [7]\<rparr>"

lemma one_claimed_reachable: "fifo_reachable mp_call mp_run (start 2 1 0) one_claimed"
proof -
  have "mp_call (start 2 1 0) one_claimed"
    using call_emplace [of "start 2 1 0" "()" 0 "(new_disruptor 2 1 0)\<lparr>claimed_sequence := 0\<rparr>" 7]
    by (simp add: one_claimed_def start_def next_one_def new_disruptor_def)
  then show ?thesis by (rule fifo_call [OF fifo_start])
qed

theorem mp_fifo_witness:
  "ring_size 2 1 \<and> fifo_reachable mp_call mp_run (start 2 1 0) one_claimed
   \<and> received one_claimed = take (length (received one_claimed)) [7]"
proof -
  have size: "ring_size 2 1" by (simp add: ring_size_def)
  have "sent one_claimed = [7]" by (simp add: one_claimed_def)
  with mp_fifo [OF size one_claimed_reachable, THEN conjunct1]
  have "received one_claimed = take (length (received one_claimed)) [7]" by argo
  then show ?thesis by (intro conjI size one_claimed_reachable)
qed

text \<open>C15: every claimed payload can still be delivered. From every reachable state in which no waiting batch is
  larger than the ring, the threads can go on, without any new call, to a state in which the consumer has received
  every payload claimed so far: no interleaving leads into a deadlock, not even a stalled producer behind others.\<close>

theorem mp_delivers:
  assumes "ring_size n k" "fifo_reachable mp_call mp_run (start n k x) s"
    and "small_batches s"
  shows "\<exists>s'. mp_run\<^sup>*\<^sup>* s s' \<and> sent s' = sent s \<and> received s' = sent s"
  by (rule mp.delivers [OF mp.reachable_ok [OF assms(2) mp_ok_start [OF assms(1)]] assms(3)])

theorem mp_delivers_witness: "\<exists>s'. mp_run\<^sup>*\<^sup>* one_claimed s' \<and> received s' = [7]"
proof -
  have "ring_size 2 1" by (simp add: ring_size_def)
  moreover have "small_batches one_claimed"
    by (simp add: small_batches_def one_claimed_def at_def new_disruptor_def)
  ultimately obtain s' where "mp_run\<^sup>*\<^sup>* one_claimed s'" "received s' = sent one_claimed"
    using mp_delivers [OF _ one_claimed_reachable] by blast
  moreover have "sent one_claimed = [7]" by (simp add: one_claimed_def)
  ultimately show ?thesis by auto
qed

text \<open>\<open>get_published_sequence\<close> finds the publication frontier. Asked from the first unconsumed sequence, it
  returns the end of the gapless run of published sequences, although slots are never cleared, generations wrap at 32
  bits, and claims may run ahead of the ring.\<close>

theorem mp_published_frontier:
  assumes "ring_size n k" "fifo_reachable mp_call mp_run (start n k x) s"
    and "lo = consumed_sequence (disruptor s) + 1" "r = get_published_sequence (disruptor s) lo"
  shows "lo - 1 \<le> r \<and> (\<forall>q. lo \<le> q \<longrightarrow> q \<le> r \<longrightarrow> published s q) \<and> \<not> published s (r + 1)"
proof -
  have ok: "mp_ok s" using mp.reachable_ok [OF assms(2) mp_ok_start [OF assms(1)]] .
  have "consumed_sequence (disruptor s) \<le> claimed_sequence (disruptor s)" using own_okD(6) [OF mp_okD(5) [OF ok]] .
  then show ?thesis
    using scan_published_frontier [OF ok, of lo r] assms(3,4) by (auto simp: get_published_sequence_def)
qed

theorem mp_published_frontier_witness:
  "\<exists>r. r = get_published_sequence (disruptor one_claimed) 0 \<and> \<not> published one_claimed (r + 1)"
proof -
  have "ring_size 2 1" by (simp add: ring_size_def)
  from mp_published_frontier [OF this one_claimed_reachable refl refl] show ?thesis
    by (simp add: one_claimed_def new_disruptor_def)
qed

end
