(* ===== verification/Disruptor_SP.thy ===== *)
theory Disruptor_SP
  imports Disruptor_MP
begin

text \<open>
  The single-producer disruptor: \<open>SingleProducerSequencer\<close>
  (\<open>src/common/concurrency-starling/disruptor/sequencer/single_producer_sequencer.hpp\<close>) under the same queue
  operations. One producer publishes in order, so one cursor is the publication frontier; the producer keeps a
  private bound up to which it may claim without looking at the consumer's position.

  The consumer's states, the batches and what it means for the ring to hold the right payloads are those of the
  multi-producer theory; the contract proved is the same locale.
\<close>

record 'a sp_disruptor =
  sp_published :: int
  sp_consumed :: int
  sp_claimed :: int
  cached_capacity_limit :: int
  sp_capacity :: nat
  sp_ring :: "'a list"
  sp_cached_published :: int

definition new_sp_disruptor :: "nat \<Rightarrow> 'a \<Rightarrow> 'a sp_disruptor" where
  "new_sp_disruptor buffer_size x =
     \<lparr>sp_published = -1, sp_consumed = -1, sp_claimed = -1, cached_capacity_limit = int buffer_size - 1,
      sp_capacity = buffer_size, sp_ring = replicate buffer_size x, sp_cached_published = -1\<rparr>"

section \<open>The sequencer\<close>

text \<open>\<open>wait_for_capacity\<close>: the fast path, the loop's condition, and the new bound, computed with 64-bit
  wrap-around and saturated.\<close>

definition sp_cached_capacity :: "'a sp_disruptor \<Rightarrow> int \<Rightarrow> bool" where
  "sp_cached_capacity d sequence = (\<not> sequence > cached_capacity_limit d)"

definition sp_has_capacity :: "'a sp_disruptor \<Rightarrow> int \<Rightarrow> bool" where
  "sp_has_capacity d sequence =
     (let wrap_point = sequence - int (sp_capacity d) in \<not> wrap_point > sp_consumed d)"

definition new_capacity_limit :: "'a sp_disruptor \<Rightarrow> int" where
  "new_capacity_limit d =
     (let limit = uint ((word_of_int (sp_consumed d) :: 64 word) + of_nat (sp_capacity d))
      in min limit (2 ^ 63 - 1))"

definition sp_publish_batch :: "int \<Rightarrow> 'a sp_disruptor \<Rightarrow> 'a sp_disruptor" where
  "sp_publish_batch hi d = d\<lparr>sp_published := hi\<rparr>"

definition sp_get_published_sequence :: "'a sp_disruptor \<Rightarrow> int \<Rightarrow> int" where
  "sp_get_published_sequence d lower_bound = sp_published d"

definition sp_is_available :: "'a sp_disruptor \<Rightarrow> int \<Rightarrow> bool" where
  "sp_is_available d sequence = (sp_published d \<ge> sequence)"

definition sp_consume :: "int \<Rightarrow> 'a sp_disruptor \<Rightarrow> 'a sp_disruptor" where
  "sp_consume sequence d = d\<lparr>sp_consumed := sequence\<rparr>"

definition sp_remaining_capacity :: "'a sp_disruptor \<Rightarrow> int" where
  "sp_remaining_capacity d = int (sp_capacity d) - (sp_published d - sp_consumed d)"

definition sp_approx_size :: "'a sp_disruptor \<Rightarrow> int" where
  "sp_approx_size d = sp_published d - sp_consumed d"

section \<open>The threads\<close>

datatype 'a sp_producer =
    S_idle
  | S_wait "'a list"
  | S_fill int "'a list" nat
  | S_publish int "'a list"

record 'a sp_system =
  queue :: "'a sp_disruptor"
  sp_producer :: "'a sp_producer"
  sp_consumer :: "'a consumer"
  sp_sent :: "'a list"
  sp_received :: "'a list"

definition sp_start :: "nat \<Rightarrow> 'a \<Rightarrow> 'a sp_system" where
  "sp_start buffer_size x =
     \<lparr>queue = new_sp_disruptor buffer_size x, sp_producer = S_idle, sp_consumer = C_idle,
      sp_sent = [], sp_received = []\<rparr>"

text \<open>The claim itself: the producer owns the cursor.\<close>

definition sp_claim :: "'a list \<Rightarrow> 'a sp_system \<Rightarrow> 'a sp_system" where
  "sp_claim payloads s =
     (let previous_claim = sp_claimed (queue s);
          last_claim = previous_claim + int (length payloads)
      in s\<lparr>queue := (queue s)\<lparr>sp_claimed := last_claim\<rparr>,
           sp_producer := S_fill (previous_claim + 1) payloads 0, sp_sent := sp_sent s @ payloads\<rparr>)"

inductive sp_call :: "'a sp_system \<Rightarrow> 'a sp_system \<Rightarrow> bool" where
  sp_call_next_batch:
    "sp_producer s = S_idle \<Longrightarrow> payloads \<noteq> [] \<Longrightarrow> sp_call s (s\<lparr>sp_producer := S_wait payloads\<rparr>)"
| sp_call_try_next:
    "sp_producer s = S_idle \<Longrightarrow> sp_has_capacity (queue s) (sp_claimed (queue s) + 1) \<Longrightarrow>
     sp_call s (sp_claim [x] s)"

inductive sp_run :: "'a sp_system \<Rightarrow> 'a sp_system \<Rightarrow> bool" where
  sp_run_cached_capacity:
    "sp_producer s = S_wait xs \<Longrightarrow> sp_cached_capacity (queue s) (sp_claimed (queue s) + int (length xs)) \<Longrightarrow>
     sp_run s (sp_claim xs s)"
| sp_run_capacity:
    "sp_producer s = S_wait xs \<Longrightarrow> \<not> sp_cached_capacity (queue s) (sp_claimed (queue s) + int (length xs)) \<Longrightarrow>
     sp_has_capacity (queue s) (sp_claimed (queue s) + int (length xs)) \<Longrightarrow>
     sp_run s (sp_claim xs
       (s\<lparr>queue := (queue s)\<lparr>cached_capacity_limit := new_capacity_limit (queue s)\<rparr>\<rparr>))"
| sp_run_fill:
    "sp_producer s = S_fill lo xs i \<Longrightarrow> i < length xs \<Longrightarrow>
     sp_run s (s\<lparr>sp_producer := S_fill lo xs (i + 1),
                 queue := (queue s)\<lparr>sp_ring := ring_set (sp_ring (queue s)) (lo + int i) (xs ! i)\<rparr>\<rparr>)"
| sp_run_filled:
    "sp_producer s = S_fill lo xs i \<Longrightarrow> i = length xs \<Longrightarrow> sp_run s (s\<lparr>sp_producer := S_publish lo xs\<rparr>)"
| sp_run_publish:
    "sp_producer s = S_publish lo xs \<Longrightarrow>
     sp_run s (s\<lparr>sp_producer := S_idle, queue := sp_publish_batch (lo + int (length xs) - 1) (queue s)\<rparr>)"
| sp_run_pull:
    "sp_consumer s = C_idle \<Longrightarrow> sp_run s (s\<lparr>sp_consumer := C_next (sp_consumed (queue s) + 1)\<rparr>)"
| sp_run_drain:
    "sp_consumer s = C_idle \<Longrightarrow> lo = sp_consumed (queue s) + 1 \<Longrightarrow> hi = sp_get_published_sequence (queue s) lo \<Longrightarrow>
     \<not> hi < lo \<Longrightarrow> sp_run s (s\<lparr>sp_consumer := C_read lo hi []\<rparr>)"
| sp_run_cached:
    "sp_consumer s = C_next sq \<Longrightarrow> \<not> sq > sp_cached_published (queue s) \<Longrightarrow>
     sp_run s (s\<lparr>sp_consumer := C_take sq\<rparr>)"
| sp_run_uncached:
    "sp_consumer s = C_next sq \<Longrightarrow> sq > sp_cached_published (queue s) \<Longrightarrow>
     sp_run s (s\<lparr>sp_consumer := C_wait sq\<rparr>)"
| sp_run_seen:
    "sp_consumer s = C_wait sq \<Longrightarrow> \<not> sp_published (queue s) < sq \<Longrightarrow>
     sp_run s (s\<lparr>sp_consumer := C_take sq,
                 queue := (queue s)\<lparr>sp_cached_published := sp_published (queue s)\<rparr>\<rparr>)"
| sp_run_take:
    "sp_consumer s = C_take sq \<Longrightarrow> d = queue s \<Longrightarrow>
     sp_run s (s\<lparr>sp_consumer := C_taken sq (ring_get (sp_ring d) sq),
                 queue := d\<lparr>sp_ring := ring_set (sp_ring d) sq moved_from\<rparr>\<rparr>)"
| sp_run_consume:
    "sp_consumer s = C_taken sq x \<Longrightarrow>
     sp_run s (s\<lparr>sp_consumer := C_idle, queue := sp_consume sq (queue s), sp_received := sp_received s @ [x]\<rparr>)"
| sp_run_read:
    "sp_consumer s = C_read lo hi xs \<Longrightarrow> sq = lo + int (length xs) \<Longrightarrow> sq \<le> hi \<Longrightarrow> d = queue s \<Longrightarrow>
     sp_run s (s\<lparr>sp_consumer := C_read lo hi (xs @ [ring_get (sp_ring d) sq]),
                 queue := d\<lparr>sp_ring := ring_set (sp_ring d) sq moved_from\<rparr>\<rparr>)"
| sp_run_consume_batch:
    "sp_consumer s = C_read lo hi xs \<Longrightarrow> \<not> lo + int (length xs) \<le> hi \<Longrightarrow>
     sp_run s (s\<lparr>sp_consumer := C_idle, queue := sp_consume hi (queue s), sp_received := sp_received s @ xs\<rparr>)"

section \<open>The invariant\<close>

definition reached :: "int \<Rightarrow> int \<Rightarrow> bool" where
  "reached p q \<longleftrightarrow> 0 \<le> q \<and> q \<le> p"

fun sp_producer_ok :: "int \<Rightarrow> int \<Rightarrow> int \<Rightarrow> nat \<Rightarrow> 'a list \<Rightarrow> 'a list \<Rightarrow> 'a sp_producer \<Rightarrow> bool" where
  "sp_producer_ok p c d n buf vals S_idle = (p = c)"
| "sp_producer_ok p c d n buf vals (S_wait xs) = (p = c \<and> xs \<noteq> [])"
| "sp_producer_ok p c d n buf vals (S_fill lo xs i) =
     (lo = p + 1 \<and> lo + int (length xs) = c + 1 \<and> batch_ok vals lo xs \<and> fits d n lo xs \<and> i \<le> length xs
      \<and> (\<forall>j < i. ring_get buf (lo + int j) = xs ! j))"
| "sp_producer_ok p c d n buf vals (S_publish lo xs) =
     (lo = p + 1 \<and> lo + int (length xs) = c + 1 \<and> batch_ok vals lo xs \<and> fits d n lo xs
      \<and> (\<forall>j < length xs. ring_get buf (lo + int j) = xs ! j))"

definition bounds_ok :: "'a sp_disruptor \<Rightarrow> bool" where
  "bounds_ok q \<longleftrightarrow>
     (\<exists>k. ring_size (sp_capacity q) k) \<and> length (sp_ring q) = sp_capacity q
     \<and> - 1 \<le> sp_consumed q \<and> sp_consumed q \<le> sp_published q \<and> sp_published q \<le> sp_claimed q
     \<and> sp_published q \<le> sp_consumed q + int (sp_capacity q)
     \<and> cached_capacity_limit q \<le> sp_consumed q + int (sp_capacity q)
     \<and> sp_cached_published q \<le> sp_published q"

definition sp_ok :: "'a sp_system \<Rightarrow> bool" where
  "sp_ok s \<longleftrightarrow>
     (let q = queue s in
      bounds_ok q \<and> int (length (sp_sent s)) = sp_claimed q + 1
      \<and> data_ok (reached (sp_published q)) (unread (sp_consumed q) (sp_consumer s)) (sp_ring q) (sp_sent s)
      \<and> sp_producer_ok (sp_published q) (sp_claimed q) (sp_consumed q) (sp_capacity q) (sp_ring q) (sp_sent s) (sp_producer s)
      \<and> consumer_ok (reached (sp_published q)) (sp_claimed q) (sp_consumed q) (sp_sent s) (sp_consumer s)
      \<and> sp_received s = take (nat (sp_consumed q + 1)) (sp_sent s))"

lemma sp_okI:
  assumes "bounds_ok (queue s)" "int (length (sp_sent s)) = sp_claimed (queue s) + 1"
    and "data_ok (reached (sp_published (queue s))) (unread (sp_consumed (queue s)) (sp_consumer s)) (sp_ring (queue s)) (sp_sent s)"
    and "sp_producer_ok (sp_published (queue s)) (sp_claimed (queue s)) (sp_consumed (queue s)) (sp_capacity (queue s))
          (sp_ring (queue s)) (sp_sent s) (sp_producer s)"
    and "consumer_ok (reached (sp_published (queue s))) (sp_claimed (queue s)) (sp_consumed (queue s)) (sp_sent s) (sp_consumer s)"
    and "sp_received s = take (nat (sp_consumed (queue s) + 1)) (sp_sent s)"
  shows "sp_ok s"
  using assms unfolding sp_ok_def Let_def by blast

lemma sp_okD:
  assumes "sp_ok s"
  shows "bounds_ok (queue s)" "int (length (sp_sent s)) = sp_claimed (queue s) + 1"
    and "data_ok (reached (sp_published (queue s))) (unread (sp_consumed (queue s)) (sp_consumer s)) (sp_ring (queue s)) (sp_sent s)"
    and "sp_producer_ok (sp_published (queue s)) (sp_claimed (queue s)) (sp_consumed (queue s)) (sp_capacity (queue s))
          (sp_ring (queue s)) (sp_sent s) (sp_producer s)"
    and "consumer_ok (reached (sp_published (queue s))) (sp_claimed (queue s)) (sp_consumed (queue s)) (sp_sent s) (sp_consumer s)"
    and "sp_received s = take (nat (sp_consumed (queue s) + 1)) (sp_sent s)"
  using assms unfolding sp_ok_def Let_def by blast+

lemma bounds_okD:
  assumes "bounds_ok q"
  shows "length (sp_ring q) = sp_capacity q" "- 1 \<le> sp_consumed q" "sp_consumed q \<le> sp_published q"
    "sp_published q \<le> sp_claimed q" "sp_published q \<le> sp_consumed q + int (sp_capacity q)"
    "cached_capacity_limit q \<le> sp_consumed q + int (sp_capacity q)" "sp_cached_published q \<le> sp_published q"
    "\<exists>k. ring_size (sp_capacity q) k"
  using assms unfolding bounds_ok_def by blast+

lemma sp_ok_start: "ring_size n k \<Longrightarrow> sp_ok (sp_start n x)"
  by (auto intro!: sp_okI simp: sp_start_def new_sp_disruptor_def bounds_ok_def data_ok_def reached_def)


section \<open>Every step keeps the invariant\<close>

lemma sp_sizeE:
  assumes "bounds_ok q"
  obtains k where "ring_size (length (sp_ring q)) k"
  using bounds_okD(1,8) [OF assms] by auto

lemma reached_in: "bounds_ok q \<Longrightarrow> int (length vals) = sp_claimed q + 1 \<Longrightarrow> reached (sp_published q) x \<Longrightarrow> nat x < length vals"
  using bounds_okD(4) [of q] by (auto simp: reached_def)

text \<open>The consumer, or the producer, moves without touching memory.\<close>

lemma sp_ok_consumer:
  assumes "sp_ok s" "unread (sp_consumed (queue s)) pc = unread (sp_consumed (queue s)) (sp_consumer s)"
    and "consumer_ok (reached (sp_published (queue s))) (sp_claimed (queue s)) (sp_consumed (queue s)) (sp_sent s) pc"
  shows "sp_ok (s\<lparr>sp_consumer := pc\<rparr>)"
  using assms unfolding sp_ok_def Let_def by simp

lemma sp_ok_producer:
  assumes "sp_ok s"
    and "sp_producer_ok (sp_published (queue s)) (sp_claimed (queue s)) (sp_consumed (queue s)) (sp_capacity (queue s))
          (sp_ring (queue s)) (sp_sent s) pc"
  shows "sp_ok (s\<lparr>sp_producer := pc\<rparr>)"
  using assms unfolding sp_ok_def Let_def by simp

text \<open>The recomputed bound never runs ahead of the consumer.\<close>

lemma new_capacity_limit_le:
  assumes "bounds_ok q"
  shows "new_capacity_limit q \<le> sp_consumed q + int (sp_capacity q)"
proof -
  obtain k where "ring_size (sp_capacity q) k" using bounds_okD(8) [OF assms] ..
  then have "0 < sp_capacity q" by (rule ring_size_pos)
  then have x: "0 \<le> sp_consumed q + int (sp_capacity q)" using bounds_okD(2) [OF assms] by simp
  have "(word_of_int (sp_consumed q) :: 64 word) + of_nat (sp_capacity q) = word_of_int (sp_consumed q + int (sp_capacity q))"
    by simp
  then have "uint ((word_of_int (sp_consumed q) :: 64 word) + of_nat (sp_capacity q))
      = (sp_consumed q + int (sp_capacity q)) mod 2 ^ 64"
    by (simp only: uint_word_of_int) simp
  also have "\<dots> \<le> sp_consumed q + int (sp_capacity q)" using x by (rule zmod_le_nonneg_dividend)
  finally show ?thesis by (simp add: new_capacity_limit_def Let_def min_le_iff_disj)
qed

lemma sp_ok_limit:
  assumes "sp_ok s"
  shows "sp_ok (s\<lparr>queue := (queue s)\<lparr>cached_capacity_limit := new_capacity_limit (queue s)\<rparr>\<rparr>)"
proof -
  note D = sp_okD [OF assms]
  have "bounds_ok ((queue s)\<lparr>cached_capacity_limit := new_capacity_limit (queue s)\<rparr>)"
    using new_capacity_limit_le [OF D(1)] D(1) by (simp add: bounds_ok_def)
  with D show ?thesis by (intro sp_okI) simp_all
qed

lemma sp_ok_claim:
  assumes ok: "sp_ok s" and p: "sp_published (queue s) = sp_claimed (queue s)"
    and room: "sp_claimed (queue s) + int (length xs) \<le> sp_consumed (queue s) + int (sp_capacity (queue s))"
  shows "sp_ok (sp_claim xs s)"
proof -
  note D = sp_okD [OF ok]
  let ?q = "queue s"
  have B: "bounds_ok (?q\<lparr>sp_claimed := sp_claimed ?q + int (length xs)\<rparr>)"
    using D(1) by (auto simp: bounds_ok_def)
  have "nat (sp_consumed ?q + 1) \<le> length (sp_sent s)" using D(2) bounds_okD(3,4) [OF D(1)] by simp
  then have "take (nat (sp_consumed ?q + 1)) (sp_sent s @ xs) = take (nat (sp_consumed ?q + 1)) (sp_sent s)" by simp
  moreover have "fits (sp_consumed ?q) (sp_capacity ?q) (sp_claimed ?q + 1) xs" using room by (simp add: fits_def)
  ultimately show ?thesis
    using B D batch_ok_new [OF D(2), of xs] p data_ok_append [OF D(3) reached_in [OF D(1,2)]]
      consumer_ok_append [OF D(5) _ reached_in [OF D(1,2)], of "sp_claimed ?q + int (length xs)"]
    by (intro sp_okI) (simp_all add: sp_claim_def Let_def)
qed

lemma sp_ok_fill:
  assumes ok: "sp_ok s" and p: "sp_producer s = S_fill lo xs i" "i < length xs"
  shows "sp_ok (s\<lparr>sp_producer := S_fill lo xs (i + 1),
                 queue := (queue s)\<lparr>sp_ring := ring_set (sp_ring (queue s)) (lo + int i) (xs ! i)\<rparr>\<rparr>)"
proof -
  note D = sp_okD [OF ok]
  let ?q = "queue s" and ?at = "lo + int i"
  obtain k where size: "ring_size (length (sp_ring ?q)) k" using sp_sizeE [OF D(1)] .
  have lo: "lo = sp_published ?q + 1" "fits (sp_consumed ?q) (sp_capacity ?q) lo xs" using D(4) p by auto
  then have b: "sp_consumed ?q < lo" "lo + int (length xs) \<le> sp_consumed ?q + int (length (sp_ring ?q)) + 1"
    using bounds_okD(1,3) [OF D(1)] by (auto simp: fits_def)
  have B: "bounds_ok (?q\<lparr>sp_ring := ring_set (sp_ring ?q) ?at (xs ! i)\<rparr>)"
    using D(1) by (simp add: bounds_ok_def)
  have data: "data_ok (reached (sp_published ?q)) (unread (sp_consumed ?q) (sp_consumer s)) (ring_set (sp_ring ?q) ?at (xs ! i)) (sp_sent s)"
    using b lo p(2) bounds_okD(1,5) [OF D(1)] unread_gt [OF D(5)]
    by (intro data_ok_store [OF D(3) size, of "sp_consumed ?q"]) (auto simp: reached_def)
  have "ring_get (ring_set (sp_ring ?q) ?at (xs ! i)) (lo + int j) = xs ! j" if "j < i + 1" for j
  proof (cases "j = i")
    case True
    then show ?thesis using ring_get_set_same [OF size] by simp
  next
    case False
    with that have "j < i" by simp
    then have "ring_get (ring_set (sp_ring ?q) ?at (xs ! i)) (lo + int j) = ring_get (sp_ring ?q) (lo + int j)"
      using b p(2) by (intro ring_get_set_other [OF size, of "sp_consumed ?q"]) auto
    then show ?thesis using D(4) p \<open>j < i\<close> by auto
  qed
  then have "sp_producer_ok (sp_published ?q) (sp_claimed ?q) (sp_consumed ?q) (sp_capacity ?q)
      (ring_set (sp_ring ?q) ?at (xs ! i)) (sp_sent s) (S_fill lo xs (i + 1))"
    using D(4) p by auto
  with B data D show ?thesis by (intro sp_okI) (simp_all del: sp_producer_ok.simps)
qed

lemma sp_ok_publish:
  assumes ok: "sp_ok s" and p: "sp_producer s = S_publish lo xs"
  shows "sp_ok (s\<lparr>sp_producer := S_idle, queue := sp_publish_batch (lo + int (length xs) - 1) (queue s)\<rparr>)"
proof -
  note D = sp_okD [OF ok]
  let ?q = "queue s"
  have lo: "lo = sp_published ?q + 1" "lo + int (length xs) = sp_claimed ?q + 1" "batch_ok (sp_sent s) lo xs"
    "fits (sp_consumed ?q) (sp_capacity ?q) lo xs" "\<forall>j < length xs. ring_get (sp_ring ?q) (lo + int j) = xs ! j"
    using D(4) p by auto
  have B: "bounds_ok (sp_publish_batch (sp_claimed ?q) ?q)"
    using D(1) lo by (auto simp: bounds_ok_def sp_publish_batch_def fits_def)
  have new: "ring_get (sp_ring ?q) x = sp_sent s ! nat x" if "lo \<le> x" "x \<le> sp_claimed ?q" for x
  proof -
    define j where "j = nat (x - lo)"
    have "x = lo + int j" "j < length xs" using that lo(2) by (auto simp: j_def)
    then show ?thesis using lo(3,5) by (simp add: batch_ok_def)
  qed
  have "data_ok (reached (sp_claimed ?q)) (unread (sp_consumed ?q) (sp_consumer s)) (sp_ring ?q) (sp_sent s)"
    unfolding data_ok_def
  proof (intro allI impI)
    fix x
    assume "reached (sp_claimed ?q) x" "unread (sp_consumed ?q) (sp_consumer s) \<le> x"
    then show "ring_get (sp_ring ?q) x = sp_sent s ! nat x"
      using D(3) new [of x] lo(1) by (cases "lo \<le> x") (auto simp: data_ok_def reached_def)
  qed
  moreover have "consumer_ok (reached (sp_claimed ?q)) (sp_claimed ?q) (sp_consumed ?q) (sp_sent s) (sp_consumer s)"
    using bounds_okD(4) [OF D(1)] by (intro consumer_ok_mono [OF D(5)]) (auto simp: reached_def)
  ultimately show ?thesis
    using B D lo(2) by (intro sp_okI) (simp_all add: sp_publish_batch_def)
qed

lemma sp_ok_move:
  assumes ok: "sp_ok s" and q: "reached (sp_published (queue s)) q" "q = unread (sp_consumed (queue s)) (sp_consumer s)"
    and pc: "unread (sp_consumed (queue s)) pc = q + 1"
      "consumer_ok (reached (sp_published (queue s))) (sp_claimed (queue s)) (sp_consumed (queue s)) (sp_sent s) pc"
  shows "sp_ok (s\<lparr>sp_consumer := pc, queue := (queue s)\<lparr>sp_ring := ring_set (sp_ring (queue s)) q v\<rparr>\<rparr>)"
proof -
  note D = sp_okD [OF ok]
  let ?q = "queue s" and ?r = "ring_set (sp_ring (queue s)) q v"
  obtain k where size: "ring_size (length (sp_ring ?q)) k" using sp_sizeE [OF D(1)] .
  have qb: "sp_consumed ?q < q" "q \<le> sp_published ?q" using unread_gt [OF D(5)] q by (auto simp: reached_def)
  note b = bounds_okD [OF D(1)]
  have B: "bounds_ok (?q\<lparr>sp_ring := ?r\<rparr>)" using D(1) by (simp add: bounds_ok_def)
  have "data_ok (reached (sp_published ?q)) (q + 1) (sp_ring ?q) (sp_sent s)" using D(3) q(2) by (simp add: data_ok_def)
  then have data: "data_ok (reached (sp_published ?q)) (q + 1) ?r (sp_sent s)"
    using qb b by (intro data_ok_store [OF _ size, of _ _ _ "sp_consumed ?q"]) (auto simp: reached_def)
  have other: "ring_get ?r (lo + int j) = ring_get (sp_ring ?q) (lo + int j)"
    if "lo = sp_published ?q + 1" "fits (sp_consumed ?q) (sp_capacity ?q) lo xs" "j < length xs" for lo j and xs :: "'a list"
    using that qb b by (intro ring_get_set_other [OF size, of "sp_consumed ?q"]) (auto simp: fits_def)
  have prod: "sp_producer_ok (sp_published ?q) (sp_claimed ?q) (sp_consumed ?q) (sp_capacity ?q) ?r (sp_sent s) (sp_producer s)"
    using D(4) other by (cases "sp_producer s") auto
  from B data prod D pc show ?thesis by (intro sp_okI) simp_all
qed

lemma sp_ok_consume:
  assumes ok: "sp_ok s" and e: "sp_consumed (queue s) \<le> e" "e \<le> sp_published (queue s)"
    and "unread (sp_consumed (queue s)) (sp_consumer s) = e + 1"
    and "sp_received s @ xs = take (nat (e + 1)) (sp_sent s)"
  shows "sp_ok (s\<lparr>sp_consumer := C_idle, queue := sp_consume e (queue s), sp_received := sp_received s @ xs\<rparr>)"
proof -
  note D = sp_okD [OF ok]
  have B: "bounds_ok (sp_consume e (queue s))" using D(1) e by (auto simp: bounds_ok_def sp_consume_def)
  have prod: "sp_producer_ok (sp_published (queue s)) (sp_claimed (queue s)) e (sp_capacity (queue s))
          (sp_ring (queue s)) (sp_sent s) (sp_producer s)"
    using D(4) e by (cases "sp_producer s") (auto simp: fits_def)
  from B prod D assms(4,5) show ?thesis by (intro sp_okI) (simp_all add: sp_consume_def)
qed

lemma sp_ok_call: "sp_call s s' \<Longrightarrow> sp_ok s \<Longrightarrow> sp_ok s'"
proof (induction rule: sp_call.induct)
  case (sp_call_next_batch s payloads)
  then show ?case using sp_okD(4) [OF sp_call_next_batch(3)] by (intro sp_ok_producer) auto
next
  case (sp_call_try_next s x)
  then show ?case using sp_okD(4) [OF sp_call_try_next(3)]
    by (intro sp_ok_claim) (auto simp: sp_has_capacity_def Let_def)
qed

lemma sp_ok_run: "sp_run s s' \<Longrightarrow> sp_ok s \<Longrightarrow> sp_ok s'"
proof (induction rule: sp_run.induct)
  case (sp_run_cached_capacity s xs)
  then show ?case using sp_okD(4) [OF sp_run_cached_capacity(3)] bounds_okD(6) [OF sp_okD(1) [OF sp_run_cached_capacity(3)]]
    by (intro sp_ok_claim) (auto simp: sp_cached_capacity_def)
next
  case (sp_run_capacity s xs)
  then show ?case using sp_okD(4) [OF sp_run_capacity(4)]
    by (intro sp_ok_claim sp_ok_limit) (auto simp: sp_has_capacity_def Let_def)
next
  case (sp_run_fill s lo xs i)
  then show ?case by (intro sp_ok_fill)
next
  case (sp_run_filled s lo xs i)
  then show ?case using sp_okD(4) [OF sp_run_filled(3)] by (intro sp_ok_producer) auto
next
  case (sp_run_publish s lo xs)
  then show ?case by (intro sp_ok_publish)
next
  case (sp_run_pull s)
  then show ?case by (intro sp_ok_consumer) auto
next
  case (sp_run_drain s lo hi)
  note D = sp_okD [OF sp_run_drain(5)] and b = bounds_okD [OF sp_okD(1) [OF sp_run_drain(5)]]
  have "batch_ok (sp_sent s) lo []" using sp_run_drain D(2) b by (simp add: batch_ok_def)
  then show ?case using sp_run_drain b
    by (intro sp_ok_consumer) (auto simp: reached_def sp_get_published_sequence_def)
next
  case (sp_run_cached s sq)
  then show ?case using sp_okD(5) [OF sp_run_cached(3)] bounds_okD(2,7) [OF sp_okD(1) [OF sp_run_cached(3)]]
    by (intro sp_ok_consumer) (auto simp: reached_def)
next
  case (sp_run_uncached s sq)
  then show ?case using sp_okD(5) [OF sp_run_uncached(3)] by (intro sp_ok_consumer) auto
next
  case (sp_run_seen s sq)
  have "sp_ok (s\<lparr>sp_consumer := C_take sq\<rparr>)"
    using sp_run_seen sp_okD(5) [OF sp_run_seen(3)] bounds_okD(2) [OF sp_okD(1) [OF sp_run_seen(3)]]
    by (intro sp_ok_consumer) (auto simp: reached_def)
  note D = sp_okD [OF this]
  have "bounds_ok ((queue s)\<lparr>sp_cached_published := sp_published (queue s)\<rparr>)" using D(1) by (simp add: bounds_ok_def)
  with D show ?case by (intro sp_okI) auto
next
  case (sp_run_take s sq d moved_from)
  then show ?case using sp_okD(3,5) [OF sp_run_take(3)] by (auto intro!: sp_ok_move simp: data_ok_def)
next
  case (sp_run_consume s sq x)
  note D = sp_okD [OF sp_run_consume(2)]
  from D(5) sp_run_consume(1)
  have sq: "sq = sp_consumed (queue s) + 1" "reached (sp_published (queue s)) sq" "x = sp_sent s ! nat sq" by auto
  have "batch_ok (sp_sent s) sq [x]" using sq reached_in [OF D(1,2) sq(2)] by (auto simp: batch_ok_def reached_def)
  then show ?case
    using take_batch [of "sp_sent s" sq "[x]"] sq D(6) sp_run_consume by (intro sp_ok_consume) (auto simp: reached_def)
next
  case (sp_run_read s lo hi xs sq d moved_from)
  note D = sp_okD [OF sp_run_read(5)]
  have c: "lo = sp_consumed (queue s) + 1" "reached (sp_published (queue s)) sq" "batch_ok (sp_sent s) lo xs"
    using D(5) sp_run_read by auto
  moreover have "ring_get (sp_ring d) sq = sp_sent s ! nat sq" using D(3) c sp_run_read by (simp add: data_ok_def)
  moreover have "sq < int (length (sp_sent s))" using reached_in [OF D(1,2) c(2)] c(2) by (simp add: reached_def)
  ultimately show ?case
    using batch_ok_snoc [of "sp_sent s" lo xs] D(5) sp_run_read by (auto intro!: sp_ok_move)
next
  case (sp_run_consume_batch s lo hi xs)
  note D = sp_okD [OF sp_run_consume_batch(3)]
  have c: "lo = sp_consumed (queue s) + 1" "\<forall>x. lo \<le> x \<longrightarrow> x \<le> hi \<longrightarrow> reached (sp_published (queue s)) x" "lo \<le> hi"
    "batch_ok (sp_sent s) lo xs" "lo + int (length xs) = hi + 1"
    using D(5) sp_run_consume_batch by auto
  from c(2,3) have "hi \<le> sp_published (queue s)" by (auto simp: reached_def)
  moreover have "sp_received s @ xs = take (nat (hi + 1)) (sp_sent s)"
    using take_batch [OF c(4)] D(6) unfolding c(5) by (simp add: c(1))
  ultimately show ?case using c sp_run_consume_batch by (intro sp_ok_consume) auto
qed

section \<open>Progress\<close>

lemma sp_ok_runs: "sp_run\<^sup>*\<^sup>* s s' \<Longrightarrow> sp_ok s \<Longrightarrow> sp_ok s'"
  by (induction rule: rtranclp_induct) (auto intro: sp_ok_run)

text \<open>The consumer moves and the producer does not.\<close>

definition sp_same :: "'a sp_system \<Rightarrow> 'a sp_system \<Rightarrow> bool" where
  "sp_same s s' \<longleftrightarrow>
     sp_sent s' = sp_sent s \<and> sp_capacity (queue s') = sp_capacity (queue s) \<and> sp_producer s' = sp_producer s"

definition sp_advances :: "'a sp_system \<Rightarrow> bool" where
  "sp_advances s \<longleftrightarrow> (\<exists>s'. sp_run\<^sup>*\<^sup>* s s' \<and> sp_same s s' \<and> sp_consumed (queue s) < sp_consumed (queue s'))"

lemma sp_advances_step:
  assumes "sp_run s s1" "sp_advances s1" "sp_same s s1" "sp_consumed (queue s1) = sp_consumed (queue s)"
  shows "sp_advances s"
proof -
  from assms(2) obtain s' where "sp_run\<^sup>*\<^sup>* s1 s'" "sp_same s1 s'" "sp_consumed (queue s1) < sp_consumed (queue s')"
    by (auto simp: sp_advances_def)
  with assms(1,3,4) show ?thesis unfolding sp_advances_def sp_same_def by (metis converse_rtranclp_into_rtranclp)
qed

lemma sp_advances_last:
  assumes "sp_run s s'" "sp_same s s'" "sp_consumed (queue s) < sp_consumed (queue s')"
  shows "sp_advances s"
  using assms unfolding sp_advances_def by blast

lemma sp_take_advances:
  assumes "sp_ok s" "sp_consumer s = C_take sq"
  shows "sp_advances s"
proof -
  define s1 where "s1 = s\<lparr>sp_consumer := C_taken sq (ring_get (sp_ring (queue s)) sq),
     queue := (queue s)\<lparr>sp_ring := ring_set (sp_ring (queue s)) sq (ring_get (sp_ring (queue s)) sq)\<rparr>\<rparr>"
  have "sp_run s s1" unfolding s1_def by (rule sp_run_take [OF assms(2) refl])
  moreover have "sp_advances s1"
    using sp_okD(5) [OF assms(1)] assms(2)
    by (intro sp_advances_last [OF sp_run_consume [of s1 sq]]) (auto simp: s1_def sp_same_def sp_consume_def)
  ultimately show ?thesis by (rule sp_advances_step) (simp_all add: s1_def sp_same_def)
qed

lemma sp_read_advances:
  assumes "sp_ok s" "sp_consumer s = C_read lo hi xs"
  shows "sp_advances s"
  using assms
proof (induction "nat (hi + 1 - lo - int (length xs))" arbitrary: s xs)
  case (0 xs s)
  then show ?case
    using sp_okD(5) [OF 0(2)]
    by (intro sp_advances_last [OF sp_run_consume_batch [of s lo hi xs]]) (auto simp: sp_same_def sp_consume_def)
next
  case (Suc n xs s)
  define sq where "sq = lo + int (length xs)"
  define s1 where "s1 = s\<lparr>sp_consumer := C_read lo hi (xs @ [ring_get (sp_ring (queue s)) sq]),
     queue := (queue s)\<lparr>sp_ring := ring_set (sp_ring (queue s)) sq (ring_get (sp_ring (queue s)) sq)\<rparr>\<rparr>"
  have r: "sp_run s s1" unfolding s1_def using Suc by (intro sp_run_read) (auto simp: sq_def)
  moreover have "sp_advances s1"
    using Suc.hyps(2) sp_ok_run [OF r Suc.prems(1)] by (intro Suc.hyps(1)) (auto simp: s1_def)
  ultimately show ?case by (rule sp_advances_step) (simp_all add: s1_def sp_same_def)
qed

lemma sp_wait_advances:
  assumes ok: "sp_ok s" and c: "sp_consumer s = C_wait sq" and "sq \<le> sp_published (queue s)"
  shows "sp_advances s"
proof -
  define s1 where "s1 = s\<lparr>sp_consumer := C_take sq, queue := (queue s)\<lparr>sp_cached_published := sp_published (queue s)\<rparr>\<rparr>"
  have r: "sp_run s s1" unfolding s1_def using c assms(3) by (intro sp_run_seen) auto
  moreover have "sp_advances s1" using sp_ok_run [OF r ok] by (rule sp_take_advances [of _ sq]) (simp add: s1_def)
  ultimately show ?thesis by (rule sp_advances_step) (simp_all add: s1_def sp_same_def)
qed

lemma sp_next_advances:
  assumes ok: "sp_ok s" and c: "sp_consumer s = C_next sq" and "sq \<le> sp_published (queue s)"
  shows "sp_advances s"
proof (cases "sq > sp_cached_published (queue s)")
  case True
  then have r: "sp_run s (s\<lparr>sp_consumer := C_wait sq\<rparr>)" using c by (intro sp_run_uncached)
  with sp_wait_advances [OF sp_ok_run [OF r ok]] assms(3) have "sp_advances (s\<lparr>sp_consumer := C_wait sq\<rparr>)" by simp
  with r show ?thesis by (rule sp_advances_step) (simp_all add: sp_same_def)
next
  case False
  then have r: "sp_run s (s\<lparr>sp_consumer := C_take sq\<rparr>)" using c by (intro sp_run_cached)
  with sp_take_advances [OF sp_ok_run [OF r ok]] have "sp_advances (s\<lparr>sp_consumer := C_take sq\<rparr>)" by simp
  with r show ?thesis by (rule sp_advances_step) (simp_all add: sp_same_def)
qed

text \<open>The single-producer consumer never scans slot by slot.\<close>

fun scanning :: "'a consumer \<Rightarrow> bool" where
  "scanning (C_scan pulling lo sq limit) = True"
| "scanning _ = False"

lemma sp_published_advances:
  assumes ok: "sp_ok s" and p: "sp_consumed (queue s) < sp_published (queue s)" and c: "\<not> scanning (sp_consumer s)"
  shows "sp_advances s"
proof (cases "sp_consumer s")
  case C_idle
  define s1 where "s1 = s\<lparr>sp_consumer := C_next (sp_consumed (queue s) + 1)\<rparr>"
  have r: "sp_run s s1" unfolding s1_def using C_idle by (rule sp_run_pull)
  then have "sp_advances s1" using sp_next_advances [OF sp_ok_run [OF r ok]] p by (simp add: s1_def)
  with r show ?thesis by (rule sp_advances_step) (simp_all add: s1_def sp_same_def)
next
  case (C_taken sq x)
  then show ?thesis using sp_okD(5) [OF ok]
    by (intro sp_advances_last [OF sp_run_consume [of s sq x]]) (auto simp: sp_same_def sp_consume_def)
qed (use sp_okD(5) [OF ok] p c in \<open>auto intro: sp_next_advances [OF ok] sp_wait_advances [OF ok]
    sp_take_advances [OF ok] sp_read_advances [OF ok]\<close>)

definition sp_inv :: "'a sp_system \<Rightarrow> bool" where
  "sp_inv s \<longleftrightarrow> sp_ok s \<and> \<not> scanning (sp_consumer s)"

lemma sp_inv_call: "sp_call s s' \<Longrightarrow> sp_inv s \<Longrightarrow> sp_inv s'"
  using sp_ok_call [of s s'] by (auto simp: sp_inv_def sp_claim_def Let_def elim: sp_call.cases)

lemma sp_inv_run: "sp_run s s' \<Longrightarrow> sp_inv s \<Longrightarrow> sp_inv s'"
  using sp_ok_run [of s s'] unfolding sp_inv_def by (auto simp: sp_claim_def Let_def elim!: sp_run.cases)

text \<open>Everything handed to the queue: what is claimed, and what the producer still waits to claim.\<close>

definition sp_requested :: "'a sp_system \<Rightarrow> 'a list" where
  "sp_requested s = sp_sent s @ (case sp_producer s of S_wait xs \<Rightarrow> xs | _ \<Rightarrow> [])"

definition sp_small_batch :: "'a sp_system \<Rightarrow> bool" where
  "sp_small_batch s \<longleftrightarrow> (case sp_producer s of S_wait xs \<Rightarrow> length xs \<le> sp_capacity (queue s) | _ \<Rightarrow> True)"

lemma sp_received_length:
  assumes "sp_ok s"
  shows "int (length (sp_received s)) = sp_consumed (queue s) + 1"
  using sp_okD(2,6) [OF assms] bounds_okD(2,3,4) [OF sp_okD(1) [OF assms]] by simp

lemma sp_order:
  assumes "sp_inv s"
  shows "sp_received s = take (length (sp_received s)) (sp_requested s)"
proof -
  have ok: "sp_ok s" using assms by (simp add: sp_inv_def)
  have len: "nat (sp_consumed (queue s) + 1) = length (sp_received s)" using sp_received_length [OF ok] by simp
  have "length (sp_received s) \<le> length (sp_sent s)"
    using sp_received_length [OF ok] sp_okD(2) [OF ok] bounds_okD(3,4) [OF sp_okD(1) [OF ok]] by simp
  then have "take (length (sp_received s)) (sp_requested s) = take (length (sp_received s)) (sp_sent s)"
    by (simp add: sp_requested_def)
  with sp_okD(6) [OF ok] len show ?thesis by metis
qed

text \<open>A producer that has claimed gets its batch published on its own.\<close>

definition sp_quiet :: "'a sp_system \<Rightarrow> 'a sp_system \<Rightarrow> bool" where
  "sp_quiet s s' \<longleftrightarrow>
     sp_sent s' = sp_sent s \<and> sp_capacity (queue s') = sp_capacity (queue s)
     \<and> sp_consumed (queue s') = sp_consumed (queue s) \<and> sp_consumer s' = sp_consumer s"

lemma sp_quiet_trans: "sp_quiet s s' \<Longrightarrow> sp_quiet s' s'' \<Longrightarrow> sp_quiet s s''"
  by (simp add: sp_quiet_def)

lemma sp_publish_reaches:
  assumes "sp_producer s = S_publish lo xs"
  shows "\<exists>s'. sp_run\<^sup>*\<^sup>* s s' \<and> sp_quiet s s' \<and> sp_producer s' = S_idle"
  using sp_run_publish [OF assms]
  by (intro exI [of _ "s\<lparr>sp_producer := S_idle, queue := sp_publish_batch (lo + int (length xs) - 1) (queue s)\<rparr>"])
    (auto simp: sp_quiet_def sp_publish_batch_def)

lemma sp_fill_reaches:
  assumes "sp_ok s" "sp_producer s = S_fill lo xs i"
  shows "\<exists>s'. sp_run\<^sup>*\<^sup>* s s' \<and> sp_quiet s s' \<and> sp_producer s' = S_idle"
  using assms
proof (induction "length xs - i" arbitrary: s i)
  case (0 i s)
  then have "i = length xs" using sp_okD(4) [OF 0(2)] by simp
  then have r: "sp_run s (s\<lparr>sp_producer := S_publish lo xs\<rparr>)" using 0 by (intro sp_run_filled)
  obtain s' where "sp_run\<^sup>*\<^sup>* (s\<lparr>sp_producer := S_publish lo xs\<rparr>) s'" "sp_quiet (s\<lparr>sp_producer := S_publish lo xs\<rparr>) s'"
    "sp_producer s' = S_idle"
    using sp_publish_reaches [of "s\<lparr>sp_producer := S_publish lo xs\<rparr>"] by auto
  then show ?case
    using converse_rtranclp_into_rtranclp [of sp_run, OF r] by (intro exI [of _ s']) (auto simp: sp_quiet_def)
next
  case (Suc n i s)
  define s1 where "s1 = s\<lparr>sp_producer := S_fill lo xs (i + 1),
                 queue := (queue s)\<lparr>sp_ring := ring_set (sp_ring (queue s)) (lo + int i) (xs ! i)\<rparr>\<rparr>"
  have r: "sp_run s s1" unfolding s1_def using Suc by (intro sp_run_fill) auto
  moreover have "sp_quiet s s1" by (simp add: s1_def sp_quiet_def)
  moreover have "\<exists>s'. sp_run\<^sup>*\<^sup>* s1 s' \<and> sp_quiet s1 s' \<and> sp_producer s' = S_idle"
    using Suc.hyps(2) sp_ok_run [OF r Suc.prems(1)] by (intro Suc.hyps(1) [of "i + 1"]) (auto simp: s1_def)
  ultimately show ?case by (metis converse_rtranclp_into_rtranclp sp_quiet_trans)
qed

text \<open>A producer that waits while everything published is consumed can claim.\<close>

lemma sp_wait_claims:
  assumes ok: "sp_ok s" and p: "sp_producer s = S_wait xs" and "length xs \<le> sp_capacity (queue s)"
    and "sp_consumed (queue s) = sp_published (queue s)"
  shows "\<exists>s' lo. sp_run s s' \<and> sp_producer s' = S_fill lo xs 0 \<and> sp_sent s' = sp_sent s @ xs
    \<and> sp_capacity (queue s') = sp_capacity (queue s) \<and> sp_consumed (queue s') = sp_consumed (queue s)"
proof -
  have room: "sp_has_capacity (queue s) (sp_claimed (queue s) + int (length xs))"
    using sp_okD(4) [OF ok] p assms(3,4) by (simp add: sp_has_capacity_def)
  show ?thesis
    using sp_run_cached_capacity [OF p] sp_run_capacity [OF p _ room]
    by (cases "sp_cached_capacity (queue s) (sp_claimed (queue s) + int (length xs))")
      (force simp: sp_claim_def Let_def)+
qed

text \<open>Whatever state the producer is in, what it has been given can be published.\<close>

lemma sp_next_published:
  assumes inv: "sp_inv s" and small: "sp_small_batch s" and more: "length (sp_received s) < length (sp_requested s)"
  shows "\<exists>s'. sp_run\<^sup>*\<^sup>* s s' \<and> sp_small_batch s' \<and> sp_requested s' = sp_requested s
    \<and> sp_consumed (queue s') = sp_consumed (queue s) \<and> sp_consumed (queue s') < sp_published (queue s')"
proof (cases "sp_consumed (queue s) < sp_published (queue s)")
  case True
  with small show ?thesis by blast
next
  case False
  have ok: "sp_ok s" using inv by (simp add: sp_inv_def)
  have eq: "sp_consumed (queue s) = sp_published (queue s)" using False bounds_okD(3) [OF sp_okD(1) [OF ok]] by simp
  have finish: ?thesis if s1: "sp_run\<^sup>*\<^sup>* s s1" "sp_producer s1 = S_idle" "sp_sent s1 = sp_requested s"
    "sp_consumed (queue s1) = sp_consumed (queue s)" for s1
  proof -
    have ok1: "sp_ok s1" using sp_ok_runs [OF s1(1) ok] .
    have "sp_consumed (queue s1) < sp_published (queue s1)"
      using sp_okD(2,4) [OF ok1] s1(2,3,4) more sp_received_length [OF ok] by simp
    then show ?thesis using s1 by (intro exI [of _ s1]) (auto simp: sp_requested_def sp_small_batch_def)
  qed
  show ?thesis
  proof (cases "sp_producer s")
    case S_idle
    then show ?thesis
      using sp_okD(2,4) [OF ok] eq more sp_received_length [OF ok] by (simp add: sp_requested_def)
  next
    case (S_wait xs)
    then obtain s1 lo where s1: "sp_run s s1" "sp_producer s1 = S_fill lo xs 0" "sp_sent s1 = sp_sent s @ xs"
      "sp_consumed (queue s1) = sp_consumed (queue s)"
      using sp_wait_claims [OF ok S_wait _ eq] small by (auto simp: sp_small_batch_def)
    then obtain s2 where "sp_run\<^sup>*\<^sup>* s1 s2" "sp_quiet s1 s2" "sp_producer s2 = S_idle"
      using sp_fill_reaches [OF sp_ok_run [OF s1(1) ok] s1(2)] by blast
    then show ?thesis using s1 S_wait
      by (intro finish [of s2]) (auto simp: sp_quiet_def sp_requested_def)
  next
    case (S_fill lo xs i)
    then obtain s1 where "sp_run\<^sup>*\<^sup>* s s1" "sp_quiet s s1" "sp_producer s1 = S_idle"
      using sp_fill_reaches [OF ok] by blast
    then show ?thesis using S_fill by (intro finish [of s1]) (auto simp: sp_quiet_def sp_requested_def)
  next
    case (S_publish lo xs)
    then obtain s1 where "sp_run\<^sup>*\<^sup>* s s1" "sp_quiet s s1" "sp_producer s1 = S_idle"
      using sp_publish_reaches by blast
    then show ?thesis using S_publish by (intro finish [of s1]) (auto simp: sp_quiet_def sp_requested_def)
  qed
qed

lemma sp_progress:
  assumes inv: "sp_inv s" and small: "sp_small_batch s" and more: "length (sp_received s) < length (sp_requested s)"
  shows "\<exists>s'. sp_run\<^sup>*\<^sup>* s s' \<and> sp_small_batch s' \<and> sp_requested s' = sp_requested s
    \<and> length (sp_received s) < length (sp_received s')"
proof -
  obtain s1 where s1: "sp_run\<^sup>*\<^sup>* s s1" "sp_small_batch s1" "sp_requested s1 = sp_requested s"
    "sp_consumed (queue s1) = sp_consumed (queue s)" "sp_consumed (queue s1) < sp_published (queue s1)"
    using sp_next_published [OF assms] by blast
  have "sp_inv s1" using s1(1) inv by (induction rule: rtranclp_induct) (auto intro: sp_inv_run)
  then have ok1: "sp_ok s1" "\<not> scanning (sp_consumer s1)" by (auto simp: sp_inv_def)
  from sp_published_advances [OF ok1(1) s1(5) ok1(2)] obtain s2
    where s2: "sp_run\<^sup>*\<^sup>* s1 s2" "sp_same s1 s2" "sp_consumed (queue s1) < sp_consumed (queue s2)"
    by (auto simp: sp_advances_def)
  have "length (sp_received s) < length (sp_received s2)"
    using sp_received_length [of s] sp_received_length [OF sp_ok_runs [OF s2(1) ok1(1)]] s1(4) s2(3) inv
    by (simp add: sp_inv_def)
  then show ?thesis
    using rtranclp_trans [OF s1(1) s2(1)] s1(2,3) s2(2)
    by (intro exI [of _ s2]) (auto simp: sp_same_def sp_requested_def sp_small_batch_def split: sp_producer.splits)
qed

interpretation sp: fifo_queue sp_inv sp_small_batch sp_call sp_run sp_requested sp_received
  by unfold_locales (fact sp_inv_call, fact sp_inv_run, fact sp_order, fact sp_progress)

lemma sp_inv_start: "ring_size n k \<Longrightarrow> sp_inv (sp_start n x)"
  using sp_ok_start by (simp add: sp_inv_def sp_start_def)

section \<open>The single-producer disruptor\<close>

text \<open>C23: the single-producer queue keeps the same contract as the multi-producer one although its producer claims
  from a remembered bound instead of the consumer's position. Under every interleaving of the producer with the
  consumer, what is received is a prefix of what was handed in, in order; every published payload that is not yet read
  is intact in its slot; the remembered bound, computed with wrap-around and saturation, never lets a claim pass an
  unread slot; and if a waiting batch fits the ring, the threads can go on until everything handed in is received.\<close>

theorem sp_queue:
  assumes "ring_size n k" "fifo_reachable sp_call sp_run (sp_start n x) s"
  shows "sp_received s = take (length (sp_received s)) (sp_requested s)
       \<and> (\<forall>q. unread (sp_consumed (queue s)) (sp_consumer s) \<le> q \<and> q \<le> sp_published (queue s) \<longrightarrow>
            ring_get (sp_ring (queue s)) q = sp_sent s ! nat q)
       \<and> cached_capacity_limit (queue s) \<le> sp_consumed (queue s) + int (sp_capacity (queue s))
       \<and> sp_approx_size (queue s) + sp_remaining_capacity (queue s) = int (sp_capacity (queue s))
       \<and> 0 \<le> sp_approx_size (queue s) \<and> 0 \<le> sp_remaining_capacity (queue s)
       \<and> (sp_small_batch s \<longrightarrow>
            (\<exists>s'. sp_run\<^sup>*\<^sup>* s s' \<and> sp_requested s' = sp_requested s \<and> sp_received s' = sp_requested s))"
proof -
  have inv: "sp_inv s" using sp.reachable_ok [OF assms(2) sp_inv_start [OF assms(1)]] .
  then have ok: "sp_ok s" by (simp add: sp_inv_def)
  note b = bounds_okD [OF sp_okD(1) [OF ok]]
  have "0 \<le> unread (sp_consumed (queue s)) (sp_consumer s)" using unread_gt [OF sp_okD(5) [OF ok]] b(2) by simp
  then have "\<forall>q. unread (sp_consumed (queue s)) (sp_consumer s) \<le> q \<and> q \<le> sp_published (queue s) \<longrightarrow>
            ring_get (sp_ring (queue s)) q = sp_sent s ! nat q"
    using sp_okD(3) [OF ok] by (simp add: data_ok_def reached_def)
  moreover have "sp_small_batch s \<longrightarrow>
      (\<exists>s'. sp_run\<^sup>*\<^sup>* s s' \<and> sp_requested s' = sp_requested s \<and> sp_received s' = sp_requested s)"
    using sp.delivers [OF inv] by blast
  moreover have "0 \<le> sp_approx_size (queue s)" "0 \<le> sp_remaining_capacity (queue s)"
    "sp_approx_size (queue s) + sp_remaining_capacity (queue s) = int (sp_capacity (queue s))"
    using b by (simp_all add: sp_approx_size_def sp_remaining_capacity_def)
  ultimately show ?thesis by (intro conjI sp.order [OF inv] b(6))
qed

text \<open>The producer waits for room for two payloads.\<close>

definition two_waiting :: "nat sp_system" where
  "two_waiting = (sp_start 2 0)\<lparr>sp_producer := S_wait [7, 8]\<rparr>"

theorem sp_queue_witness:
  "ring_size 2 1 \<and> fifo_reachable sp_call sp_run (sp_start 2 0) two_waiting \<and> sp_small_batch two_waiting
   \<and> (\<exists>s'. sp_run\<^sup>*\<^sup>* two_waiting s' \<and> sp_received s' = [7, 8])"
proof -
  have size: "ring_size 2 1" by (simp add: ring_size_def)
  have "sp_call (sp_start 2 0) two_waiting"
    unfolding two_waiting_def by (rule sp_call_next_batch) (simp_all add: sp_start_def)
  then have reach: "fifo_reachable sp_call sp_run (sp_start 2 0) two_waiting" by (rule fifo_call [OF fifo_start])
  have small: "sp_small_batch two_waiting"
    by (simp add: sp_small_batch_def two_waiting_def sp_start_def new_sp_disruptor_def)
  have "sp_requested two_waiting = [7, 8]" by (simp add: sp_requested_def two_waiting_def sp_start_def)
  then have "\<exists>s'. sp_run\<^sup>*\<^sup>* two_waiting s' \<and> sp_received s' = [7, 8]"
    using sp_queue [OF size reach] small by auto
  with size reach small show ?thesis by blast
qed

end
