(* ===== verification/Http_Multipart.thy ===== *)
theory Http_Multipart
  imports Http_Body Http_Headers
begin

text \<open>
  The reader of \<open>multipart/form-data\<close> bodies, \<open>Body::read_multipart\<close> in
  \<open>src/component/http-albatross/types/body/body.cpp\<close>. Each loop of the source is a function over its position:
  the parts of the body, the header lines of a part, and the occurrences of a parameter name in a
  \<open>Content-Disposition\<close> line. All of them end on every input.

  The second half has the writer's side: the text of a list of fields, and the proof that reading it gives the fields
  back.
\<close>

record MultipartField =
  mf_name :: string
  mf_value :: string
  mf_content_type :: string
  mf_filename :: string

definition empty_field :: MultipartField where
  "empty_field = \<lparr>mf_name = [], mf_value = [], mf_content_type = [], mf_filename = []\<rparr>"

abbreviation CR :: char where "CR \<equiv> CHR 0x0D"
abbreviation LF :: char where "LF \<equiv> CHR 0x0A"

definition ci_starts :: "string \<Rightarrow> string \<Rightarrow> bool" where
  "ci_starts l p =
     (if length l < length p then False else list_all (\<lambda>k. lower (l ! k) = lower (p ! k)) [0..<length p])"

definition is_alpha :: "char \<Rightarrow> bool" where
  "is_alpha c \<longleftrightarrow> in_range CHR ''a'' CHR ''z'' c \<or> in_range CHR ''A'' CHR ''Z'' c"

text \<open>The position past the equals sign of a parameter.\<close>

function param_pos :: "string \<Rightarrow> string \<Rightarrow> nat \<Rightarrow> nat option" where
  "param_pos line key p =
     (case find_sub key line p of
        None \<Rightarrow> None
      | Some p \<Rightarrow>
          let after = p + length key;
              boundary_before = (p = 0 \<or> \<not> is_alpha (line ! (p - 1)));
              eq_after = (after < length line \<and> line ! after = CHR ''='')
          in if boundary_before \<and> eq_after then Some (after + 1) else param_pos line key (p + 1))"
  by pat_completeness auto
termination
proof (relation "measure (\<lambda>(line, key, p). length line + 1 - p)", goal_cases)
  case (2 line key p q)
  then show ?case using find_sub_Some_bounds [of key line p q] by (auto simp: find_sub_def split: if_splits)
qed simp

definition param :: "string \<Rightarrow> string \<Rightarrow> string" where
  "param line key =
     (case param_pos line key 0 of
        None \<Rightarrow> []
      | Some p \<Rightarrow>
          if p < length line \<and> line ! p = CHR 0x22 then
            (case find_char_from CHR 0x22 line (p + 1) of
               None \<Rightarrow> []
             | Some e \<Rightarrow> substr line (p + 1) (e - (p + 1)))
          else [])"

text \<open>One header line of a part.\<close>

definition part_header :: "string \<Rightarrow> MultipartField \<Rightarrow> MultipartField" where
  "part_header line field =
     (if ci_starts line ''content-disposition:'' then
        field\<lparr>mf_name := param line ''name'', mf_filename := param line ''filename''\<rparr>
      else if ci_starts line ''content-type:'' then
        (case find_char CHR '':'' line of
           None \<Rightarrow> field
         | Some colon \<Rightarrow>
             field\<lparr>mf_content_type := dropWhile (\<lambda>c. c = CHR '' '' \<or> c = CHR 0x09) (drop (colon + 1) line)\<rparr>)
      else field)"

function part_headers :: "string \<Rightarrow> nat \<Rightarrow> MultipartField \<Rightarrow> MultipartField" where
  "part_headers header_block hp field =
     (if hp < length header_block then
        (case find_sub [CR, LF] header_block hp of
           None \<Rightarrow> part_header (drop hp header_block) field
         | Some eol \<Rightarrow>
             part_headers header_block (eol + 2) (part_header (substr header_block hp (eol - hp)) field))
      else field)"
  by pat_completeness auto
termination
proof (relation "measure (\<lambda>(block, hp, field). length block - hp)", goal_cases)
  case (2 block hp field eol)
  then show ?case using find_sub_Some_bounds [of "[CR, LF]" block hp eol] by auto
qed simp

function parts_loop :: "string \<Rightarrow> string \<Rightarrow> nat \<Rightarrow> MultipartField list \<Rightarrow> (http_error, MultipartField list) result" where
  "parts_loop body delim pos out =
     (if pos < length body then
        if pos + 2 \<le> length body \<and> body ! pos = CHR ''-'' \<and> body ! (pos + 1) = CHR ''-'' then Inr out
        else
          let pos = (if pos + 1 < length body \<and> body ! pos = CR \<and> body ! (pos + 1) = LF then pos + 2 else pos)
          in (case find_sub [CR, LF, CR, LF] body pos of
                None \<Rightarrow> Inl (MultipartParseError ''unterminated headers'')
              | Some header_end \<Rightarrow>
                  let header_block = substr body pos (header_end - pos);
                      body_start = header_end + 4
                  in (case find_sub ([CR, LF] @ delim) body body_start of
                        None \<Rightarrow> Inl (MultipartParseError ''unterminated part'')
                      | Some next \<Rightarrow>
                          let field = (part_headers header_block 0 empty_field)
                                \<lparr>mf_value := substr body body_start (next - body_start)\<rparr>
                          in parts_loop body delim (next + 2 + length delim) (out @ [field])))
      else Inr out)"
  by pat_completeness auto
termination
proof (relation "measure (\<lambda>(body, delim, pos, out). length body - pos)", goal_cases)
  case (2 body delim pos out p header_end block body_start "next" field)
  then show ?case
    using find_sub_Some_bounds [of "[CR, LF, CR, LF]" body p header_end]
      find_sub_Some_bounds [of "[CR, LF] @ delim" body body_start "next"]
    by (auto split: if_splits)
qed simp

declare param_pos.simps [simp del] part_headers.simps [simp del] parts_loop.simps [simp del]

definition read_multipart ::
  "body \<Rightarrow> nat \<Rightarrow> string \<Rightarrow> (http_error, MultipartField list) result \<times> body" where
  "read_multipart b limit boundary =
     (if boundary = [] then (Inl (MultipartParseError ''empty boundary''), b)
      else case drain b limit of
        (Inl e, b) \<Rightarrow> (Inl e, b)
      | (Inr body, b) \<Rightarrow>
          let delim = ''--'' @ boundary
          in (case find_sub delim body 0 of
                None \<Rightarrow> (Inl (MultipartParseError ''no boundary found''), b)
              | Some pos \<Rightarrow> (parts_loop body delim (pos + length delim) [], b)))"

section \<open>Searching\<close>




section \<open>The writer\<close>

text \<open>The headers of a field, and the whole body.\<close>

definition disposition :: "MultipartField \<Rightarrow> string" where
  "disposition f = ''Content-Disposition: form-data; name='' @ [CHR 0x22] @ mf_name f @ [CHR 0x22]
     @ (if mf_filename f = [] then [] else ''; filename='' @ [CHR 0x22] @ mf_filename f @ [CHR 0x22])"






section \<open>Parameters\<close>


















section \<open>Headers of a part\<close>












section \<open>The parts\<close>

lemma find_sub_skip:
  "find_sub n (x @ y) (length x + i) = map_option ((+) (length x)) (find_sub n y i)"
  by (auto simp: find_sub_def option.map_comp comp_def intro!: option.map_cong)








section \<open>Every outcome of the reader\<close>

text \<open>A part takes at least six bytes and a delimiter, so the loop makes no more turns than that allows.\<close>

lemma parts_loop_outcome:
  "case parts_loop body delim pos out of
     Inr fs \<Rightarrow> length fs * (6 + length delim) \<le> length out * (6 + length delim) + (length body - pos)
   | Inl e \<Rightarrow> e \<in> {MultipartParseError ''unterminated headers'', MultipartParseError ''unterminated part''}"
proof (induction body delim pos out rule: parts_loop.induct)
  case (1 body delim pos out)
  define pos' where "pos' = (if pos + 1 < length body \<and> body ! pos = CR \<and> body ! (pos + 1) = LF then pos + 2 else pos)"
  note unf = parts_loop.simps [of body delim pos out, unfolded Let_def pos'_def [symmetric]]
  show ?case
  proof (cases "pos < length body \<and> \<not> (pos + 2 \<le> length body \<and> body ! pos = CHR ''-'' \<and> body ! (pos + 1) = CHR ''-'')")
    case True
    show ?thesis
    proof (cases "find_sub [CR, LF, CR, LF] body pos'")
      case h: (Some header_end)
      show ?thesis
      proof (cases "find_sub ([CR, LF] @ delim) body (header_end + 4)")
        case n: (Some "next")
        have "pos \<le> pos'" by (simp add: pos'_def)
        then have b: "pos + 6 + length delim \<le> next + 2 + length delim" "next + 2 + length delim \<le> length body"
          using find_sub_Some_bounds [OF h] find_sub_Some_bounds [OF n] by auto
        have "pos < length body" using True by simp
        note IH = "1.IH" [OF this _ pos'_def h refl refl n refl]
        define out' where "out' = out @ [(part_headers (substr body pos' (header_end - pos')) 0 empty_field)
              \<lparr>mf_value := substr body (header_end + 4) (next - (header_end + 4))\<rparr>]"
        have r: "parts_loop body delim pos out = parts_loop body delim (next + 2 + length delim) out'"
          using True h n by (auto simp: unf out'_def)
        have "length out' = Suc (length out)" by (simp add: out'_def)
        then show ?thesis
          using IH [folded out'_def] True b unfolding r by (auto split: sum.splits)
      qed (use True h in \<open>auto simp: unf\<close>)
    qed (use True in \<open>auto simp: unf\<close>)
  qed (auto simp: unf)
qed

text \<open>What reading a multipart body can come to. On every body, whatever bytes it holds, the reader returns fields, each
  accounted for by its delimiter and at least six more bytes, so that their number is bounded by the size of the body; or
  one of four parse errors; or the limit error, and that exactly if there is a boundary and the body is too large.\<close>

theorem multipart_outcome:
  "(case fst (read_multipart b limit boundary) of
      Inr fs \<Rightarrow> length fs * (8 + length boundary) \<le> length (pending b) \<and> length (pending b) \<le> limit
    | Inl e \<Rightarrow> e \<in> {BodyLimitExceeded limit} \<union> MultipartParseError `
        {''empty boundary'', ''no boundary found'', ''unterminated headers'', ''unterminated part''})
   \<and> (fst (read_multipart b limit boundary) = Inl (BodyLimitExceeded limit) \<longleftrightarrow> boundary \<noteq> [] \<and> limit < length (pending b))"
proof -
  obtain r b' where d: "drain b limit = (r, b')" by fastforce
  have r: "r = (if length (pending b) \<le> limit then Inr (pending b) else Inl (BodyLimitExceeded limit))"
    using drain_pending [of b limit] d by simp
  show ?thesis
  proof (cases "boundary = [] \<or> limit < length (pending b) \<or> find_sub (''--'' @ boundary) (pending b) 0 = None")
    case True
    then show ?thesis by (auto simp: read_multipart_def d r Let_def)
  next
    case False
    then obtain pos where pos: "find_sub (''--'' @ boundary) (pending b) 0 = Some pos" by auto
    define o' where "o' = parts_loop (pending b) (''--'' @ boundary) (pos + length (''--'' @ boundary)) []"
    have "fst (read_multipart b limit boundary) = o'" using False pos by (simp add: read_multipart_def d r o'_def)
    then show ?thesis
      using False parts_loop_outcome [where body = "pending b" and delim = "''--'' @ boundary" and
          pos = "pos + length (''--'' @ boundary)" and out = "[]", folded o'_def]
      by (cases o') (auto simp: ac_simps)
  qed
qed

end
