(* ===== verification/Event_Count.thy ===== *)
theory Event_Count
  imports Menagerie_Prelude "HOL-Library.Word"
begin

text \<open>
  The park/notify primitive of \<open>src/common/concurrency-starling/event_count/event_count.hpp\<close> (the futex path): one
  64-bit word packs the notification epoch in its high and the number of registered waiters in its low half. Any
  number of threads wait and notify; each step is one atomic operation on the word or one system call.

  The kernel's part is what \<open>futex(2)\<close> documents: \<open>FUTEX_WAIT\<close> compares the epoch with the key and goes to sleep
  atomically, and returns early when the epoch differs, on a timeout or a signal; \<open>FUTEX_WAKE\<close> wakes up to the given
  number of sleeping threads, which ones is unspecified.

  Counters that no thread reads record the history: how many notifications there have been, the count when a thread
  registered and when it went to sleep, and how often a wake-up went to other threads while it slept.
\<close>

unbundle bit_operations_syntax

definition epoch_increment :: "64 word" where
  "epoch_increment = push_bit 32 1"

definition get_epoch :: "64 word \<Rightarrow> 32 word" where
  "get_epoch state = ucast (drop_bit 32 state)"

definition get_waiter_count :: "64 word \<Rightarrow> 32 word" where
  "get_waiter_count state = ucast state"

definition prepare_wait :: "64 word \<Rightarrow> 32 word \<times> 64 word" where
  "prepare_wait state = (get_epoch state, state + 1)"

definition cancel_wait :: "64 word \<Rightarrow> 64 word" where
  "cancel_wait state = state - 1"

text \<open>\<open>notify\<close> up to the system call: the new word and whether to make the call.\<close>

definition notify_add :: "64 word \<Rightarrow> bool \<times> 64 word" where
  "notify_add state = (get_waiter_count state \<noteq> 0, state + epoch_increment)"

section \<open>The threads\<close>

text \<open>A thread is elsewhere, registered, about to make the \<open>FUTEX_WAIT\<close> call, asleep in it, about to give its
  registration back, or about to make a \<open>FUTEX_WAKE\<close> call.\<close>

datatype ec_thread =
    E_idle
  | E_prepared "32 word"
  | E_futex "32 word"
  | E_parked
  | E_leave
  | E_wake nat

record 'p ec_system =
  ec_word :: "64 word"
  ec_threads :: "'p \<Rightarrow> ec_thread"
  notifications :: nat
  registered_at :: "'p \<Rightarrow> nat"
  parked_at :: "'p \<Rightarrow> nat"
  passed_over :: "'p \<Rightarrow> nat"

definition ec_start :: "'p ec_system" where
  "ec_start = \<lparr>ec_word = 0, ec_threads = (\<lambda>_. E_idle), notifications = 0,
     registered_at = (\<lambda>_. 0), parked_at = (\<lambda>_. 0), passed_over = (\<lambda>_. 0)\<rparr>"

definition ec_go :: "'p ec_system \<Rightarrow> 'p \<Rightarrow> ec_thread \<Rightarrow> 'p ec_system" where
  "ec_go s p t = s\<lparr>ec_threads := (ec_threads s)(p := t)\<rparr>"

definition sleepers :: "'p ec_system \<Rightarrow> 'p set" where
  "sleepers s = {p. ec_threads s p = E_parked}"

text \<open>A wake-up takes the threads \<open>W\<close> out of the futex.\<close>

definition ec_wake :: "'p ec_system \<Rightarrow> 'p \<Rightarrow> 'p set \<Rightarrow> 'p ec_system" where
  "ec_wake s q W =
     s\<lparr>ec_threads := (\<lambda>p. if p = q then E_idle else if p \<in> W then E_leave else ec_threads s p),
       passed_over := (\<lambda>p. if p \<in> sleepers s - W \<and> W \<noteq> {} then passed_over s p + 1 else passed_over s p)\<rparr>"

inductive ec_step :: "'p ec_system \<Rightarrow> 'p ec_system \<Rightarrow> bool" where
  ec_prepare:
    "ec_threads s p = E_idle \<Longrightarrow> prepare_wait (ec_word s) = (key, w) \<Longrightarrow>
     ec_step s ((ec_go s p (E_prepared key))\<lparr>ec_word := w,
       registered_at := (registered_at s)(p := notifications s)\<rparr>)"
| ec_cancel:
    "ec_threads s p = E_prepared key \<Longrightarrow>
     ec_step s ((ec_go s p E_idle)\<lparr>ec_word := cancel_wait (ec_word s)\<rparr>)"
| ec_wait:
    "ec_threads s p = E_prepared key \<Longrightarrow> get_epoch (ec_word s) = key \<Longrightarrow> ec_step s (ec_go s p (E_futex key))"
| ec_no_wait:
    "ec_threads s p = E_prepared key \<Longrightarrow> ec_step s (ec_go s p E_leave)"
| ec_park:
    "ec_threads s p = E_futex key \<Longrightarrow> get_epoch (ec_word s) = key \<Longrightarrow>
     ec_step s ((ec_go s p E_parked)\<lparr>parked_at := (parked_at s)(p := notifications s),
       passed_over := (passed_over s)(p := 0)\<rparr>)"
| ec_again:
    "ec_threads s p = E_futex key \<Longrightarrow> get_epoch (ec_word s) \<noteq> key \<Longrightarrow> ec_step s (ec_go s p E_leave)"
| ec_timeout:
    "ec_threads s p = E_parked \<Longrightarrow> ec_step s (ec_go s p E_leave)"
| ec_leave:
    "ec_threads s p = E_leave \<Longrightarrow> ec_step s ((ec_go s p E_idle)\<lparr>ec_word := cancel_wait (ec_word s)\<rparr>)"
| ec_notify:
    "ec_threads s p = E_idle \<Longrightarrow> notify_add (ec_word s) = (wake, w) \<Longrightarrow> 0 < wake_count \<Longrightarrow>
     ec_step s ((ec_go s p (if wake then E_wake wake_count else E_idle))\<lparr>ec_word := w,
       notifications := notifications s + 1\<rparr>)"
| ec_wake_call:
    "ec_threads s q = E_wake wake_count \<Longrightarrow> W \<subseteq> sleepers s \<Longrightarrow> card W = min wake_count (card (sleepers s)) \<Longrightarrow>
     ec_step s (ec_wake s q W)"

section \<open>The two halves of the word\<close>

fun registered :: "ec_thread \<Rightarrow> bool" where
  "registered E_idle = False"
| "registered (E_wake n) = False"
| "registered _ = True"

definition waiting :: "'p ec_system \<Rightarrow> nat" where
  "waiting s = card {p. registered (ec_threads s p)}"

definition waking :: "'p ec_system \<Rightarrow> nat" where
  "waking s = card {p. \<exists>n. ec_threads s p = E_wake n}"

definition packed :: "nat \<Rightarrow> nat \<Rightarrow> 64 word" where
  "packed n c = of_nat (n * 2 ^ 32 + c)"

lemma packed_add: "packed n c + 1 = packed n (c + 1)"
  by (simp add: packed_def)

lemma packed_sub: "0 < c \<Longrightarrow> packed n c - 1 = packed n (c - 1)"
  by (cases c) (simp_all add: packed_def)

lemma packed_notify: "packed n c + epoch_increment = packed (n + 1) c"
  by (simp add: packed_def epoch_increment_def algebra_simps)

lemma packed_waiters: "get_waiter_count (packed n c) = of_nat c"
proof -
  have "get_waiter_count (packed n c) = of_nat (take_bit 64 (n * 2 ^ 32 + c))"
    unfolding get_waiter_count_def packed_def unsigned_of_nat by simp
  also have "\<dots> = of_nat c"
    unfolding word_of_nat_eq_iff by (simp add: take_bit_eq_mod mod_mod_cancel)
  finally show ?thesis .
qed

lemma packed_epoch:
  assumes "c < 2 ^ 32"
  shows "get_epoch (packed n c) = of_nat n"
proof -
  have "unat (packed n c) = (n * 2 ^ 32 + c) mod 2 ^ 64"
    unfolding packed_def unat_of_nat by simp
  then have "unat (drop_bit 32 (packed n c)) = (n * 2 ^ 32 + c) mod 2 ^ 64 div 2 ^ 32"
    by (simp only: unat_drop_bit_eq) (simp add: drop_bit_eq_div)
  also have "\<dots> = (2 ^ 32 * ((n * 2 ^ 32 + c) div 2 ^ 32 mod 2 ^ 32) + (n * 2 ^ 32 + c) mod 2 ^ 32) div 2 ^ 32"
    using mod_mult2_eq [of "n * 2 ^ 32 + c" "2 ^ 32" "2 ^ 32"] by simp
  also have "\<dots> = (n * 2 ^ 32 + c) div 2 ^ 32 mod 2 ^ 32" by (subst div_mult_self4) simp_all
  also have "\<dots> = n mod 2 ^ 32" using assms by simp
  finally have "of_nat (unat (drop_bit 32 (packed n c))) = (of_nat (n mod 2 ^ 32) :: 32 word)" by (simp only:)
  moreover have "(of_nat (n mod 2 ^ 32) :: 32 word) = of_nat n" unfolding word_of_nat_eq_iff by (simp add: take_bit_eq_mod)
  ultimately show ?thesis by (simp only: get_epoch_def of_nat_unat)
qed

section \<open>The invariant\<close>

definition ec_ok :: "'p ec_system \<Rightarrow> bool" where
  "ec_ok s \<longleftrightarrow>
     ec_word s = packed (notifications s) (waiting s)
     \<and> (\<forall>p key. ec_threads s p = E_prepared key \<or> ec_threads s p = E_futex key \<longrightarrow>
          key = of_nat (registered_at s p) \<and> registered_at s p \<le> notifications s)
     \<and> (\<forall>p. ec_threads s p = E_parked \<longrightarrow>
          registered_at s p \<le> parked_at s p \<and> parked_at s p \<le> notifications s
          \<and> 2 ^ 32 dvd parked_at s p - registered_at s p
          \<and> notifications s - parked_at s p \<le> waking s + passed_over s p)"

lemma ec_okD:
  assumes "ec_ok s"
  shows "ec_word s = packed (notifications s) (waiting s)"
    and "ec_threads s p = E_prepared key \<Longrightarrow> key = of_nat (registered_at s p)"
    and "ec_threads s p = E_prepared key \<Longrightarrow> registered_at s p \<le> notifications s"
    and "ec_threads s p = E_futex key \<Longrightarrow> key = of_nat (registered_at s p)"
    and "ec_threads s p = E_futex key \<Longrightarrow> registered_at s p \<le> notifications s"
    and "ec_threads s p = E_parked \<Longrightarrow> registered_at s p \<le> parked_at s p"
    and "ec_threads s p = E_parked \<Longrightarrow> parked_at s p \<le> notifications s"
    and "ec_threads s p = E_parked \<Longrightarrow> 2 ^ 32 dvd parked_at s p - registered_at s p"
    and "ec_threads s p = E_parked \<Longrightarrow> notifications s - parked_at s p \<le> waking s + passed_over s p"
  using assms unfolding ec_ok_def by blast+

lemma ec_okI:
  assumes "ec_word s = packed (notifications s) (waiting s)"
    and "\<And>p key. ec_threads s p = E_prepared key \<or> ec_threads s p = E_futex key \<Longrightarrow>
      key = of_nat (registered_at s p) \<and> registered_at s p \<le> notifications s"
    and "\<And>p. ec_threads s p = E_parked \<Longrightarrow> registered_at s p \<le> parked_at s p \<and> parked_at s p \<le> notifications s
      \<and> 2 ^ 32 dvd parked_at s p - registered_at s p \<and> notifications s - parked_at s p \<le> waking s + passed_over s p"
  shows "ec_ok s"
  using assms unfolding ec_ok_def by blast

lemma waiting_go:
  fixes s :: "'p :: finite ec_system"
  shows "waiting (ec_go s p t) + (if registered (ec_threads s p) then 1 else 0)
       = waiting s + (if registered t then 1 else 0)"
  using card_fun_upd [of registered "ec_threads s" p t] by (simp add: waiting_def ec_go_def)

lemma waking_go:
  fixes s :: "'p :: finite ec_system"
  shows "waking (ec_go s p t) + (if \<exists>n. ec_threads s p = E_wake n then 1 else 0)
       = waking s + (if \<exists>n. t = E_wake n then 1 else 0)"
  using card_fun_upd [of "\<lambda>t. \<exists>n. t = E_wake n" "ec_threads s" p t] by (simp add: waking_def ec_go_def)

lemma waiting_more [simp]:
  "waiting (s\<lparr>ec_word := w\<rparr>) = waiting s" "waiting (s\<lparr>notifications := n\<rparr>) = waiting s"
  "waiting (s\<lparr>registered_at := r\<rparr>) = waiting s" "waiting (s\<lparr>parked_at := r\<rparr>) = waiting s"
  "waiting (s\<lparr>passed_over := r\<rparr>) = waiting s"
  "waking (s\<lparr>ec_word := w\<rparr>) = waking s" "waking (s\<lparr>notifications := n\<rparr>) = waking s"
  "waking (s\<lparr>registered_at := r\<rparr>) = waking s" "waking (s\<lparr>parked_at := r\<rparr>) = waking s"
  "waking (s\<lparr>passed_over := r\<rparr>) = waking s"
  by (simp_all add: waiting_def waking_def)

lemma ec_go_fields [simp]:
  "ec_word (ec_go s p t) = ec_word s" "ec_threads (ec_go s p t) = (ec_threads s)(p := t)"
  "notifications (ec_go s p t) = notifications s" "registered_at (ec_go s p t) = registered_at s"
  "parked_at (ec_go s p t) = parked_at s" "passed_over (ec_go s p t) = passed_over s"
  by (simp_all add: ec_go_def)

lemma waiting_pos:
  fixes s :: "'p :: finite ec_system"
  shows "registered (ec_threads s p) \<Longrightarrow> 0 < waiting s"
  by (auto simp: waiting_def card_gt_0_iff)

lemma waiting_bound:
  fixes s :: "'p :: finite ec_system"
  shows "CARD('p) < 2 ^ 32 \<Longrightarrow> waiting s < 2 ^ 32"
  unfolding waiting_def by (rule le_less_trans [OF card_mono]) auto

text \<open>A move that neither registers nor goes to sleep.\<close>

lemma ec_ok_go:
  fixes s :: "'p :: finite ec_system"
  assumes ok: "ec_ok s" and "registered (ec_threads s p)" "registered t" "t \<noteq> E_parked"
    and "\<And>key. t = E_prepared key \<or> t = E_futex key \<Longrightarrow> ec_threads s p = E_prepared key \<or> ec_threads s p = E_futex key"
  shows "ec_ok (ec_go s p t)"
proof (rule ec_okI)
  have "waiting (ec_go s p t) = waiting s" using waiting_go [of s p t] assms(2,3) by simp
  then show "ec_word (ec_go s p t) = packed (notifications (ec_go s p t)) (waiting (ec_go s p t))"
    using ec_okD(1) [OF ok] by simp
next
  fix q key
  assume "ec_threads (ec_go s p t) q = E_prepared key \<or> ec_threads (ec_go s p t) q = E_futex key"
  then have "ec_threads s q = E_prepared key \<or> ec_threads s q = E_futex key" using assms(5) by (cases "q = p") auto
  then show "key = of_nat (registered_at (ec_go s p t) q) \<and> registered_at (ec_go s p t) q \<le> notifications (ec_go s p t)"
    using ec_okD(2-5) [OF ok] by auto
next
  fix q
  assume "ec_threads (ec_go s p t) q = E_parked"
  then have q: "ec_threads s q = E_parked" using assms(4) by (cases "q = p") auto
  have "waking (ec_go s p t) = waking s"
    using waking_go [of s p t] assms(2,3) by (cases t; cases "ec_threads s p") auto
  then show "registered_at (ec_go s p t) q \<le> parked_at (ec_go s p t) q \<and> parked_at (ec_go s p t) q \<le> notifications (ec_go s p t)
      \<and> 2 ^ 32 dvd parked_at (ec_go s p t) q - registered_at (ec_go s p t) q
      \<and> notifications (ec_go s p t) - parked_at (ec_go s p t) q \<le> waking (ec_go s p t) + passed_over (ec_go s p t) q"
    using ec_okD(6-9) [OF ok q] by simp
qed

lemma ec_ok_leave:
  fixes s :: "'p :: finite ec_system"
  assumes ok: "ec_ok s" and p: "registered (ec_threads s p)" "ec_threads s p \<noteq> E_parked"
  shows "ec_ok ((ec_go s p E_idle)\<lparr>ec_word := cancel_wait (ec_word s)\<rparr>)"
proof -
  have "waiting (ec_go s p E_idle) = waiting s - 1" using waiting_go [of s p E_idle] p(1) by simp
  moreover have "waking (ec_go s p E_idle) = waking s"
    using waking_go [of s p E_idle] p(1) by (cases "ec_threads s p") auto
  moreover have "cancel_wait (ec_word s) = packed (notifications s) (waiting s - 1)"
    using ec_okD(1) [OF ok] packed_sub [OF waiting_pos [OF p(1)]] by (simp add: cancel_wait_def)
  ultimately show ?thesis
    using ec_okD(2-9) [OF ok] by (intro ec_okI) (auto split: if_splits)
qed

lemma ec_ok_prepare:
  fixes s :: "'p :: finite ec_system"
  assumes ok: "ec_ok s" and p: "ec_threads s p = E_idle" and w: "prepare_wait (ec_word s) = (key, w)"
    and "CARD('p) < 2 ^ 32"
  shows "ec_ok ((ec_go s p (E_prepared key))\<lparr>ec_word := w, registered_at := (registered_at s)(p := notifications s)\<rparr>)"
proof -
  have "waiting (ec_go s p (E_prepared key)) = waiting s + 1" using waiting_go [of s p "E_prepared key"] p by simp
  moreover have "waking (ec_go s p (E_prepared key)) = waking s"
    using waking_go [of s p "E_prepared key"] p by auto
  moreover have "w = packed (notifications s) (waiting s + 1)" "key = of_nat (notifications s)"
    using w ec_okD(1) [OF ok] packed_epoch [OF waiting_bound [OF assms(4)]] by (auto simp: prepare_wait_def packed_add)
  ultimately show ?thesis
    using ec_okD(2-9) [OF ok] by (intro ec_okI) (auto split: if_splits)
qed

lemma ec_ok_park:
  fixes s :: "'p :: finite ec_system"
  assumes ok: "ec_ok s" and p: "ec_threads s p = E_futex key" and "get_epoch (ec_word s) = key"
    and "CARD('p) < 2 ^ 32"
  shows "ec_ok ((ec_go s p E_parked)\<lparr>parked_at := (parked_at s)(p := notifications s),
       passed_over := (passed_over s)(p := 0)\<rparr>)"
proof -
  have "(of_nat (notifications s) :: 32 word) = of_nat (registered_at s p)"
    using assms(3) ec_okD(1,4) [OF ok] p packed_epoch [OF waiting_bound [OF assms(4)]] by metis
  then have "notifications s mod 2 ^ 32 = registered_at s p mod 2 ^ 32"
    by (simp add: word_of_nat_eq_iff take_bit_eq_mod)
  then have "2 ^ 32 dvd notifications s - registered_at s p"
    using ec_okD(5) [OF ok p] by (metis mod_eq_dvd_iff_nat)
  moreover have "waiting (ec_go s p E_parked) = waiting s" using waiting_go [of s p E_parked] p by simp
  moreover have "waking (ec_go s p E_parked) = waking s" using waking_go [of s p E_parked] p by auto
  ultimately show ?thesis
    using ec_okD [OF ok] p by (intro ec_okI) (auto split: if_splits)
qed

lemma ec_ok_notify:
  fixes s :: "'p :: finite ec_system"
  assumes ok: "ec_ok s" and p: "ec_threads s p = E_idle" and w: "notify_add (ec_word s) = (wake, w)"
    and "CARD('p) < 2 ^ 32"
  shows "ec_ok ((ec_go s p (if wake then E_wake wake_count else E_idle))\<lparr>ec_word := w,
       notifications := notifications s + 1\<rparr>)"
proof -
  let ?t = "if wake then E_wake wake_count else E_idle"
  have wake: "wake \<longleftrightarrow> 0 < waiting s" "w = packed (notifications s + 1) (waiting s)"
    using w ec_okD(1) [OF ok] waiting_bound [OF assms(4), of s]
    by (auto simp: notify_add_def packed_notify packed_waiters word_of_nat_eq_0_iff dest: nat_dvd_not_less intro: gr0I)
  have t: "waiting (ec_go s p ?t) = waiting s" using waiting_go [of s p ?t] p by auto
  have wk: "waking (ec_go s p ?t) = waking s + (if wake then 1 else 0)" using waking_go [of s p ?t] p by auto
  have parked: "wake" if "ec_threads s q = E_parked" for q using waiting_pos [of s q] that wake(1) by simp
  show ?thesis
  proof (rule ec_okI)
    fix q
    assume "ec_threads ((ec_go s p ?t)\<lparr>ec_word := w, notifications := notifications s + 1\<rparr>) q = E_parked"
    then have q: "ec_threads s q = E_parked" by (auto split: if_splits)
    with ec_okD(6-9) [OF ok q] parked [OF q] wk
    show "registered_at ((ec_go s p ?t)\<lparr>ec_word := w, notifications := notifications s + 1\<rparr>) q
        \<le> parked_at ((ec_go s p ?t)\<lparr>ec_word := w, notifications := notifications s + 1\<rparr>) q
      \<and> parked_at ((ec_go s p ?t)\<lparr>ec_word := w, notifications := notifications s + 1\<rparr>) q
        \<le> notifications ((ec_go s p ?t)\<lparr>ec_word := w, notifications := notifications s + 1\<rparr>)
      \<and> 2 ^ 32 dvd parked_at ((ec_go s p ?t)\<lparr>ec_word := w, notifications := notifications s + 1\<rparr>) q
          - registered_at ((ec_go s p ?t)\<lparr>ec_word := w, notifications := notifications s + 1\<rparr>) q
      \<and> notifications ((ec_go s p ?t)\<lparr>ec_word := w, notifications := notifications s + 1\<rparr>)
          - parked_at ((ec_go s p ?t)\<lparr>ec_word := w, notifications := notifications s + 1\<rparr>) q
        \<le> waking ((ec_go s p ?t)\<lparr>ec_word := w, notifications := notifications s + 1\<rparr>)
          + passed_over ((ec_go s p ?t)\<lparr>ec_word := w, notifications := notifications s + 1\<rparr>) q"
      by simp
  qed (use t wake ec_okD(2-5) [OF ok] in \<open>auto split: if_splits intro: le_SucI\<close>)
qed

lemma ec_ok_wake:
  fixes s :: "'p :: finite ec_system"
  assumes ok: "ec_ok s" and q: "ec_threads s q = E_wake wake_count" "0 < wake_count"
    and W: "W \<subseteq> sleepers s" "card W = min wake_count (card (sleepers s))"
  shows "ec_ok (ec_wake s q W)"
proof -
  let ?s = "ec_wake s q W"
  have "q \<notin> W" using W(1) q by (auto simp: sleepers_def)
  have W_registered: "registered (ec_threads s p)" if "p \<in> W" for p using W(1) that by (auto simp: sleepers_def)
  have "{p. registered (ec_threads ?s p)} = {p. registered (ec_threads s p)}"
    using q \<open>q \<notin> W\<close> W_registered by (auto simp: ec_wake_def)
  then have reg: "waiting ?s = waiting s" by (simp add: waiting_def)
  have "{p. \<exists>n. ec_threads s p = E_wake n} = insert q {p. \<exists>n. ec_threads ?s p = E_wake n}"
    using q W(1) by (auto simp: ec_wake_def sleepers_def split: if_splits)
  moreover have "q \<notin> {p. \<exists>n. ec_threads ?s p = E_wake n}" by (simp add: ec_wake_def)
  ultimately have wk: "waking s = waking ?s + 1" by (simp add: waking_def)
  show ?thesis
  proof (rule ec_okI)
    show "ec_word ?s = packed (notifications ?s) (waiting ?s)" using ec_okD(1) [OF ok] reg by (simp add: ec_wake_def)
  next
    fix p key
    assume "ec_threads ?s p = E_prepared key \<or> ec_threads ?s p = E_futex key"
    then have "ec_threads s p = E_prepared key \<or> ec_threads s p = E_futex key"
      by (auto simp: ec_wake_def split: if_splits)
    then show "key = of_nat (registered_at ?s p) \<and> registered_at ?s p \<le> notifications ?s"
      using ec_okD(2-5) [OF ok] by (auto simp: ec_wake_def)
  next
    fix p
    assume "ec_threads ?s p = E_parked"
    then have p: "ec_threads s p = E_parked" "p \<notin> W" by (auto simp: ec_wake_def split: if_splits)
    then have "p \<in> sleepers s" by (simp add: sleepers_def)
    then have "0 < card (sleepers s)" by (auto simp: card_gt_0_iff)
    with W(2) q(2) have "0 < card W" by simp
    then have "W \<noteq> {}" by auto
    with \<open>p \<in> sleepers s\<close> p(2) have "passed_over ?s p = passed_over s p + 1" by (simp add: ec_wake_def)
    with ec_okD(6-9) [OF ok p(1)] wk
    show "registered_at ?s p \<le> parked_at ?s p \<and> parked_at ?s p \<le> notifications ?s
        \<and> 2 ^ 32 dvd parked_at ?s p - registered_at ?s p
        \<and> notifications ?s - parked_at ?s p \<le> waking ?s + passed_over ?s p"
      by (simp add: ec_wake_def)
  qed
qed

text \<open>Every pending wake-up call is for at least one thread.\<close>

definition wakes_ok :: "'p ec_system \<Rightarrow> bool" where
  "wakes_ok s \<longleftrightarrow> (\<forall>p n. ec_threads s p = E_wake n \<longrightarrow> 0 < n)"

lemma wakes_ok_step: "ec_step s s' \<Longrightarrow> wakes_ok s \<Longrightarrow> wakes_ok s'"
  by (induction rule: ec_step.induct) (auto simp: wakes_ok_def ec_wake_def split: if_splits)

lemma ec_ok_step:
  fixes s :: "'p :: finite ec_system"
  assumes "CARD('p) < 2 ^ 32"
  shows "ec_step s s' \<Longrightarrow> ec_ok s \<Longrightarrow> wakes_ok s \<Longrightarrow> ec_ok s'"
proof (induction rule: ec_step.induct)
  case (ec_prepare s p key w)
  then show ?case using assms by (intro ec_ok_prepare)
next
  case (ec_cancel s p key)
  then show ?case by (intro ec_ok_leave) auto
next
  case (ec_wait s p key)
  then show ?case by (intro ec_ok_go) auto
next
  case (ec_no_wait s p key)
  then show ?case by (intro ec_ok_go) auto
next
  case (ec_park s p key)
  then show ?case using assms by (intro ec_ok_park)
next
  case (ec_again s p key)
  then show ?case by (intro ec_ok_go) auto
next
  case (ec_timeout s p)
  then show ?case by (intro ec_ok_go) auto
next
  case (ec_leave s p)
  then show ?case by (intro ec_ok_leave) auto
next
  case (ec_notify s p wake w wake_count)
  then show ?case using assms by (intro ec_ok_notify)
next
  case (ec_wake_call s q wake_count W)
  then show ?case by (intro ec_ok_wake) (auto simp: wakes_ok_def)
qed

lemma ec_ok_reachable:
  fixes s :: "'p :: finite ec_system"
  assumes "CARD('p) < 2 ^ 32" "ec_step\<^sup>*\<^sup>* ec_start s"
  shows "ec_ok s \<and> wakes_ok s"
  using assms(2)
proof (induction rule: rtranclp_induct)
  case base
  then show ?case by (simp add: ec_ok_def wakes_ok_def ec_start_def waiting_def packed_def)
next
  case (step s s')
  then show ?case using ec_ok_step [OF assms(1)] wakes_ok_step by blast
qed

section \<open>No wake-up is lost\<close>

text \<open>C12: no notification is lost. For fewer than \<open>2^32\<close> threads, whatever the interleaving: the word holds the number
  of registered waiters and the number of notifications modulo \<open>2^32\<close>; a thread that sleeps went to sleep before any
  notification since it registered (up to a multiple of \<open>2^32\<close> of them, where the epoch has wrapped); and every
  notification since it fell asleep is either still about to make its wake-up call or has woken another thread
  instead.\<close>

theorem event_count_no_lost_wakeup:
  fixes s :: "'p :: finite ec_system"
  assumes "CARD('p) < 2 ^ 32" "ec_step\<^sup>*\<^sup>* ec_start s"
  shows "get_waiter_count (ec_word s) = of_nat (waiting s) \<and> get_epoch (ec_word s) = of_nat (notifications s)
       \<and> (\<forall>p. ec_threads s p = E_parked \<longrightarrow>
            2 ^ 32 dvd parked_at s p - registered_at s p
            \<and> notifications s - parked_at s p \<le> waking s + passed_over s p)"
proof -
  have ok: "ec_ok s" using ec_ok_reachable [OF assms] by blast
  show ?thesis
    using ec_okD(1,8,9) [OF ok] packed_waiters packed_epoch [OF waiting_bound [OF assms(1)]] by simp
qed

text \<open>Two threads: one registers, the other notifies before the first one sleeps.\<close>

definition early_notify :: "bool ec_system" where
  "early_notify = \<lparr>ec_word = packed 1 1,
     ec_threads = (\<lambda>p. if p then E_prepared 0 else E_wake 1), notifications = 1,
     registered_at = (\<lambda>_. 0), parked_at = (\<lambda>_. 0), passed_over = (\<lambda>_. 0)\<rparr>"

theorem event_count_no_lost_wakeup_witness:
  "CARD(bool) < 2 ^ 32 \<and> ec_step\<^sup>*\<^sup>* ec_start early_notify
   \<and> get_waiter_count (ec_word early_notify) = 1 \<and> get_epoch (ec_word early_notify) = 1"
proof -
  define s1 where "s1 = (ec_go ec_start True (E_prepared 0))\<lparr>ec_word := 1,
    registered_at := (\<lambda>_. 0)\<rparr>"
  have "ec_step ec_start s1"
    using ec_prepare [of ec_start True 0 1]
    by (simp add: s1_def ec_start_def prepare_wait_def get_epoch_def fun_upd_def)
  moreover have "ec_step s1 ((ec_go s1 False (if True then E_wake 1 else E_idle))\<lparr>ec_word := packed 1 1,
       notifications := notifications s1 + 1\<rparr>)"
    by (rule ec_notify) (simp_all add: s1_def ec_start_def notify_add_def get_waiter_count_def packed_def epoch_increment_def)
  moreover have "(ec_go s1 False (if True then E_wake 1 else E_idle))\<lparr>ec_word := packed 1 1,
       notifications := notifications s1 + 1\<rparr> = early_notify"
    by (auto simp: s1_def ec_start_def early_notify_def ec_go_def fun_eq_iff)
  ultimately have r: "ec_step\<^sup>*\<^sup>* ec_start early_notify" by (metis r_into_rtranclp rtranclp.rtrancl_into_rtrancl)
  have c: "CARD(bool) < 2 ^ 32" by simp
  have "{p. registered (ec_threads early_notify p)} = {True}" by (auto simp: early_notify_def)
  then have "waiting early_notify = 1" by (simp add: waiting_def)
  moreover have "notifications early_notify = 1" by (simp add: early_notify_def)
  ultimately show ?thesis using event_count_no_lost_wakeup [OF c r] c r by simp
qed

end
