(* ===== verification/Connection_Pool.thy ===== *)
theory Connection_Pool
  imports Menagerie_Prelude "HOL-Library.Numeral_Type"
begin

text \<open>
  The PostgreSQL connection pool, \<open>session/pool/connection_pool.cpp\<close> of the \<open>postgresql-elephant\<close> provider, with
  the holders it lends (\<open>queued_holder.cpp\<close>) and its waiters.

  Any number of clients acquire, wait, use and return connections; a client stands for one acquisition and what it
  gives, so a thread that holds two connections is two clients. Each step of the model is one critical section
  under the pool's mutex, or an action outside it; the lock is dropped while a connection is being opened, so opening
  is a state of its own between two critical sections. Which attempts succeed, which connections break, and when a
  wait times out is left open. A holder is identified by a number that is never used again. A client keeps a weak
  reference to its holder while it uses it; a posted completion and a running \<open>reset\<close> keep a strong one.

  The flag \<open>mishap\<close>, which nothing reads, records that some connection could not be opened or was dropped.
\<close>

text \<open>How a client acquires: \<open>try_acquire\<close>, \<open>acquire(timeout)\<close>, \<open>acquire()\<close>, or \<open>async_acquire\<close> with or without a
  timeout.\<close>

datatype acquire_mode = Try | Timed | Unbounded | Async bool

datatype pool_client =
    Away
  | Creating acquire_mode
  | Waiting acquire_mode
  | Ready nat
  | Posted nat
  | Using nat
  | Cleaned nat bool
  | Draining

datatype 'p WaiterEntry = SyncEntry 'p | AsyncEntry 'p

record 'p ConnectionPool =
  holders :: "nat list"
  free :: "nat list"
  waiters :: "'p WaiterEntry list"
  created :: nat
  shut :: bool
  pool_capacity :: nat
  claimed :: "'p set"
  clients :: "'p \<Rightarrow> pool_client"
  fresh :: nat
  mishap :: bool

text \<open>The constructor opens \<open>min_connections\<close> connections; \<open>outcomes\<close> says which attempts succeed.\<close>

fun open_initial :: "bool list \<Rightarrow> 'p ConnectionPool \<Rightarrow> 'p ConnectionPool" where
  "open_initial [] s = s"
| "open_initial (ok # outcomes) s =
     open_initial outcomes
       (if ok then s\<lparr>created := created s + 1, free := free s @ [fresh s], holders := holders s @ [fresh s],
                     fresh := fresh s + 1\<rparr>
        else s\<lparr>mishap := True\<rparr>)"

definition new_pool :: "nat \<Rightarrow> bool list \<Rightarrow> 'p ConnectionPool" where
  "new_pool cap outcomes =
     open_initial outcomes
       \<lparr>holders = [], free = [], waiters = [], created = 0, shut = False, pool_capacity = cap, claimed = {},
        clients = (\<lambda>_. Away), fresh = 0, mishap = False\<rparr>"

definition client :: "'p \<Rightarrow> pool_client \<Rightarrow> 'p ConnectionPool \<Rightarrow> 'p ConnectionPool" where
  "client p c s = s\<lparr>clients := (clients s)(p := c)\<rparr>"

fun is_async :: "acquire_mode \<Rightarrow> bool" where
  "is_async (Async bounded) = True"
| "is_async _ = False"

text \<open>A holder reaches its client directly, or through a posted completion.\<close>

definition lend :: "'p \<Rightarrow> acquire_mode \<Rightarrow> nat \<Rightarrow> 'p ConnectionPool \<Rightarrow> 'p ConnectionPool" where
  "lend p mode h s = client p (if is_async mode then Posted h else Using h) s"

definition enqueue :: "'p \<Rightarrow> acquire_mode \<Rightarrow> 'p ConnectionPool \<Rightarrow> 'p ConnectionPool" where
  "enqueue p mode s =
     (if mode = Try then client p Away s
      else client p (Waiting mode)
        (s\<lparr>waiters := waiters s @ [if is_async mode then AsyncEntry p else SyncEntry p],
           claimed := claimed s - {p}\<rparr>))"

text \<open>The first critical section of \<open>try_acquire\<close>, both \<open>acquire\<close> functions and \<open>initiate_async_acquire\<close>.\<close>

definition acquire :: "'p \<Rightarrow> acquire_mode \<Rightarrow> 'p ConnectionPool \<Rightarrow> 'p ConnectionPool" where
  "acquire p mode s =
     (if shut s then client p Away s
      else case free s of
        raw # rest \<Rightarrow> lend p mode raw (s\<lparr>free := rest\<rparr>)
      | [] \<Rightarrow>
          if created s < pool_capacity s then client p (Creating mode) s
          else enqueue p mode s)"

text \<open>The second one, after \<open>try_create_holder\<close> has run without the lock.\<close>

definition holder_created :: "'p \<Rightarrow> acquire_mode \<Rightarrow> bool \<Rightarrow> 'p ConnectionPool \<Rightarrow> 'p ConnectionPool" where
  "holder_created p mode ok s =
     (if is_async mode \<and> shut s then client p Away s
      else if ok then
        lend p mode (fresh s)
          (s\<lparr>created := created s + 1, holders := holders s @ [fresh s], fresh := fresh s + 1\<rparr>)
      else enqueue p mode (s\<lparr>mishap := True\<rparr>))"

text \<open>A waiting client gives up: its wait timed out, or a blocked thread sees the shutdown.\<close>

definition give_up :: "'p \<Rightarrow> 'p ConnectionPool \<Rightarrow> 'p ConnectionPool" where
  "give_up p s = client p Away (s\<lparr>waiters := filter (\<lambda>e. e \<noteq> SyncEntry p) (waiters s)\<rparr>)"

definition on_async_waiter_timeout :: "'p \<Rightarrow> 'p ConnectionPool \<Rightarrow> 'p ConnectionPool" where
  "on_async_waiter_timeout p s =
     (if p \<in> claimed s then s
      else client p Away
        (s\<lparr>claimed := insert p (claimed s),
           waiters := filter (\<lambda>e. e \<noteq> AsyncEntry p) (waiters s)\<rparr>))"

text \<open>\<open>QueuedHolder::reset\<close> ends in one of the next two.\<close>

fun hand_over :: "nat \<Rightarrow> 'p WaiterEntry list \<Rightarrow> 'p ConnectionPool \<Rightarrow> 'p ConnectionPool" where
  "hand_over raw [] s = s\<lparr>waiters := [], free := free s @ [raw]\<rparr>"
| "hand_over raw (SyncEntry w # rest) s = client w (Ready raw) (s\<lparr>waiters := rest\<rparr>)"
| "hand_over raw (AsyncEntry w # rest) s =
     (if w \<in> claimed s then hand_over raw rest s
      else client w (Posted raw) (s\<lparr>waiters := rest, claimed := insert w (claimed s)\<rparr>))"

definition return_holder :: "nat \<Rightarrow> 'p ConnectionPool \<Rightarrow> 'p ConnectionPool" where
  "return_holder raw s = (if shut s then s else hand_over raw (waiters s) s)"

definition drop_dead :: "nat \<Rightarrow> 'p ConnectionPool \<Rightarrow> 'p ConnectionPool" where
  "drop_dead raw s =
     (if shut s then s
      else if raw \<in> set (holders s) then s\<lparr>holders := remove1 raw (holders s), created := created s - 1\<rparr>
      else s)"

text \<open>\<open>shutdown\<close> raises the flag first and drains under the lock; a blocked thread is only notified, an async waiter
  gets its completion.\<close>

fun abort_waiters :: "'p WaiterEntry list \<Rightarrow> 'p ConnectionPool \<Rightarrow> 'p ConnectionPool" where
  "abort_waiters [] s = s"
| "abort_waiters (SyncEntry w # rest) s = abort_waiters rest s"
| "abort_waiters (AsyncEntry w # rest) s =
     abort_waiters rest
       (if w \<in> claimed s then s else client w Away (s\<lparr>claimed := insert w (claimed s)\<rparr>))"

definition pool_drain :: "'p ConnectionPool \<Rightarrow> 'p ConnectionPool" where
  "pool_drain s = (abort_waiters (waiters s) s)\<lparr>waiters := [], free := [], holders := []\<rparr>"

definition free_count :: "'p ConnectionPool \<Rightarrow> nat" where
  "free_count s = length (free s)"

definition active_count :: "'p ConnectionPool \<Rightarrow> nat" where
  "active_count s = created s - length (free s)"

definition waiter_count :: "'p ConnectionPool \<Rightarrow> nat" where
  "waiter_count s = length (waiters s)"

section \<open>All clients together\<close>

inductive pool_step :: "'p ConnectionPool \<Rightarrow> 'p ConnectionPool \<Rightarrow> bool" where
  step_acquire: "clients s p = Away \<Longrightarrow> pool_step s (acquire p mode s)"
| step_created: "clients s p = Creating mode \<Longrightarrow> pool_step s (holder_created p mode ok s)"
| step_timeout: "clients s p = Waiting Timed \<Longrightarrow> pool_step s (give_up p s)"
| step_shut_wait:
    "clients s p = Waiting mode \<Longrightarrow> \<not> is_async mode \<Longrightarrow> shut s \<Longrightarrow> pool_step s (give_up p s)"
| step_async_timeout:
    "clients s p = Waiting (Async True) \<Longrightarrow> pool_step s (on_async_waiter_timeout p s)"
| step_ready: "clients s p = Ready h \<Longrightarrow> pool_step s (client p (Using h) s)"
| step_posted: "clients s p = Posted h \<Longrightarrow> pool_step s (client p (Using h) s)"
| step_reset:
    "clients s p = Using h \<Longrightarrow> h \<in> set (holders s) \<Longrightarrow> pool_step s (client p (Cleaned h ok) s)"
| step_expired:
    "clients s p = Using h \<Longrightarrow> h \<notin> set (holders s) \<Longrightarrow> pool_step s (client p Away s)"
| step_return:
    "clients s p = Cleaned h True \<Longrightarrow> pool_step s (return_holder h (client p Away s))"
| step_dead:
    "clients s p = Cleaned h False \<Longrightarrow> pool_step s (drop_dead h (client p Away (s\<lparr>mishap := True\<rparr>)))"
| step_shutdown: "clients s p = Away \<Longrightarrow> \<not> shut s \<Longrightarrow> pool_step s (client p Draining (s\<lparr>shut := True\<rparr>))"
| step_drain: "clients s p = Draining \<Longrightarrow> pool_step s (client p Away (pool_drain s))"

section \<open>The invariant\<close>

fun entry_of :: "'p WaiterEntry \<Rightarrow> 'p" where
  "entry_of (SyncEntry p) = p"
| "entry_of (AsyncEntry p) = p"

fun is_async_entry :: "'p WaiterEntry \<Rightarrow> bool" where
  "is_async_entry (SyncEntry p) = False"
| "is_async_entry (AsyncEntry p) = True"

fun holds :: "pool_client \<Rightarrow> nat option" where
  "holds (Ready h) = Some h"
| "holds (Posted h) = Some h"
| "holds (Using h) = Some h"
| "holds (Cleaned h ok) = Some h"
| "holds _ = None"

fun is_waiting :: "pool_client \<Rightarrow> bool" where
  "is_waiting (Waiting mode) = True"
| "is_waiting _ = False"

definition lent :: "'p ConnectionPool \<Rightarrow> 'p \<rightharpoonup> nat" where
  "lent s = (\<lambda>p. holds (clients s p))"

text \<open>Nobody holds what somebody else holds or what is free.\<close>

definition exclusive :: "('p \<rightharpoonup> nat) \<Rightarrow> nat list \<Rightarrow> nat \<Rightarrow> bool" where
  "exclusive H fr n \<longleftrightarrow>
     inj_on H (dom H) \<and> ran H \<inter> set fr = {} \<and> (\<forall>h \<in> ran H \<union> set fr. h < n) \<and> distinct fr"

definition queue_ok :: "'p WaiterEntry list \<Rightarrow> 'p set \<Rightarrow> ('p \<Rightarrow> pool_client) \<Rightarrow> bool" where
  "queue_ok ws cl C \<longleftrightarrow>
     distinct (map entry_of ws)
     \<and> (\<forall>e \<in> set ws. \<exists>mode. C (entry_of e) = Waiting mode \<and> is_async mode = is_async_entry e)
     \<and> (\<forall>p. AsyncEntry p \<in> set ws \<longrightarrow> p \<notin> cl)"

definition pool_ok :: "'p ConnectionPool \<Rightarrow> bool" where
  "pool_ok s \<longleftrightarrow>
     exclusive (lent s) (free s) (fresh s)
     \<and> distinct (holders s) \<and> set (free s) \<subseteq> set (holders s) \<and> (\<forall>h \<in> set (holders s). h < fresh s)
     \<and> queue_ok (waiters s) (claimed s) (clients s)
     \<and> (\<not> shut s \<longrightarrow>
          created s = length (holders s) \<and> set (holders s) = set (free s) \<union> ran (lent s)
          \<and> (\<forall>p. is_waiting (clients s p) \<longrightarrow> p \<in> entry_of ` set (waiters s))
          \<and> (\<not> mishap s \<longrightarrow> waiters s \<noteq> [] \<longrightarrow> free s = [] \<and> pool_capacity s \<le> created s))"

lemma pool_okD:
  assumes "pool_ok s"
  shows "exclusive (lent s) (free s) (fresh s)" "distinct (holders s)" "set (free s) \<subseteq> set (holders s)"
    "\<forall>h \<in> set (holders s). h < fresh s" "queue_ok (waiters s) (claimed s) (clients s)"
    "\<not> shut s \<Longrightarrow> created s = length (holders s)" "\<not> shut s \<Longrightarrow> set (holders s) = set (free s) \<union> ran (lent s)"
    "\<not> shut s \<Longrightarrow> is_waiting (clients s p) \<Longrightarrow> p \<in> entry_of ` set (waiters s)"
    "\<not> shut s \<Longrightarrow> \<not> mishap s \<Longrightarrow> waiters s \<noteq> [] \<Longrightarrow> free s = []"
    "\<not> shut s \<Longrightarrow> \<not> mishap s \<Longrightarrow> waiters s \<noteq> [] \<Longrightarrow> pool_capacity s \<le> created s"
  using assms unfolding pool_ok_def by blast+

lemma pool_okI:
  assumes "exclusive (lent s) (free s) (fresh s)" "distinct (holders s)" "set (free s) \<subseteq> set (holders s)"
    "\<forall>h \<in> set (holders s). h < fresh s" "queue_ok (waiters s) (claimed s) (clients s)"
    "\<not> shut s \<Longrightarrow> created s = length (holders s)" "\<not> shut s \<Longrightarrow> set (holders s) = set (free s) \<union> ran (lent s)"
    "\<And>p. \<not> shut s \<Longrightarrow> is_waiting (clients s p) \<Longrightarrow> p \<in> entry_of ` set (waiters s)"
    "\<not> shut s \<Longrightarrow> \<not> mishap s \<Longrightarrow> waiters s \<noteq> [] \<Longrightarrow> free s = [] \<and> pool_capacity s \<le> created s"
  shows "pool_ok s"
  using assms unfolding pool_ok_def by blast

subsection \<open>Who holds what\<close>

lemma exclusive_drop: "exclusive H fr n \<Longrightarrow> exclusive (H(p := None)) fr n"
  unfolding exclusive_def by (auto simp: inj_on_def ran_def dom_def split: if_splits)

lemma exclusive_give:
  assumes "exclusive H fr n" "h \<notin> ran H" "h \<notin> set fr" "h < n"
  shows "exclusive (H(p := Some h)) fr n"
  using assms unfolding exclusive_def by (auto simp: inj_on_def ran_def dom_def split: if_splits)

lemma exclusive_free:
  assumes "exclusive H fr n" "h \<notin> ran H" "h \<notin> set fr" "h < n"
  shows "exclusive H (fr @ [h]) n"
  using assms unfolding exclusive_def by auto

lemma exclusive_take:
  assumes "exclusive H (h # fr) n"
  shows "exclusive H fr n" "h \<notin> ran H" "h \<notin> set fr" "h < n"
  using assms unfolding exclusive_def by auto

lemma exclusive_mono: "exclusive H fr n \<Longrightarrow> n \<le> n' \<Longrightarrow> exclusive H fr n'"
  unfolding exclusive_def by (meson order_less_le_trans)

lemma exclusive_released:
  assumes "exclusive H fr n" "H p = Some h"
  shows "h \<notin> ran (H(p := None))" "h \<notin> set fr" "h < n" "ran H = insert h (ran (H(p := None)))"
proof -
  have "H q \<noteq> Some h" if "q \<noteq> p" for q
    using assms that unfolding exclusive_def inj_on_def dom_def by force
  then show "h \<notin> ran (H(p := None))" by (auto simp: ran_def split: if_splits)
  show "h \<notin> set fr" "h < n" using assms by (auto simp: exclusive_def ran_def)
  show "ran H = insert h (ran (H(p := None)))" 
  proof (intro equalityI subsetI)
    fix x
    assume "x \<in> ran H"
    then obtain q where "H q = Some x" by (auto simp: ran_def)
    then show "x \<in> insert h (ran (H(p := None)))" using assms(2) by (cases "q = p") (auto simp: ran_def)
  qed (use assms(2) in \<open>auto simp: ran_def split: if_splits\<close>)
qed

lemma exclusive_fresh: "exclusive H fr n \<Longrightarrow> n \<notin> ran H \<and> n \<notin> set fr"
  unfolding exclusive_def by force

lemma ran_give: "H p = None \<Longrightarrow> ran (H(p := Some h)) = insert h (ran H)"
  by (rule ran_map_upd)

lemma ran_none: "H p = None \<Longrightarrow> H(p := None) = H"
  by auto

lemma lent_client [simp]: "lent (client p c s) = (lent s)(p := holds c)"
  by (rule ext) (simp add: client_def lent_def)

lemma lent_more [simp]:
  "lent (s\<lparr>holders := x\<rparr>) = lent s" "lent (s\<lparr>free := x\<rparr>) = lent s" "lent (s\<lparr>waiters := w\<rparr>) = lent s"
  "lent (s\<lparr>created := n\<rparr>) = lent s" "lent (s\<lparr>shut := b\<rparr>) = lent s" "lent (s\<lparr>claimed := cl\<rparr>) = lent s"
  "lent (s\<lparr>fresh := n\<rparr>) = lent s" "lent (s\<lparr>mishap := b\<rparr>) = lent s"
  by (simp_all add: lent_def)

lemma lent_same: "holds c = holds (clients s p) \<Longrightarrow> (lent s)(p := holds c) = lent s"
  by (auto simp: lent_def)

lemma client_fields [simp]:
  "holders (client p c s) = holders s" "free (client p c s) = free s" "waiters (client p c s) = waiters s"
  "created (client p c s) = created s" "shut (client p c s) = shut s" "pool_capacity (client p c s) = pool_capacity s"
  "claimed (client p c s) = claimed s" "clients (client p c s) = (clients s)(p := c)" "fresh (client p c s) = fresh s"
  "mishap (client p c s) = mishap s"
  by (simp_all add: client_def)

subsection \<open>Who waits\<close>

lemma queue_ok_move:
  assumes "queue_ok ws cl C" "\<not> is_waiting (C p)"
  shows "queue_ok ws cl (C(p := c))"
proof -
  have "entry_of e \<noteq> p" if "e \<in> set ws" for e using assms that unfolding queue_ok_def by force
  then show ?thesis using assms(1) unfolding queue_ok_def by auto
qed

lemma queue_ok_append:
  assumes "queue_ok ws cl C" "\<not> is_waiting (C p)" "is_async mode = is_async_entry e" "entry_of e = p"
  shows "queue_ok (ws @ [e]) (cl - {p}) (C(p := Waiting mode))"
proof -
  have "entry_of e' \<noteq> p" if "e' \<in> set ws" for e' using assms(1,2) that unfolding queue_ok_def by force
  then show ?thesis using assms unfolding queue_ok_def by auto
qed

lemma queue_ok_remove:
  assumes "queue_ok ws cl C" "\<And>e. e \<in> set ws' \<Longrightarrow> e \<in> set ws \<and> entry_of e \<noteq> p" "distinct (map entry_of ws')"
    and "\<And>q. q \<in> cl' \<Longrightarrow> q \<in> cl \<or> q = p"
  shows "queue_ok ws' cl' (C(p := c))"
  using assms unfolding queue_ok_def by (force split: if_splits)

lemma queue_ok_mono: "queue_ok ws cl C \<Longrightarrow> cl' \<subseteq> cl \<Longrightarrow> queue_ok ws cl' C"
  unfolding queue_ok_def by blast

lemma queue_entry:
  assumes "queue_ok ws cl C" "C p = Waiting mode" "p \<in> entry_of ` set ws"
  shows "(if is_async mode then AsyncEntry p else SyncEntry p) \<in> set ws"
proof -
  from assms(3) obtain e where "e \<in> set ws" "entry_of e = p" by blast
  with assms(1,2) show ?thesis unfolding queue_ok_def by (cases e) force+
qed

subsection \<open>Every step keeps it\<close>

lemma pool_ok_move:
  assumes ok: "pool_ok s" and "holds c = holds (clients s p)" "\<not> is_waiting (clients s p)" "\<not> is_waiting c"
  shows "pool_ok (client p c s)"
  using pool_okD [OF ok] queue_ok_move [OF pool_okD(5) [OF ok] assms(3)] assms(4) lent_same [OF assms(2)]
  by (intro pool_okI) (auto split: if_splits)

lemma pool_ok_forget:
  assumes ok: "pool_ok s" and "shut s" "\<not> is_waiting (clients s p)"
  shows "pool_ok (client p Away s)"
  using pool_okD [OF ok] queue_ok_move [OF pool_okD(5) [OF ok] assms(3)] exclusive_drop [of "lent s"] assms(2)
  by (intro pool_okI) auto

lemma pool_ok_enqueue:
  assumes ok: "pool_ok s" and p: "\<not> is_waiting (clients s p)" "holds (clients s p) = None"
    and full: "\<not> shut s \<Longrightarrow> \<not> mishap s \<Longrightarrow> free s = [] \<and> pool_capacity s \<le> created s"
  shows "pool_ok (enqueue p mode s)"
proof (cases "mode = Try")
  case True
  then show ?thesis using pool_ok_move [OF ok, of Away p] p by (simp add: enqueue_def)
next
  case False
  let ?e = "if is_async mode then AsyncEntry p else SyncEntry p"
  have q: "queue_ok (waiters s @ [?e]) (claimed s - {p}) ((clients s)(p := Waiting mode))"
    using pool_okD(5) [OF ok] p by (intro queue_ok_append) auto
  have H: "(lent s)(p := None) = lent s" using lent_same [of Away s p] p(2) by simp
  show ?thesis
    using False pool_okD [OF ok] q H full
    by (intro pool_okI) (auto simp: enqueue_def split: if_splits)
qed

lemma holds_lent: "holds (clients s p) = lent s p"
  by (simp add: lent_def)

text \<open>A holder that nobody holds is given to a client that holds nothing.\<close>

lemma pool_ok_give:
  assumes excl: "exclusive (lent s) (free s) (fresh s)" "h \<notin> ran (lent s)" "h \<notin> set (free s)" "h < fresh s"
    and hs: "distinct (holders s)" "set (free s) \<subseteq> set (holders s)" "\<forall>h \<in> set (holders s). h < fresh s"
    and p: "holds (clients s p) = None" "holds c = Some h" "queue_ok (waiters s) (claimed s) ((clients s)(p := c))"
    and still: "\<not> shut s \<Longrightarrow> created s = length (holders s)"
      "\<not> shut s \<Longrightarrow> set (holders s) = insert h (set (free s) \<union> ran (lent s))"
      "\<And>q. \<not> shut s \<Longrightarrow> q \<noteq> p \<Longrightarrow> is_waiting (clients s q) \<Longrightarrow> q \<in> entry_of ` set (waiters s)"
      "\<not> shut s \<Longrightarrow> \<not> mishap s \<Longrightarrow> waiters s \<noteq> [] \<Longrightarrow> free s = [] \<and> pool_capacity s \<le> created s"
  shows "pool_ok (client p c s)"
proof -
  have "\<not> is_waiting c" using p(2) by (cases c) auto
  moreover have "ran ((lent s)(p := Some h)) = insert h (ran (lent s))" using ran_give [of "lent s" p h] p(1) by (simp add: lent_def)
  ultimately show ?thesis
    using assms exclusive_give [OF excl] by (intro pool_okI) (auto split: if_splits)
qed

lemma pool_ok_acquire:
  assumes ok: "pool_ok s" and p: "clients s p = Away"
  shows "pool_ok (acquire p mode s)"
proof -
  note D = pool_okD [OF ok]
  consider "shut s" | raw rest where "\<not> shut s" "free s = raw # rest"
    | "\<not> shut s" "free s = []" "created s < pool_capacity s" | "\<not> shut s" "free s = []" "\<not> created s < pool_capacity s"
    by (cases "free s") auto
  then show ?thesis
  proof cases
    case 1
    then show ?thesis using pool_ok_move [OF ok, of Away p] p by (simp add: acquire_def)
  next
    case 2
    let ?c = "if is_async mode then Posted raw else Using raw"
    have "exclusive (lent s) (raw # rest) (fresh s)" using D(1) 2 by simp
    note T = exclusive_take [OF this]
    have q: "queue_ok (waiters s) (claimed s) ((clients s)(p := ?c))" using queue_ok_move [OF D(5)] p by simp
    have "pool_ok (client p ?c (s\<lparr>free := rest\<rparr>))"
      using T D 2 p q by (intro pool_ok_give [where h = raw]) (auto simp: lent_def)
    then show ?thesis using 2 by (simp add: acquire_def lend_def)
  next
    case 3
    then show ?thesis using pool_ok_move [OF ok, of "Creating mode" p] p by (simp add: acquire_def)
  next
    case 4
    then show ?thesis using pool_ok_enqueue [OF ok, of p mode] p by (simp add: acquire_def)
  qed
qed

lemma pool_ok_mishap: "pool_ok s \<Longrightarrow> pool_ok (s\<lparr>mishap := True\<rparr>)"
  using pool_okD [of s] by (intro pool_okI) auto

lemma pool_ok_created:
  assumes ok: "pool_ok s" and p: "clients s p = Creating mode"
  shows "pool_ok (holder_created p mode success s)"
proof -
  note D = pool_okD [OF ok]
  consider "is_async mode" "shut s" | "\<not> (is_async mode \<and> shut s)" success | "\<not> (is_async mode \<and> shut s)" "\<not> success" by blast
  then show ?thesis
  proof cases
    case 1
    then show ?thesis using pool_ok_move [OF ok, of Away p] p by (simp add: holder_created_def)
  next
    case 2
    let ?c = "if is_async mode then Posted (fresh s) else Using (fresh s)"
    let ?s = "s\<lparr>created := created s + 1, holders := holders s @ [fresh s], fresh := fresh s + 1\<rparr>"
    have q: "queue_ok (waiters s) (claimed s) ((clients s)(p := ?c))" using queue_ok_move [OF D(5)] p by simp
    have "pool_ok (client p ?c ?s)"
      using exclusive_fresh [OF D(1)] exclusive_mono [OF D(1), of "fresh s + 1"] D(2-) p q
      by (intro pool_ok_give [where h = "fresh s"]) (auto simp: less_Suc_eq intro: le_SucI)
    then show ?thesis using 2 by (auto simp: holder_created_def lend_def)
  next
    case 3
    then show ?thesis using pool_ok_enqueue [OF pool_ok_mishap [OF ok], of p mode] p by (auto simp: holder_created_def)
  qed
qed

text \<open>A waiting client leaves the queue.\<close>

lemma pool_ok_unqueue:
  assumes ok: "pool_ok s" and p: "clients s p = Waiting mode"
    and ws: "ws = filter (\<lambda>e. e \<noteq> (if is_async mode then AsyncEntry p else SyncEntry p)) (waiters s)"
    and cl: "cl \<subseteq> insert p (claimed s)"
  shows "pool_ok (client p Away (s\<lparr>claimed := cl, waiters := ws\<rparr>))"
proof -
  note D = pool_okD [OF ok]
  have no_p: "entry_of e \<noteq> p" if "e \<in> set ws" for e
  proof
    assume e: "entry_of e = p"
    have "e \<in> set (waiters s)" "e \<noteq> (if is_async mode then AsyncEntry p else SyncEntry p)" using that ws by auto
    moreover from this D(5) e p have "is_async mode = is_async_entry e" unfolding queue_ok_def by force
    ultimately show False using e by (induction e) auto
  qed
  have "distinct (map entry_of (waiters s))" using D(5) by (simp add: queue_ok_def)
  then have "distinct (map entry_of ws)" unfolding ws by (rule distinct_map_filter)
  then have q: "queue_ok ws cl ((clients s)(p := Away))"
    using D(5) no_p cl by (rule_tac queue_ok_remove [where ws = "waiters s" and cl = "claimed s"]) (auto simp: ws)
  have left: "e \<in> set ws" if "e \<in> set (waiters s)" "entry_of e \<noteq> p" for e
    using that unfolding ws by auto
  have H: "(lent s)(p := None) = lent s" using lent_same [of Away s p] p by simp
  show ?thesis
  proof (rule pool_okI, goal_cases)
    case (8 r)
    then have "r \<noteq> p" "is_waiting (clients s r)" by (auto split: if_splits)
    then obtain e where "e \<in> set (waiters s)" "entry_of e = r" using D(8) [of r] 8 by auto
    then show ?case using left \<open>r \<noteq> p\<close> by force
  next
    case 9
    then have "waiters s \<noteq> []" using ws by auto
    then show ?case using 9 D(9,10) by simp
  qed (use D q H in auto)
qed

lemma pool_ok_give_up: "pool_ok s \<Longrightarrow> clients s p = Waiting mode \<Longrightarrow> \<not> is_async mode \<Longrightarrow> pool_ok (give_up p s)"
  using pool_ok_unqueue [of s p mode _ "claimed s"] by (auto simp: give_up_def)

lemma pool_ok_async_timeout:
  "pool_ok s \<Longrightarrow> clients s p = Waiting mode \<Longrightarrow> is_async mode \<Longrightarrow> pool_ok (on_async_waiter_timeout p s)"
  using pool_ok_unqueue [of s p mode _ "insert p (claimed s)"] by (auto simp: on_async_waiter_timeout_def)

text \<open>The head of the queue gets the returned holder.\<close>

lemma pool_ok_to_head:
  assumes ok: "pool_ok s" and p: "clients s p = Cleaned h b" and open_pool: "\<not> shut s"
    and ws: "waiters s = e # rest" and c: "holds c = Some h" and cl: "cl \<subseteq> insert (entry_of e) (claimed s)"
  shows "pool_ok (client (entry_of e) c ((client p Away s)\<lparr>waiters := rest, claimed := cl\<rparr>))"
proof -
  note D = pool_okD [OF ok]
  let ?w = "entry_of e"
  have h: "lent s p = Some h" using p by (simp add: lent_def)
  note R = exclusive_released [OF D(1) h]
  obtain mode where w: "clients s ?w = Waiting mode" using D(5) ws unfolding queue_ok_def by auto
  have "?w \<noteq> p" using w p by auto
  have dist: "distinct (map entry_of (e # rest))" using D(5) ws by (simp add: queue_ok_def)
  then have rest: "entry_of e' \<noteq> ?w" if "e' \<in> set rest" for e' using that by (auto simp: image_iff)
  have "queue_ok rest cl ((clients s)(?w := c))"
  proof (rule queue_ok_remove [OF D(5)])
    fix e'
    assume "e' \<in> set rest"
    then show "e' \<in> set (waiters s) \<and> entry_of e' \<noteq> ?w" using rest ws by simp
  qed (use dist cl in auto)
  from queue_ok_move [OF this, of p Away] p \<open>?w \<noteq> p\<close>
  have q: "queue_ok rest cl (((clients s)(p := Away))(?w := c))" by (simp add: fun_upd_twist)
  show ?thesis
  proof (rule pool_ok_give [where h = h], goal_cases)
    case (13 r)
    then have "is_waiting (clients s r)" by (auto split: if_splits)
    then obtain e' where "e' \<in> set (waiters s)" "entry_of e' = r" using D(8) [OF open_pool] by auto
    then show ?case using 13 ws by force
  next
    case 14
    then show ?case using D(9,10) ws by auto
  qed (use D R q w c open_pool exclusive_drop [OF D(1), of p] \<open>?w \<noteq> p\<close> in auto)
qed

lemma pool_ok_return:
  assumes ok: "pool_ok s" and p: "clients s p = Cleaned h b"
  shows "pool_ok (return_holder h (client p Away s))"
proof (cases "shut s")
  case True
  then show ?thesis using pool_ok_forget [OF ok True, of p] p by (simp add: return_holder_def)
next
  case False
  note D = pool_okD [OF ok]
  have h: "lent s p = Some h" using p by (simp add: lent_def)
  note R = exclusive_released [OF D(1) h]
  show ?thesis
  proof (cases "waiters s")
    case Nil
    have "queue_ok [] (claimed s) ((clients s)(p := Away))" by (simp add: queue_ok_def)
    then have "pool_ok ((client p Away s)\<lparr>waiters := [], free := free s @ [h]\<rparr>)"
      using D R exclusive_free [OF exclusive_drop [OF D(1), of p] R(1-3)] Nil False
      by (intro pool_okI) (auto split: if_splits)
    then show ?thesis using False Nil by (simp add: return_holder_def)
  next
    case (Cons e rest)
    show ?thesis
    proof (cases e)
      case (SyncEntry w)
      have eq: "(client p Away s)\<lparr>waiters := rest, claimed := claimed s\<rparr> = (client p Away s)\<lparr>waiters := rest\<rparr>"
        by (cases s) (simp add: client_def)
      have "pool_ok (client (entry_of e) (Ready h) ((client p Away s)\<lparr>waiters := rest, claimed := claimed s\<rparr>))"
        by (rule pool_ok_to_head [OF ok p False Cons]) auto
      then have "pool_ok (client w (Ready h) ((client p Away s)\<lparr>waiters := rest\<rparr>))"
        unfolding eq using SyncEntry by simp
      then show ?thesis using False Cons SyncEntry by (simp add: return_holder_def)
    next
      case (AsyncEntry w)
      then have "w \<notin> claimed s" using D(5) Cons by (auto simp: queue_ok_def)
      then show ?thesis
        using pool_ok_to_head [OF ok p False Cons, of "Posted h" "insert w (claimed s)"] False Cons AsyncEntry
        by (simp add: return_holder_def)
    qed
  qed
qed

lemma pool_ok_dead:
  assumes ok: "pool_ok s" and p: "clients s p = Cleaned h b"
  shows "pool_ok (drop_dead h (client p Away (s\<lparr>mishap := True\<rparr>)))"
proof (cases "shut s")
  case True
  then show ?thesis using pool_ok_forget [OF pool_ok_mishap [OF ok], of p] p by (simp add: drop_dead_def)
next
  case False
  note D = pool_okD [OF ok]
  have h: "lent s p = Some h" using p by (simp add: lent_def)
  note R = exclusive_released [OF D(1) h]
  have hs: "h \<in> set (holders s)" using D(7) [OF False] R(4) by auto
  have q: "queue_ok (waiters s) (claimed s) ((clients s)(p := Away))" using queue_ok_move [OF D(5)] p by simp
  show ?thesis
    using D R q hs exclusive_drop [OF D(1), of p] False
    by (intro pool_okI) (auto simp: drop_dead_def length_remove1 split: if_splits)
qed

lemma abort_waiters_fields [simp]:
  "holders (abort_waiters ws s) = holders s" "free (abort_waiters ws s) = free s"
  "shut (abort_waiters ws s) = shut s" "fresh (abort_waiters ws s) = fresh s"
  by (induction ws s rule: abort_waiters.induct) auto

lemma lent_abort:
  "(\<And>w. AsyncEntry w \<in> set ws \<Longrightarrow> holds (clients s w) = None) \<Longrightarrow> lent (abort_waiters ws s) = lent s"
proof (induction ws s rule: abort_waiters.induct)
  case (3 w rest s)
  have "(lent s)(w := None) = lent s" using 3(2) [of w] lent_same [of Away s w] by simp
  then show ?case using 3 by auto
qed auto

lemma pool_ok_drain:
  assumes ok: "pool_ok s" and "shut s"
  shows "pool_ok (client p Away (pool_drain s))"
proof -
  have "holds (clients s w) = None" if "AsyncEntry w \<in> set (waiters s)" for w
    using pool_okD(5) [OF ok] that unfolding queue_ok_def by force
  then have "lent (pool_drain s) = lent s" by (simp add: pool_drain_def lent_abort)
  moreover have "exclusive (lent s) [] (fresh s)" using pool_okD(1) [OF ok] by (simp add: exclusive_def)
  ultimately show ?thesis
    using assms(2) exclusive_drop [of "lent s" "[]" "fresh s" p] by (intro pool_okI) (auto simp: pool_drain_def queue_ok_def)
qed

definition pool_inv :: "'p ConnectionPool \<Rightarrow> bool" where
  "pool_inv s \<longleftrightarrow> pool_ok s \<and> (\<forall>p. clients s p = Draining \<longrightarrow> shut s)"

lemma pool_ok_step: "pool_step s s' \<Longrightarrow> pool_inv s \<Longrightarrow> pool_ok s'"
proof (induction rule: pool_step.induct)
  case (step_acquire s p mode)
  then show ?case by (intro pool_ok_acquire) (auto simp: pool_inv_def)
next
  case (step_created s p mode success)
  then show ?case by (intro pool_ok_created) (auto simp: pool_inv_def)
next
  case (step_timeout s p)
  then show ?case by (intro pool_ok_give_up) (auto simp: pool_inv_def)
next
  case (step_shut_wait s p mode)
  then show ?case by (intro pool_ok_give_up) (auto simp: pool_inv_def)
next
  case (step_async_timeout s p)
  then show ?case by (intro pool_ok_async_timeout) (auto simp: pool_inv_def)
next
  case (step_expired s p h)
  then have ok: "pool_ok s" by (simp add: pool_inv_def)
  have "shut s"
  proof (rule ccontr)
    assume "\<not> shut s"
    then have "ran (lent s) \<subseteq> set (holders s)" using pool_okD(7) [OF ok] by blast
    moreover have "h \<in> ran (lent s)" using step_expired(1) by (intro ranI [of _ p]) (simp add: lent_def)
    ultimately show False using step_expired(2) by blast
  qed
  then show ?case using pool_ok_forget [OF ok, of p] step_expired(1) by simp
next
  case (step_return s p h)
  then show ?case by (intro pool_ok_return) (auto simp: pool_inv_def)
next
  case (step_dead s p h)
  then show ?case by (intro pool_ok_dead) (auto simp: pool_inv_def)
next
  case (step_shutdown s p)
  then have "pool_ok (client p Draining s)" by (intro pool_ok_move) (auto simp: pool_inv_def)
  from pool_okD [OF this] show ?case by (intro pool_okI) auto
next
  case (step_drain s p)
  then show ?case by (intro pool_ok_drain) (auto simp: pool_inv_def)
qed (auto intro!: pool_ok_move simp: pool_inv_def)

lemma clients_abort:
  "clients (abort_waiters ws s) p = clients s p \<or> clients (abort_waiters ws s) p = Away"
  by (induction ws s rule: abort_waiters.induct) (auto split: if_splits)

lemma clients_hand_over:
  "clients (hand_over raw ws s) p = clients s p \<or> clients (hand_over raw ws s) p \<in> {Ready raw, Posted raw}"
  by (induction raw ws s rule: hand_over.induct) (auto split: if_splits)

lemma shut_hand_over [simp]: "shut (hand_over raw ws s) = shut s"
  by (induction raw ws s rule: hand_over.induct) auto

lemmas pool_defs = acquire_def lend_def enqueue_def holder_created_def give_up_def on_async_waiter_timeout_def
  return_holder_def drop_dead_def pool_drain_def

lemma pool_inv_step:
  assumes "pool_step s s'" "pool_inv s"
  shows "pool_inv s'"
proof -
  have "shut s'" if "clients s' p = Draining" for p
    using assms(1)
  proof cases
    case (step_return q h)
    then show ?thesis
      using that assms(2) clients_hand_over [of h "waiters s" "client q Away s" p]
      by (cases "p = q") (auto simp: pool_inv_def return_holder_def split: if_splits dest: sym)
  next
    case (step_drain q)
    then show ?thesis using assms(2) by (auto simp: pool_inv_def pool_drain_def)
  qed (use that assms(2) in \<open>auto simp: pool_defs pool_inv_def split: if_splits list.splits\<close>)
  then show ?thesis using pool_ok_step [OF assms] by (simp add: pool_inv_def)
qed

lemma pool_ok_open:
  "exclusive (lent s) (free s) (fresh s) \<Longrightarrow> lent s = Map.empty \<Longrightarrow> free s = holders s \<Longrightarrow> created s = length (holders s) \<Longrightarrow>
   waiters s = [] \<Longrightarrow> (\<And>p. clients s p = Away) \<Longrightarrow> \<not> shut s \<Longrightarrow>
   pool_inv (open_initial outcomes s)"
proof (induction outcomes s rule: open_initial.induct)
  case (1 s)
  then have "pool_ok s" by (intro pool_okI) (auto simp: exclusive_def queue_ok_def)
  with 1 show ?case by (simp add: pool_inv_def)
next
  case (2 success outcomes s)
  let ?s = "if success then s\<lparr>created := created s + 1, free := free s @ [fresh s], holders := holders s @ [fresh s], fresh := fresh s + 1\<rparr>
        else s\<lparr>mishap := True\<rparr>"
  have "exclusive (lent ?s) (free ?s) (fresh ?s)"
    using 2(2,3) exclusive_fresh [OF 2(2)] exclusive_free [OF exclusive_mono [OF 2(2), of "fresh s + 1"], of "fresh s"] by auto
  then have "pool_inv (open_initial outcomes ?s)" using 2 by (intro "2.IH") auto
  then show ?case by simp
qed

lemma pool_inv_new: "pool_inv (new_pool cap outcomes)"
  unfolding new_pool_def by (rule pool_ok_open) (auto simp: exclusive_def lent_def fun_eq_iff)

lemma pool_inv_reachable: "pool_step\<^sup>*\<^sup>* (new_pool cap outcomes) s \<Longrightarrow> pool_inv s"
  by (induction rule: rtranclp_induct) (auto intro: pool_inv_step pool_inv_new)

section \<open>How many connections there are\<close>

fun is_creating :: "pool_client \<Rightarrow> bool" where
  "is_creating (Creating mode) = True"
| "is_creating _ = False"

definition creating :: "'p ConnectionPool \<Rightarrow> nat" where
  "creating s = card {p. is_creating (clients s p)}"

lemma creating_client:
  fixes s :: "'p :: finite ConnectionPool"
  shows "creating (client p c s) + (if is_creating (clients s p) then 1 else 0)
       = creating s + (if is_creating c then 1 else 0)"
  using card_fun_upd [of is_creating "clients s" p c] by (simp add: creating_def)

lemma creating_client_le:
  fixes s :: "'p :: finite ConnectionPool"
  shows "\<not> is_creating c \<Longrightarrow> creating (client p c s) \<le> creating s"
  using creating_client [of p c s] by (simp split: if_splits)

lemma creating_more [simp]:
  "creating (s\<lparr>holders := x\<rparr>) = creating s" "creating (s\<lparr>free := x\<rparr>) = creating s"
  "creating (s\<lparr>waiters := w\<rparr>) = creating s" "creating (s\<lparr>created := n\<rparr>) = creating s"
  "creating (s\<lparr>shut := b\<rparr>) = creating s" "creating (s\<lparr>claimed := cl\<rparr>) = creating s"
  "creating (s\<lparr>fresh := n\<rparr>) = creating s" "creating (s\<lparr>mishap := b\<rparr>) = creating s"
  by (simp_all add: creating_def)

definition within :: "nat \<Rightarrow> 'p :: finite ConnectionPool \<Rightarrow> bool" where
  "within k s \<longleftrightarrow> created s + creating s + 1 \<le> pool_capacity s + k"

text \<open>A step after which at most \<open>k\<close> clients are opening a connection.\<close>

definition opening_step :: "nat \<Rightarrow> 'p ConnectionPool \<Rightarrow> 'p ConnectionPool \<Rightarrow> bool" where
  "opening_step k s s' \<longleftrightarrow> pool_step s s' \<and> creating s' \<le> k"

lemma within_le:
  fixes s s' :: "'p :: finite ConnectionPool"
  shows "within k s \<Longrightarrow> created s' + creating s' \<le> created s + creating s \<Longrightarrow> pool_capacity s' = pool_capacity s \<Longrightarrow> within k s'"
  by (simp add: within_def)

lemma hand_over_counts:
  fixes s :: "'p :: finite ConnectionPool"
  shows "created (hand_over raw ws s) = created s \<and> pool_capacity (hand_over raw ws s) = pool_capacity s
       \<and> creating (hand_over raw ws s) \<le> creating s"
  by (induction raw ws s rule: hand_over.induct) (auto intro: order_trans [OF creating_client_le])

lemma abort_waiters_counts:
  fixes s :: "'p :: finite ConnectionPool"
  shows "created (abort_waiters ws s) = created s \<and> pool_capacity (abort_waiters ws s) = pool_capacity s
       \<and> creating (abort_waiters ws s) \<le> creating s"
proof (induction ws s rule: abort_waiters.induct)
  case (3 w rest s)
  then show ?case using creating_client_le [of Away w "s\<lparr>claimed := insert w (claimed s)\<rparr>"] by (auto split: if_splits)
qed auto

lemma enqueue_counts:
  fixes s :: "'p :: finite ConnectionPool"
  shows "created (enqueue p mode s) = created s \<and> pool_capacity (enqueue p mode s) = pool_capacity s
       \<and> creating (enqueue p mode s) + (if is_creating (clients s p) then 1 else 0) = creating s"
  using creating_client [of p Away s]
    creating_client [of p "Waiting mode" "s\<lparr>waiters := waiters s @ [if is_async mode then AsyncEntry p else SyncEntry p],
           claimed := claimed s - {p}\<rparr>"]
  by (simp add: enqueue_def)

lemma within_acquire:
  fixes s :: "'p :: finite ConnectionPool"
  assumes "within k s" "clients s p = Away" "creating (acquire p mode s) \<le> k"
  shows "within k (acquire p mode s)"
proof -
  consider "shut s" | raw rest where "\<not> shut s" "free s = raw # rest"
    | "\<not> shut s" "free s = []" "created s < pool_capacity s" | "\<not> shut s" "free s = []" "\<not> created s < pool_capacity s"
    by (cases "free s") auto
  then show ?thesis
  proof cases
    case 1
    then show ?thesis using assms creating_client_le [of Away p s] by (auto simp: acquire_def intro!: within_le [where s = s])
  next
    case 2
    then show ?thesis
      using assms creating_client_le [of "if is_async mode then Posted raw else Using raw" p "s\<lparr>free := rest\<rparr>"]
      by (auto simp: acquire_def lend_def intro!: within_le [where s = s])
  next
    case 3
    then show ?thesis using assms(3) by (simp add: acquire_def within_def)
  next
    case 4
    then show ?thesis using assms enqueue_counts [of p mode s] by (auto simp: acquire_def intro!: within_le [where s = s])
  qed
qed

lemma within_created:
  fixes s :: "'p :: finite ConnectionPool"
  assumes "within k s" "clients s p = Creating mode"
  shows "within k (holder_created p mode success s)"
proof -
  have "creating (client p Away s) + 1 = creating s" "creating (client p (Using (fresh s)) s) + 1 = creating s"
    using creating_client [of p Away s] creating_client [of p "Using (fresh s)" s] assms(2) by simp_all
  moreover have "creating (lend p mode h s') = creating (client p (Using h) s')" for h and s' :: "'p ConnectionPool"
    using creating_client [of p "Using h" s'] creating_client [of p "Posted h" s'] by (simp add: lend_def)
  moreover have "creating (client p (Using h) (s\<lparr>created := n, holders := hs, fresh := f\<rparr>)) = creating (client p (Using h) s)"
    for n hs f h by (simp add: creating_def)
  ultimately show ?thesis
    using assms enqueue_counts [of p mode "s\<lparr>mishap := True\<rparr>"]
    by (auto simp: holder_created_def within_def lend_def split: if_splits)
qed

lemma within_client:
  fixes s :: "'p :: finite ConnectionPool"
  shows "within k s \<Longrightarrow> \<not> is_creating c \<Longrightarrow> within k (client p c s)"
  using creating_client_le [of c p s] by (simp add: within_def)

lemma within_waiters [simp]: "within k (s\<lparr>waiters := ws\<rparr>) = within k s"
  by (simp add: within_def)

lemma within_step:
  fixes s :: "'p :: finite ConnectionPool"
  shows "pool_step s s' \<Longrightarrow> creating s' \<le> k \<Longrightarrow> within k s \<Longrightarrow> within k s'"
proof (induction rule: pool_step.induct)
  case (step_acquire s p mode)
  then show ?case by (intro within_acquire)
next
  case (step_created s p mode success)
  then show ?case by (intro within_created)
next
  case (step_async_timeout s p)
  then show ?case
    using creating_client_le [of Away p "s\<lparr>claimed := insert p (claimed s), waiters := filter (\<lambda>e. e \<noteq> AsyncEntry p) (waiters s)\<rparr>"]
    by (auto simp: on_async_waiter_timeout_def intro!: within_le [where s = s])
next
  case (step_return s p h)
  then show ?case
    using creating_client_le [of Away p s] hand_over_counts [of h "waiters s" "client p Away s"]
    by (auto simp: return_holder_def intro!: within_le [where s = s])
next
  case (step_dead s p h)
  then show ?case
    using creating_client_le [of Away p "s\<lparr>mishap := True\<rparr>"] by (auto simp: drop_dead_def intro!: within_le [where s = s])
next
  case (step_shutdown s p)
  then show ?case using creating_client_le [of Draining p "s\<lparr>shut := True\<rparr>"] by (auto intro!: within_le [where s = s])
next
  case (step_drain s p)
  then show ?case
    using creating_client_le [of Away p "pool_drain s"] abort_waiters_counts [of "waiters s" s]
    by (auto simp: pool_drain_def intro!: within_le [where s = s])
qed (auto simp: give_up_def within_client)

lemma open_initial_counts:
  "created (open_initial outcomes s) \<le> created s + length outcomes \<and> clients (open_initial outcomes s) = clients s
   \<and> pool_capacity (open_initial outcomes s) = pool_capacity s"
  by (induction outcomes s rule: open_initial.induct) auto

lemma hand_over_capacity [simp]: "pool_capacity (hand_over raw ws s) = pool_capacity s"
  by (induction raw ws s rule: hand_over.induct) auto

lemma abort_waiters_capacity [simp]: "pool_capacity (abort_waiters ws s) = pool_capacity s"
  by (induction ws s rule: abort_waiters.induct) auto

lemma pool_capacity_step: "pool_step s s' \<Longrightarrow> pool_capacity s' = pool_capacity s"
  by (induction rule: pool_step.induct) (auto simp: pool_defs split: list.splits)

lemma within_reachable:
  fixes s :: "'p :: finite ConnectionPool"
  assumes "1 \<le> k" "length outcomes \<le> cap" "(opening_step k)\<^sup>*\<^sup>* (new_pool cap outcomes) s"
  shows "within k s \<and> pool_capacity s = cap"
  using assms(3)
proof (induction rule: rtranclp_induct)
  case base
  have "creating (new_pool cap outcomes :: 'p ConnectionPool) = 0"
    by (simp add: creating_def new_pool_def open_initial_counts)
  moreover have "created (new_pool cap outcomes :: 'p ConnectionPool) \<le> cap"
    "pool_capacity (new_pool cap outcomes :: 'p ConnectionPool) = cap"
    unfolding new_pool_def
    using assms(2) by (auto intro: order_trans [OF conjunct1 [OF open_initial_counts]] simp: open_initial_counts)
  ultimately show ?case using assms(1) unfolding within_def by linarith
next
  case (step s s')
  then have "pool_step s s'" "creating s' \<le> k" by (simp_all add: opening_step_def)
  then show ?case using within_step [of s s' k] pool_capacity_step [of s s'] step.IH by simp
qed

section \<open>Properties of the pool\<close>

text \<open>C11: a connection is never lent twice. Under every interleaving of any number of clients, no two clients hold the
  same connection and no held connection is on the free list. Until shutdown every connection is free or held by
  exactly one client, \<open>created_\<close> counts them, and the statistics add up. While no attempt to open a connection has
  failed and none has been dropped, nobody waits while a connection is free or the capacity is not used up. Every
  queued waiter is waiting and unclaimed.\<close>

theorem pool_exclusive:
  assumes "pool_step\<^sup>*\<^sup>* (new_pool cap outcomes) s"
  shows "(\<forall>p q h. holds (clients s p) = Some h \<longrightarrow> holds (clients s q) = Some h \<longrightarrow> p = q)
       \<and> (\<forall>p h. holds (clients s p) = Some h \<longrightarrow> h \<notin> set (free s))
       \<and> distinct (free s) \<and> set (free s) \<subseteq> set (holders s)
       \<and> (\<not> shut s \<longrightarrow>
            (\<forall>h \<in> set (holders s). h \<in> set (free s) \<or> (\<exists>p. holds (clients s p) = Some h))
            \<and> created s = length (holders s) \<and> active_count s + free_count s = created s
            \<and> (\<not> mishap s \<longrightarrow> waiter_count s \<noteq> 0 \<longrightarrow> free_count s = 0 \<and> pool_capacity s \<le> active_count s))
       \<and> (\<forall>e \<in> set (waiters s). is_waiting (clients s (entry_of e)))
       \<and> (\<forall>p. AsyncEntry p \<in> set (waiters s) \<longrightarrow> p \<notin> claimed s)"
proof -
  have ok: "pool_ok s" using pool_inv_reachable [OF assms] by (simp add: pool_inv_def)
  note D = pool_okD [OF ok]
  have one: "p = q" if "holds (clients s p) = Some h" "holds (clients s q) = Some h" for p q h
    using D(1) that unfolding exclusive_def inj_on_def dom_def lent_def by force
  have not_free: "h \<notin> set (free s)" if "holds (clients s p) = Some h" for p h
    using D(1) that unfolding exclusive_def ran_def lent_def by blast
  have "distinct (free s)" using D(1) by (simp add: exclusive_def)
  then have "length (free s) \<le> length (holders s)" using D(3) by (metis card_mono distinct_card List.finite_set card_length order_trans)
  then have "\<not> shut s \<longrightarrow>
            (\<forall>h \<in> set (holders s). h \<in> set (free s) \<or> (\<exists>p. holds (clients s p) = Some h))
            \<and> created s = length (holders s) \<and> active_count s + free_count s = created s
            \<and> (\<not> mishap s \<longrightarrow> waiter_count s \<noteq> 0 \<longrightarrow> free_count s = 0 \<and> pool_capacity s \<le> active_count s)"
    using D(6,7,9,10) by (auto simp: active_count_def free_count_def waiter_count_def ran_def lent_def)
  moreover have "\<forall>e \<in> set (waiters s). is_waiting (clients s (entry_of e))" "\<forall>p. AsyncEntry p \<in> set (waiters s) \<longrightarrow> p \<notin> claimed s"
    using D(5) unfolding queue_ok_def by force+
  ultimately show ?thesis using one not_free D(3) \<open>distinct (free s)\<close> by blast
qed

theorem pool_exclusive_witness:
  "\<exists>s :: bool ConnectionPool. pool_step\<^sup>*\<^sup>* (new_pool 1 [True]) s \<and> clients s True = Using 0 \<and> 0 \<notin> set (free s)"
proof -
  let ?s = "acquire True Try (new_pool 1 [True]) :: bool ConnectionPool"
  have "pool_step (new_pool 1 [True]) ?s" by (rule step_acquire) (simp add: new_pool_def)
  then have r: "pool_step\<^sup>*\<^sup>* (new_pool 1 [True]) ?s" by blast
  have u: "clients ?s True = Using 0" by (simp add: acquire_def lend_def new_pool_def)
  then have "holds (clients ?s True) = Some 0" by simp
  with pool_exclusive [OF r] have "0 \<notin> set (free ?s)" by blast
  with r u show ?thesis by blast
qed

text \<open>C37: how far the number of connections can exceed the capacity. \<open>created_ < capacity\<close> is tested before the lock is
  dropped for opening a connection and not again. So if at most \<open>k\<close> clients are ever opening a connection at the same
  time, of however many clients, the pool holds at most \<open>capacity + k - 1\<close> connections; opened one at a time they never
  exceed the capacity.\<close>

theorem pool_capacity_bound:
  fixes s :: "'p :: finite ConnectionPool"
  assumes "1 \<le> k" "length outcomes \<le> cap" "(opening_step k)\<^sup>*\<^sup>* (new_pool cap outcomes) s"
  shows "created s + 1 \<le> cap + k"
  using within_reachable [OF assms] by (simp add: within_def)

text \<open>With two clients opening at once, capacity 1 gives two connections.\<close>

theorem pool_capacity_bound_witness:
  "\<exists>s :: bool ConnectionPool. (opening_step 2)\<^sup>*\<^sup>* (new_pool 1 []) s \<and> created s = 2 \<and> created s + 1 \<le> 1 + 2"
proof -
  let ?s0 = "new_pool 1 [] :: bool ConnectionPool"
  let ?s1 = "acquire True Try ?s0" let ?s2 = "acquire False Try ?s1"
  let ?s3 = "holder_created True Try True ?s2" let ?s4 = "holder_created False Try True ?s3"
  have o: "opening_step 2 s s'" if "pool_step s s'" for s s' :: "bool ConnectionPool"
    using that card_mono [of "UNIV :: bool set" "{p. is_creating (clients s' p)}"] by (simp add: opening_step_def creating_def)
  have 1: "pool_step ?s0 ?s1" by (rule step_acquire) (simp add: new_pool_def)
  have 2: "pool_step ?s1 ?s2" by (rule step_acquire) (simp add: new_pool_def acquire_def)
  have 3: "pool_step ?s2 ?s3" by (rule step_created) (simp add: new_pool_def acquire_def)
  have 4: "pool_step ?s3 ?s4" by (rule step_created) (simp add: new_pool_def acquire_def holder_created_def lend_def)
  have r: "(opening_step 2)\<^sup>*\<^sup>* ?s0 ?s4"
    using o [OF 1] o [OF 2] o [OF 3] o [OF 4] by (meson r_into_rtranclp rtranclp.rtrancl_into_rtrancl)
  moreover have "created ?s4 = 2" by (simp add: new_pool_def acquire_def holder_created_def lend_def)
  moreover have "created ?s4 + 1 \<le> 1 + 2" using pool_capacity_bound [OF _ _ r] by simp
  ultimately show ?thesis by blast
qed

text \<open>Two races. A client whose attempt to open a connection fails joins the queue without looking at the free list
  again, so it can wait with no time limit while a connection that was returned in the meantime is free. And a holder
  handed to a blocked thread is kept alive by the pool alone: \<open>shutdown\<close> can destroy it before the thread runs and
  follows the pointer.\<close>

theorem pool_races:
  "(\<exists>s :: bool ConnectionPool. pool_step\<^sup>*\<^sup>* (new_pool 2 [True]) s \<and> \<not> shut s
      \<and> clients s False = Waiting Unbounded \<and> waiters s = [SyncEntry False] \<and> free s = [0] \<and> clients s True = Away)
   \<and> (\<exists>s :: bool ConnectionPool. pool_step\<^sup>*\<^sup>* (new_pool 1 [True]) s
      \<and> clients s False = Ready 0 \<and> holders s = [] \<and> clients s True = Away)"
proof
  let ?s0 = "new_pool 2 [True] :: bool ConnectionPool"
  let ?s1 = "acquire True Try ?s0" let ?s2 = "acquire False Unbounded ?s1"
  let ?s3 = "client True (Cleaned 0 True) ?s2" let ?s4 = "return_holder 0 (client True Away ?s3)"
  let ?s5 = "holder_created False Unbounded False ?s4"
  have 1: "pool_step ?s0 ?s1" by (rule step_acquire) (simp add: new_pool_def)
  have 2: "pool_step ?s1 ?s2" by (rule step_acquire) (simp add: new_pool_def pool_defs)
  have 3: "pool_step ?s2 ?s3" by (rule step_reset) (simp_all add: new_pool_def pool_defs)
  have 4: "pool_step ?s3 ?s4" by (rule step_return) simp
  have 5: "pool_step ?s4 ?s5" by (rule step_created) (simp add: new_pool_def pool_defs)
  have "pool_step\<^sup>*\<^sup>* ?s0 ?s5" using 1 2 3 4 5 by (meson r_into_rtranclp rtranclp.rtrancl_into_rtrancl)
  moreover have "\<not> shut ?s5 \<and> clients ?s5 False = Waiting Unbounded \<and> waiters ?s5 = [SyncEntry False]
      \<and> free ?s5 = [0] \<and> clients ?s5 True = Away"
    by (simp add: new_pool_def pool_defs)
  ultimately show "\<exists>s :: bool ConnectionPool. pool_step\<^sup>*\<^sup>* (new_pool 2 [True]) s \<and> \<not> shut s
      \<and> clients s False = Waiting Unbounded \<and> waiters s = [SyncEntry False] \<and> free s = [0] \<and> clients s True = Away"
    by blast
next
  let ?s0 = "new_pool 1 [True] :: bool ConnectionPool"
  let ?s1 = "acquire True Try ?s0" let ?s2 = "acquire False Unbounded ?s1"
  let ?s3 = "client True (Cleaned 0 True) ?s2" let ?s4 = "return_holder 0 (client True Away ?s3)"
  let ?s5 = "client True Draining (?s4\<lparr>shut := True\<rparr>)" let ?s6 = "client True Away (pool_drain ?s5)"
  have 1: "pool_step ?s0 ?s1" by (rule step_acquire) (simp add: new_pool_def)
  have 2: "pool_step ?s1 ?s2" by (rule step_acquire) (simp add: new_pool_def pool_defs)
  have 3: "pool_step ?s2 ?s3" by (rule step_reset) (simp_all add: new_pool_def pool_defs)
  have 4: "pool_step ?s3 ?s4" by (rule step_return) simp
  have 5: "pool_step ?s4 ?s5" by (rule step_shutdown) (simp_all add: new_pool_def pool_defs)
  have 6: "pool_step ?s5 ?s6" by (rule step_drain) simp
  have "pool_step\<^sup>*\<^sup>* ?s0 ?s6" using 1 2 3 4 5 6 by (meson r_into_rtranclp rtranclp.rtrancl_into_rtrancl)
  moreover have "clients ?s6 False = Ready 0 \<and> holders ?s6 = [] \<and> clients ?s6 True = Away"
    by (simp add: new_pool_def pool_defs)
  ultimately show "\<exists>s :: bool ConnectionPool. pool_step\<^sup>*\<^sup>* (new_pool 1 [True]) s
      \<and> clients s False = Ready 0 \<and> holders s = [] \<and> clients s True = Away" by blast
qed

end
