(* ===== verification/Pg_Errors.thy ===== *)
theory Pg_Errors
  imports Menagerie_Prelude "HOL-Library.Word"
begin

text \<open>
  Errors of the database layer: the unified codes of \<open>base/errors/db_error_codes.hpp\<close> in their three categories, and
  how the PostgreSQL provider obtains them (\<open>errors/postgres_errors.cpp\<close>, \<open>errors/detail/sqlstate_mapping.inl\<close>,
  \<open>errors/detail/exec_status_mapping.inl\<close>).

  A libpq result or connection is represented by what its accessor functions return.
\<close>

section \<open>The codes\<close>

datatype ClientErrorCode =
    Client_Success
  | Client_InvalidArgument
  | Client_SyntaxError
  | Client_InvalidParameter
  | Client_TypeMismatch
  | Client_NullConversion
  | Client_InvalidCast
  | Client_OutOfRange
  | Client_ConfigurationError
  | Client_ConnectionStringError
  | Client_AuthenticationError
  | Client_InvalidOption
  | Client_MissingParameter
  | Client_InvalidState
  | Client_NotConnected
  | Client_AlreadyConnected
  | Client_TransactionActive
  | Client_NoActiveTransaction
  | Client_PoolExhausted
  | Client_PoolShutdown
  | Client_WaitTimeout

primrec client_code :: "ClientErrorCode \<Rightarrow> 16 word" where
  "client_code Client_Success = 0"
| "client_code Client_InvalidArgument = 100"
| "client_code Client_SyntaxError = 101"
| "client_code Client_InvalidParameter = 102"
| "client_code Client_TypeMismatch = 103"
| "client_code Client_NullConversion = 104"
| "client_code Client_InvalidCast = 105"
| "client_code Client_OutOfRange = 106"
| "client_code Client_ConfigurationError = 200"
| "client_code Client_ConnectionStringError = 201"
| "client_code Client_AuthenticationError = 202"
| "client_code Client_InvalidOption = 203"
| "client_code Client_MissingParameter = 204"
| "client_code Client_InvalidState = 300"
| "client_code Client_NotConnected = 301"
| "client_code Client_AlreadyConnected = 302"
| "client_code Client_TransactionActive = 303"
| "client_code Client_NoActiveTransaction = 304"
| "client_code Client_PoolExhausted = 310"
| "client_code Client_PoolShutdown = 311"
| "client_code Client_WaitTimeout = 312"

definition all_client_codes :: "ClientErrorCode list" where
  "all_client_codes =
     [Client_Success, Client_InvalidArgument, Client_SyntaxError, Client_InvalidParameter, Client_TypeMismatch, Client_NullConversion, Client_InvalidCast, Client_OutOfRange, Client_ConfigurationError, Client_ConnectionStringError, Client_AuthenticationError, Client_InvalidOption, Client_MissingParameter, Client_InvalidState, Client_NotConnected, Client_AlreadyConnected, Client_TransactionActive, Client_NoActiveTransaction, Client_PoolExhausted, Client_PoolShutdown, Client_WaitTimeout]"

primrec client_to_string :: "ClientErrorCode \<Rightarrow> string" where
  "client_to_string Client_Success = ''Success''"
| "client_to_string Client_InvalidArgument = ''InvalidArgument''"
| "client_to_string Client_SyntaxError = ''SyntaxError''"
| "client_to_string Client_InvalidParameter = ''InvalidParameter''"
| "client_to_string Client_TypeMismatch = ''TypeMismatch''"
| "client_to_string Client_NullConversion = ''NullConversion''"
| "client_to_string Client_InvalidCast = ''InvalidCast''"
| "client_to_string Client_OutOfRange = ''OutOfRange''"
| "client_to_string Client_ConfigurationError = ''ConfigurationError''"
| "client_to_string Client_ConnectionStringError = ''ConnectionStringError''"
| "client_to_string Client_AuthenticationError = ''AuthenticationError''"
| "client_to_string Client_InvalidOption = ''InvalidOption''"
| "client_to_string Client_MissingParameter = ''MissingParameter''"
| "client_to_string Client_InvalidState = ''InvalidState''"
| "client_to_string Client_NotConnected = ''NotConnected''"
| "client_to_string Client_AlreadyConnected = ''AlreadyConnected''"
| "client_to_string Client_TransactionActive = ''TransactionActive''"
| "client_to_string Client_NoActiveTransaction = ''NoActiveTransaction''"
| "client_to_string Client_PoolExhausted = ''PoolExhausted''"
| "client_to_string Client_PoolShutdown = ''PoolShutdown''"
| "client_to_string Client_WaitTimeout = ''WaitTimeout''"

primrec client_description :: "ClientErrorCode \<Rightarrow> string" where
  "client_description Client_Success = ''Operation completed successfully''"
| "client_description Client_InvalidArgument = ''Invalid argument provided to function''"
| "client_description Client_SyntaxError = ''SQL syntax error in query''"
| "client_description Client_InvalidParameter = ''Invalid parameter value''"
| "client_description Client_TypeMismatch = ''Type mismatch between expected and actual value''"
| "client_description Client_NullConversion = ''Attempted to convert NULL to non-nullable type''"
| "client_description Client_InvalidCast = ''Invalid type cast operation''"
| "client_description Client_OutOfRange = ''Value out of valid range''"
| "client_description Client_ConfigurationError = ''Database configuration error''"
| "client_description Client_ConnectionStringError = ''Invalid or malformed connection string''"
| "client_description Client_AuthenticationError = ''Authentication credentials invalid or missing''"
| "client_description Client_InvalidOption = ''Invalid configuration option''"
| "client_description Client_MissingParameter = ''Required parameter is missing''"
| "client_description Client_InvalidState = ''Operation invalid in current state''"
| "client_description Client_NotConnected = ''Not connected to database''"
| "client_description Client_AlreadyConnected = ''Already connected to database''"
| "client_description Client_TransactionActive = ''Transaction already active''"
| "client_description Client_NoActiveTransaction = ''No active transaction''"
| "client_description Client_PoolExhausted = ''Connection pool exhausted, no available connections''"
| "client_description Client_PoolShutdown = ''Connection pool has been shut down''"
| "client_description Client_WaitTimeout = ''Timed wait on a blocking pool expired before a connection became available''"

datatype ServerErrorCode =
    Server_Success
  | Server_RuntimeError
  | Server_ConnectionError
  | Server_ConnectionLost
  | Server_ConnectionTimeout
  | Server_ConnectionRefused
  | Server_DeadlockDetected
  | Server_LockTimeout
  | Server_StatementTimeout
  | Server_SerializationFailure
  | Server_ConstraintViolation
  | Server_UniqueViolation
  | Server_ForeignKeyViolation
  | Server_CheckViolation
  | Server_NotNullViolation
  | Server_ExclusionViolation
  | Server_DataError
  | Server_DataTooLong
  | Server_NumericOverflow
  | Server_DivisionByZero
  | Server_InvalidDatetime
  | Server_InvalidEncoding
  | Server_InvalidTextFormat
  | Server_AccessError
  | Server_PermissionDenied
  | Server_ObjectNotFound
  | Server_DatabaseNotFound
  | Server_TableNotFound
  | Server_ColumnNotFound
  | Server_SchemaNotFound
  | Server_FunctionNotFound
  | Server_ResourceError
  | Server_OutOfMemory
  | Server_DiskFull
  | Server_TooManyConnections
  | Server_ConfigurationLimit
  | Server_QueryTooComplex
  | Server_TransactionError
  | Server_TransactionRollback
  | Server_TransactionAborted
  | Server_InvalidIsolationLevel

primrec server_code :: "ServerErrorCode \<Rightarrow> 16 word" where
  "server_code Server_Success = 0"
| "server_code Server_RuntimeError = 100"
| "server_code Server_ConnectionError = 110"
| "server_code Server_ConnectionLost = 111"
| "server_code Server_ConnectionTimeout = 112"
| "server_code Server_ConnectionRefused = 113"
| "server_code Server_DeadlockDetected = 120"
| "server_code Server_LockTimeout = 121"
| "server_code Server_StatementTimeout = 122"
| "server_code Server_SerializationFailure = 123"
| "server_code Server_ConstraintViolation = 200"
| "server_code Server_UniqueViolation = 201"
| "server_code Server_ForeignKeyViolation = 202"
| "server_code Server_CheckViolation = 203"
| "server_code Server_NotNullViolation = 204"
| "server_code Server_ExclusionViolation = 205"
| "server_code Server_DataError = 300"
| "server_code Server_DataTooLong = 301"
| "server_code Server_NumericOverflow = 302"
| "server_code Server_DivisionByZero = 303"
| "server_code Server_InvalidDatetime = 304"
| "server_code Server_InvalidEncoding = 305"
| "server_code Server_InvalidTextFormat = 306"
| "server_code Server_AccessError = 400"
| "server_code Server_PermissionDenied = 401"
| "server_code Server_ObjectNotFound = 402"
| "server_code Server_DatabaseNotFound = 403"
| "server_code Server_TableNotFound = 404"
| "server_code Server_ColumnNotFound = 405"
| "server_code Server_SchemaNotFound = 406"
| "server_code Server_FunctionNotFound = 407"
| "server_code Server_ResourceError = 500"
| "server_code Server_OutOfMemory = 501"
| "server_code Server_DiskFull = 502"
| "server_code Server_TooManyConnections = 503"
| "server_code Server_ConfigurationLimit = 504"
| "server_code Server_QueryTooComplex = 505"
| "server_code Server_TransactionError = 600"
| "server_code Server_TransactionRollback = 601"
| "server_code Server_TransactionAborted = 602"
| "server_code Server_InvalidIsolationLevel = 603"

definition all_server_codes :: "ServerErrorCode list" where
  "all_server_codes =
     [Server_Success, Server_RuntimeError, Server_ConnectionError, Server_ConnectionLost, Server_ConnectionTimeout, Server_ConnectionRefused, Server_DeadlockDetected, Server_LockTimeout, Server_StatementTimeout, Server_SerializationFailure, Server_ConstraintViolation, Server_UniqueViolation, Server_ForeignKeyViolation, Server_CheckViolation, Server_NotNullViolation, Server_ExclusionViolation, Server_DataError, Server_DataTooLong, Server_NumericOverflow, Server_DivisionByZero, Server_InvalidDatetime, Server_InvalidEncoding, Server_InvalidTextFormat, Server_AccessError, Server_PermissionDenied, Server_ObjectNotFound, Server_DatabaseNotFound, Server_TableNotFound, Server_ColumnNotFound, Server_SchemaNotFound, Server_FunctionNotFound, Server_ResourceError, Server_OutOfMemory, Server_DiskFull, Server_TooManyConnections, Server_ConfigurationLimit, Server_QueryTooComplex, Server_TransactionError, Server_TransactionRollback, Server_TransactionAborted, Server_InvalidIsolationLevel]"

primrec server_to_string :: "ServerErrorCode \<Rightarrow> string" where
  "server_to_string Server_Success = ''Success''"
| "server_to_string Server_RuntimeError = ''RuntimeError''"
| "server_to_string Server_ConnectionError = ''ConnectionError''"
| "server_to_string Server_ConnectionLost = ''ConnectionLost''"
| "server_to_string Server_ConnectionTimeout = ''ConnectionTimeout''"
| "server_to_string Server_ConnectionRefused = ''ConnectionRefused''"
| "server_to_string Server_DeadlockDetected = ''DeadlockDetected''"
| "server_to_string Server_LockTimeout = ''LockTimeout''"
| "server_to_string Server_StatementTimeout = ''StatementTimeout''"
| "server_to_string Server_SerializationFailure = ''SerializationFailure''"
| "server_to_string Server_ConstraintViolation = ''ConstraintViolation''"
| "server_to_string Server_UniqueViolation = ''UniqueViolation''"
| "server_to_string Server_ForeignKeyViolation = ''ForeignKeyViolation''"
| "server_to_string Server_CheckViolation = ''CheckViolation''"
| "server_to_string Server_NotNullViolation = ''NotNullViolation''"
| "server_to_string Server_ExclusionViolation = ''ExclusionViolation''"
| "server_to_string Server_DataError = ''DataError''"
| "server_to_string Server_DataTooLong = ''DataTooLong''"
| "server_to_string Server_NumericOverflow = ''NumericOverflow''"
| "server_to_string Server_DivisionByZero = ''DivisionByZero''"
| "server_to_string Server_InvalidDatetime = ''InvalidDatetime''"
| "server_to_string Server_InvalidEncoding = ''InvalidEncoding''"
| "server_to_string Server_InvalidTextFormat = ''InvalidTextFormat''"
| "server_to_string Server_AccessError = ''AccessError''"
| "server_to_string Server_PermissionDenied = ''PermissionDenied''"
| "server_to_string Server_ObjectNotFound = ''ObjectNotFound''"
| "server_to_string Server_DatabaseNotFound = ''DatabaseNotFound''"
| "server_to_string Server_TableNotFound = ''TableNotFound''"
| "server_to_string Server_ColumnNotFound = ''ColumnNotFound''"
| "server_to_string Server_SchemaNotFound = ''SchemaNotFound''"
| "server_to_string Server_FunctionNotFound = ''FunctionNotFound''"
| "server_to_string Server_ResourceError = ''ResourceError''"
| "server_to_string Server_OutOfMemory = ''OutOfMemory''"
| "server_to_string Server_DiskFull = ''DiskFull''"
| "server_to_string Server_TooManyConnections = ''TooManyConnections''"
| "server_to_string Server_ConfigurationLimit = ''ConfigurationLimit''"
| "server_to_string Server_QueryTooComplex = ''QueryTooComplex''"
| "server_to_string Server_TransactionError = ''TransactionError''"
| "server_to_string Server_TransactionRollback = ''TransactionRollback''"
| "server_to_string Server_TransactionAborted = ''TransactionAborted''"
| "server_to_string Server_InvalidIsolationLevel = ''InvalidIsolationLevel''"

primrec server_description :: "ServerErrorCode \<Rightarrow> string" where
  "server_description Server_Success = ''Operation completed successfully''"
| "server_description Server_RuntimeError = ''Runtime error on database server''"
| "server_description Server_ConnectionError = ''Error establishing connection to database''"
| "server_description Server_ConnectionLost = ''Connection to database was lost''"
| "server_description Server_ConnectionTimeout = ''Connection attempt timed out''"
| "server_description Server_ConnectionRefused = ''Connection refused by database server''"
| "server_description Server_DeadlockDetected = ''Deadlock detected, transaction aborted''"
| "server_description Server_LockTimeout = ''Timeout waiting for lock''"
| "server_description Server_StatementTimeout = ''Statement execution timeout''"
| "server_description Server_SerializationFailure = ''Transaction serialization failure''"
| "server_description Server_ConstraintViolation = ''Database constraint violation''"
| "server_description Server_UniqueViolation = ''Unique constraint violation''"
| "server_description Server_ForeignKeyViolation = ''Foreign key constraint violation''"
| "server_description Server_CheckViolation = ''Check constraint violation''"
| "server_description Server_NotNullViolation = ''NOT NULL constraint violation''"
| "server_description Server_ExclusionViolation = ''Exclusion constraint violation''"
| "server_description Server_DataError = ''Data error in query or result''"
| "server_description Server_DataTooLong = ''Data too long for column''"
| "server_description Server_NumericOverflow = ''Numeric value overflow''"
| "server_description Server_DivisionByZero = ''Division by zero''"
| "server_description Server_InvalidDatetime = ''Invalid datetime value''"
| "server_description Server_InvalidEncoding = ''Invalid character encoding''"
| "server_description Server_InvalidTextFormat = ''Invalid text representation''"
| "server_description Server_AccessError = ''Database access error''"
| "server_description Server_PermissionDenied = ''Permission denied for operation''"
| "server_description Server_ObjectNotFound = ''Database object not found''"
| "server_description Server_DatabaseNotFound = ''Database does not exist''"
| "server_description Server_TableNotFound = ''Table does not exist''"
| "server_description Server_ColumnNotFound = ''Column does not exist''"
| "server_description Server_SchemaNotFound = ''Schema does not exist''"
| "server_description Server_FunctionNotFound = ''Function does not exist''"
| "server_description Server_ResourceError = ''Database resource error''"
| "server_description Server_OutOfMemory = ''Database server out of memory''"
| "server_description Server_DiskFull = ''Database disk full''"
| "server_description Server_TooManyConnections = ''Too many database connections''"
| "server_description Server_ConfigurationLimit = ''Database configuration limit exceeded''"
| "server_description Server_QueryTooComplex = ''Query too complex to execute''"
| "server_description Server_TransactionError = ''Transaction error''"
| "server_description Server_TransactionRollback = ''Transaction rolled back''"
| "server_description Server_TransactionAborted = ''Transaction aborted''"
| "server_description Server_InvalidIsolationLevel = ''Invalid transaction isolation level''"

datatype FatalErrorCode =
    Fatal_InternalError
  | Fatal_CorruptionDetected
  | Fatal_ProtocolViolation
  | Fatal_AssertionFailure
  | Fatal_UnexpectedState

primrec fatal_code :: "FatalErrorCode \<Rightarrow> 16 word" where
  "fatal_code Fatal_InternalError = 1"
| "fatal_code Fatal_CorruptionDetected = 2"
| "fatal_code Fatal_ProtocolViolation = 3"
| "fatal_code Fatal_AssertionFailure = 4"
| "fatal_code Fatal_UnexpectedState = 5"

definition all_fatal_codes :: "FatalErrorCode list" where
  "all_fatal_codes =
     [Fatal_InternalError, Fatal_CorruptionDetected, Fatal_ProtocolViolation, Fatal_AssertionFailure, Fatal_UnexpectedState]"

primrec fatal_to_string :: "FatalErrorCode \<Rightarrow> string" where
  "fatal_to_string Fatal_InternalError = ''InternalError''"
| "fatal_to_string Fatal_CorruptionDetected = ''CorruptionDetected''"
| "fatal_to_string Fatal_ProtocolViolation = ''ProtocolViolation''"
| "fatal_to_string Fatal_AssertionFailure = ''AssertionFailure''"
| "fatal_to_string Fatal_UnexpectedState = ''UnexpectedState''"

primrec fatal_description :: "FatalErrorCode \<Rightarrow> string" where
  "fatal_description Fatal_InternalError = ''Internal database driver error''"
| "fatal_description Fatal_CorruptionDetected = ''Data corruption detected''"
| "fatal_description Fatal_ProtocolViolation = ''Database protocol violation''"
| "fatal_description Fatal_AssertionFailure = ''Internal assertion failed''"
| "fatal_description Fatal_UnexpectedState = ''Unexpected internal state''"

section \<open>ErrorCode\<close>

datatype Category = Cat_Success | Cat_Client | Cat_Server | Cat_Fatal

record ErrorCode =
  ec_category :: Category
  ec_code :: "16 word"

definition success_code :: ErrorCode where
  "success_code = \<lparr>ec_category = Cat_Success, ec_code = 0\<rparr>"

definition of_client :: "ClientErrorCode \<Rightarrow> ErrorCode" where
  "of_client c = \<lparr>ec_category = Cat_Client, ec_code = client_code c\<rparr>"

definition of_server :: "ServerErrorCode \<Rightarrow> ErrorCode" where
  "of_server c = \<lparr>ec_category = Cat_Server, ec_code = server_code c\<rparr>"

definition of_fatal :: "FatalErrorCode \<Rightarrow> ErrorCode" where
  "of_fatal c = \<lparr>ec_category = Cat_Fatal, ec_code = fatal_code c\<rparr>"

definition is_success :: "ErrorCode \<Rightarrow> bool" where
  "is_success e = (ec_category e = Cat_Success)"

definition is_retryable :: "ErrorCode \<Rightarrow> bool" where
  "is_retryable e =
     (if ec_category e = Cat_Server then
        if ec_code e \<ge> 100 \<and> ec_code e < 200 then True
        else if ec_code e \<ge> 500 \<and> ec_code e < 600 then True
        else if ec_code e \<ge> 600 \<and> ec_code e < 700 then ec_code e = 601 \<or> ec_code e = 602
        else False
      else False)"

text \<open>\<open>static_cast\<close> from a code to the enumeration.\<close>

definition client_of :: "16 word \<Rightarrow> ClientErrorCode option" where
  "client_of w = find (\<lambda>c. client_code c = w) all_client_codes"

definition server_of :: "16 word \<Rightarrow> ServerErrorCode option" where
  "server_of w = find (\<lambda>c. server_code c = w) all_server_codes"

definition fatal_of :: "16 word \<Rightarrow> FatalErrorCode option" where
  "fatal_of w = find (\<lambda>c. fatal_code c = w) all_fatal_codes"

definition as_client_error :: "ErrorCode \<Rightarrow> ClientErrorCode option" where
  "as_client_error e = (if ec_category e = Cat_Client then client_of (ec_code e) else None)"

definition as_server_error :: "ErrorCode \<Rightarrow> ServerErrorCode option" where
  "as_server_error e = (if ec_category e = Cat_Server then server_of (ec_code e) else None)"

definition as_fatal_error :: "ErrorCode \<Rightarrow> FatalErrorCode option" where
  "as_fatal_error e = (if ec_category e = Cat_Fatal then fatal_of (ec_code e) else None)"

primrec category_name :: "Category \<Rightarrow> string" where
  "category_name Cat_Success = ''success''"
| "category_name Cat_Client = ''client''"
| "category_name Cat_Server = ''server''"
| "category_name Cat_Fatal = ''fatal''"

text \<open>\<open>name\<close> and \<open>description\<close>; no value is the unreachable end of the switch.\<close>

definition error_name :: "ErrorCode \<Rightarrow> string option" where
  "error_name e =
     (case ec_category e of
        Cat_Success \<Rightarrow> Some ''Success''
      | Cat_Client \<Rightarrow> map_option client_to_string (client_of (ec_code e))
      | Cat_Server \<Rightarrow> map_option server_to_string (server_of (ec_code e))
      | Cat_Fatal \<Rightarrow> map_option fatal_to_string (fatal_of (ec_code e)))"

definition error_description :: "ErrorCode \<Rightarrow> string option" where
  "error_description e =
     (case ec_category e of
        Cat_Success \<Rightarrow> Some ''Operation completed successfully''
      | Cat_Client \<Rightarrow> map_option client_description (client_of (ec_code e))
      | Cat_Server \<Rightarrow> map_option server_description (server_of (ec_code e))
      | Cat_Fatal \<Rightarrow> map_option fatal_description (fatal_of (ec_code e)))"

section \<open>From SQLSTATE\<close>

definition map_class_08 :: "string \<Rightarrow> ErrorCode" where
  "map_class_08 sqlstate =
     (if sqlstate = ''08000'' then of_server Server_ConnectionError
      else if sqlstate = ''08003'' then of_client Client_NotConnected
      else if sqlstate = ''08006'' then of_server Server_ConnectionLost
      else if sqlstate = ''08P01'' then of_fatal Fatal_ProtocolViolation
      else of_server Server_ConnectionError)"

definition map_class_22 :: "string \<Rightarrow> ErrorCode" where
  "map_class_22 sqlstate =
     (if sqlstate = ''22000'' then of_server Server_DataError
      else if sqlstate = ''22001'' then of_server Server_DataTooLong
      else if sqlstate = ''22003'' then of_server Server_NumericOverflow
      else if sqlstate = ''22007'' then of_server Server_InvalidDatetime
      else if sqlstate = ''22008'' then of_server Server_InvalidDatetime
      else if sqlstate = ''22012'' then of_server Server_DivisionByZero
      else if sqlstate = ''22P02'' then of_server Server_InvalidTextFormat
      else if sqlstate = ''22P03'' then of_server Server_InvalidEncoding
      else if sqlstate = ''22P04'' then of_server Server_InvalidTextFormat
      else of_server Server_DataError)"

definition map_class_23 :: "string \<Rightarrow> ErrorCode" where
  "map_class_23 sqlstate =
     (if sqlstate = ''23000'' then of_server Server_ConstraintViolation
      else if sqlstate = ''23001'' then of_server Server_ConstraintViolation
      else if sqlstate = ''23502'' then of_server Server_NotNullViolation
      else if sqlstate = ''23503'' then of_server Server_ForeignKeyViolation
      else if sqlstate = ''23505'' then of_server Server_UniqueViolation
      else if sqlstate = ''23514'' then of_server Server_CheckViolation
      else if sqlstate = ''23P01'' then of_server Server_ExclusionViolation
      else of_server Server_ConstraintViolation)"

definition map_class_25 :: "string \<Rightarrow> ErrorCode" where
  "map_class_25 sqlstate =
     (if sqlstate = ''25001'' then of_client Client_TransactionActive
      else if sqlstate = ''25P01'' then of_client Client_NoActiveTransaction
      else if sqlstate = ''25P02'' then of_client Client_TransactionActive
      else if sqlstate = ''25P03'' then of_client Client_NoActiveTransaction
      else of_client Client_InvalidState)"

definition map_class_40 :: "string \<Rightarrow> ErrorCode" where
  "map_class_40 sqlstate =
     (if sqlstate = ''40001'' then of_server Server_SerializationFailure
      else if sqlstate = ''40002'' then of_server Server_TransactionAborted
      else if sqlstate = ''40003'' then of_server Server_TransactionAborted
      else if sqlstate = ''40P01'' then of_server Server_DeadlockDetected
      else of_server Server_TransactionRollback)"

definition map_class_42 :: "string \<Rightarrow> ErrorCode" where
  "map_class_42 sqlstate =
     (if sqlstate = ''42501'' then of_server Server_PermissionDenied
      else if sqlstate = ''42601'' then of_client Client_SyntaxError
      else if sqlstate = ''42703'' then of_server Server_ColumnNotFound
      else if sqlstate = ''42704'' then of_server Server_ObjectNotFound
      else if sqlstate = ''42804'' \<or> sqlstate = ''42846'' \<or> sqlstate = ''42P18'' then of_client Client_TypeMismatch
      else if sqlstate = ''42830'' then of_server Server_PermissionDenied
      else if sqlstate = ''42883'' then of_server Server_FunctionNotFound
      else if sqlstate = ''42P01'' then of_server Server_TableNotFound
      else if sqlstate = ''42P02'' then of_client Client_InvalidParameter
      else if sqlstate = ''42P04'' then of_server Server_DatabaseNotFound
      else if sqlstate = ''42P06'' \<or> sqlstate = ''42P15'' then of_server Server_SchemaNotFound
      else of_client Client_SyntaxError)"

definition map_class_53 :: "string \<Rightarrow> ErrorCode" where
  "map_class_53 sqlstate =
     (if sqlstate = ''53100'' then of_server Server_DiskFull
      else if sqlstate = ''53200'' then of_server Server_OutOfMemory
      else if sqlstate = ''53300'' then of_server Server_TooManyConnections
      else if sqlstate = ''53400'' then of_server Server_ConfigurationLimit
      else of_server Server_ResourceError)"

definition map_class_54 :: "string \<Rightarrow> ErrorCode" where
  "map_class_54 sqlstate =
     (if sqlstate = ''54001'' then of_server Server_QueryTooComplex
      else if sqlstate = ''54011'' \<or> sqlstate = ''54023'' then of_server Server_TooManyConnections
      else of_server Server_ConfigurationLimit)"

definition map_class_55 :: "string \<Rightarrow> ErrorCode" where
  "map_class_55 sqlstate =
     (if sqlstate = ''55P02'' \<or> sqlstate = ''55P03'' then of_server Server_LockTimeout
      else of_client Client_InvalidState)"

definition map_class_57 :: "string \<Rightarrow> ErrorCode" where
  "map_class_57 sqlstate =
     (if sqlstate = ''57014'' then of_server Server_StatementTimeout
      else if take 3 sqlstate = ''57P'' then of_server Server_ConnectionError
      else of_server Server_RuntimeError)"

definition map_class_58 :: "string \<Rightarrow> ErrorCode" where
  "map_class_58 sqlstate =
     (if sqlstate = ''58030'' then of_fatal Fatal_CorruptionDetected
      else of_fatal Fatal_InternalError)"

definition map_class_P0 :: "string \<Rightarrow> ErrorCode" where
  "map_class_P0 sqlstate =
     (if sqlstate = ''P0002'' then of_server Server_ObjectNotFound
      else if sqlstate = ''P0003'' then of_server Server_DataError
      else if sqlstate = ''P0004'' then of_client Client_InvalidParameter
      else of_server Server_RuntimeError)"

definition map_class_XX :: "string \<Rightarrow> ErrorCode" where
  "map_class_XX sqlstate =
     (if sqlstate = ''XX001'' \<or> sqlstate = ''XX002'' then of_fatal Fatal_CorruptionDetected
      else of_fatal Fatal_InternalError)"

definition map_sqlstate :: "string \<Rightarrow> ErrorCode option" where
  "map_sqlstate sqlstate =
     (if sqlstate = [] \<or> sqlstate = ''00000'' then None
      else let error_class = take 2 sqlstate in
        if error_class = ''00'' then None
        else if error_class = ''08'' then Some (map_class_08 sqlstate)
        else if error_class = ''0A'' then Some (of_client Client_InvalidOption)
        else if error_class = ''20'' then Some (of_server Server_ObjectNotFound)
        else if error_class = ''21'' then Some (of_server Server_DataError)
        else if error_class = ''22'' then Some (map_class_22 sqlstate)
        else if error_class = ''23'' then Some (map_class_23 sqlstate)
        else if error_class = ''24'' then Some (of_client Client_InvalidState)
        else if error_class = ''25'' then Some (map_class_25 sqlstate)
        else if error_class = ''26'' then Some (of_client Client_InvalidArgument)
        else if error_class = ''28'' then Some (of_client Client_AuthenticationError)
        else if error_class = ''2B'' then Some (of_server Server_ConstraintViolation)
        else if error_class = ''2D'' then Some (of_server Server_TransactionError)
        else if error_class = ''2F'' then Some (of_server Server_RuntimeError)
        else if error_class = ''34'' then Some (of_client Client_InvalidArgument)
        else if error_class = ''38'' then Some (of_server Server_RuntimeError)
        else if error_class = ''39'' then Some (of_server Server_RuntimeError)
        else if error_class = ''3B'' then Some (of_server Server_TransactionError)
        else if error_class = ''3D'' then Some (of_server Server_DatabaseNotFound)
        else if error_class = ''3F'' then Some (of_server Server_SchemaNotFound)
        else if error_class = ''40'' then Some (map_class_40 sqlstate)
        else if error_class = ''42'' then Some (map_class_42 sqlstate)
        else if error_class = ''44'' then Some (of_server Server_CheckViolation)
        else if error_class = ''53'' then Some (map_class_53 sqlstate)
        else if error_class = ''54'' then Some (map_class_54 sqlstate)
        else if error_class = ''55'' then Some (map_class_55 sqlstate)
        else if error_class = ''57'' then Some (map_class_57 sqlstate)
        else if error_class = ''58'' then Some (map_class_58 sqlstate)
        else if error_class = ''F0'' then Some (of_client Client_ConfigurationError)
        else if error_class = ''HV'' then Some (of_server Server_RuntimeError)
        else if error_class = ''P0'' then Some (map_class_P0 sqlstate)
        else if error_class = ''XX'' then Some (map_class_XX sqlstate)
        else Some (of_fatal Fatal_UnexpectedState))"

section \<open>From libpq\<close>

datatype ExecStatusType =
    PGRES_EMPTY_QUERY | PGRES_COMMAND_OK | PGRES_TUPLES_OK | PGRES_COPY_OUT | PGRES_COPY_IN | PGRES_BAD_RESPONSE
  | PGRES_NONFATAL_ERROR | PGRES_FATAL_ERROR | PGRES_COPY_BOTH | PGRES_SINGLE_TUPLE | PGRES_PIPELINE_SYNC
  | PGRES_PIPELINE_ABORTED | PGRES_TUPLES_CHUNK

primrec map_exec_status :: "ExecStatusType \<Rightarrow> ErrorCode option" where
  "map_exec_status PGRES_EMPTY_QUERY = Some (of_client Client_InvalidArgument)"
| "map_exec_status PGRES_COMMAND_OK = None"
| "map_exec_status PGRES_TUPLES_OK = None"
| "map_exec_status PGRES_COPY_OUT = None"
| "map_exec_status PGRES_COPY_IN = None"
| "map_exec_status PGRES_COPY_BOTH = None"
| "map_exec_status PGRES_SINGLE_TUPLE = None"
| "map_exec_status PGRES_PIPELINE_SYNC = None"
| "map_exec_status PGRES_TUPLES_CHUNK = None"
| "map_exec_status PGRES_PIPELINE_ABORTED = Some (of_server Server_TransactionAborted)"
| "map_exec_status PGRES_BAD_RESPONSE = Some (of_fatal Fatal_ProtocolViolation)"
| "map_exec_status PGRES_NONFATAL_ERROR = Some (of_server Server_RuntimeError)"
| "map_exec_status PGRES_FATAL_ERROR = Some (of_server Server_RuntimeError)"

fun is_success_status :: "ExecStatusType \<Rightarrow> bool" where
  "is_success_status PGRES_COMMAND_OK = True"
| "is_success_status PGRES_TUPLES_OK = True"
| "is_success_status PGRES_COPY_OUT = True"
| "is_success_status PGRES_COPY_IN = True"
| "is_success_status PGRES_COPY_BOTH = True"
| "is_success_status PGRES_SINGLE_TUPLE = True"
| "is_success_status PGRES_PIPELINE_SYNC = True"
| "is_success_status _ = False"

record PGresult =
  PQresultStatus :: ExecStatusType
  diag_sqlstate :: "string option"
  PQresultErrorMessage :: "string option"
  diag_detail :: "string option"
  diag_hint :: "string option"
  diag_context :: "string option"
  diag_position :: "string option"

record ErrorContext =
  err_code :: ErrorCode
  err_sqlstate :: string
  err_message :: string
  err_detail :: string
  err_hint :: string
  err_context :: string
  err_position :: "int option"

definition error_context :: "ErrorCode \<Rightarrow> ErrorContext" where
  "error_context ec = \<lparr>err_code = ec, err_sqlstate = [], err_message = [], err_detail = [], err_hint = [],
     err_context = [], err_position = None\<rparr>"

text \<open>\<open>std::from_chars\<close> for an \<open>int\<close>: an optional minus sign and the longest run of digits, if the number fits.\<close>

definition chars_to_int :: "string \<Rightarrow> int option" where
  "chars_to_int s =
     (let neg = (s \<noteq> [] \<and> hd s = CHR ''-'');
          ds = takeWhile (\<lambda>c. (48 :: int) \<le> of_char c \<and> of_char c \<le> (57 :: int)) (if neg then tl s else s);
          n = foldl (\<lambda>n c. n * 10 + (of_char c - 48)) 0 ds;
          v = (if neg then - n else n)
      in if ds = [] \<or> v < - (2 ^ 31) \<or> v > 2 ^ 31 - 1 then None else Some v)"

definition extract_error :: "PGresult option \<Rightarrow> ErrorContext option" where
  "extract_error res =
     (case res of
        None \<Rightarrow> Some (error_context (of_fatal Fatal_UnexpectedState))
      | Some r \<Rightarrow>
          if is_success_status (PQresultStatus r) then None
          else
            let ctx = error_context success_code;
                coded = (case diag_sqlstate r of
                    Some sqlstate \<Rightarrow>
                      map_option (\<lambda>c. ctx\<lparr>err_sqlstate := sqlstate, err_code := c\<rparr>) (map_sqlstate sqlstate)
                  | None \<Rightarrow> map_option (\<lambda>c. ctx\<lparr>err_code := c\<rparr>) (map_exec_status (PQresultStatus r)))
            in (case coded of
                  None \<Rightarrow> None
                | Some ctx \<Rightarrow>
                    let ctx = (case PQresultErrorMessage r of None \<Rightarrow> ctx | Some msg \<Rightarrow> ctx\<lparr>err_message := msg\<rparr>);
                        ctx = (case diag_detail r of None \<Rightarrow> ctx | Some d \<Rightarrow> ctx\<lparr>err_detail := d\<rparr>);
                        ctx = (case diag_hint r of None \<Rightarrow> ctx | Some h \<Rightarrow> ctx\<lparr>err_hint := h\<rparr>);
                        ctx = (case diag_context r of None \<Rightarrow> ctx | Some c \<Rightarrow> ctx\<lparr>err_context := c\<rparr>);
                        ctx = (case diag_position r of
                            None \<Rightarrow> ctx
                          | Some pos \<Rightarrow> (case chars_to_int pos of None \<Rightarrow> ctx | Some n \<Rightarrow> ctx\<lparr>err_position := Some n\<rparr>))
                    in Some ctx))"

definition extract_error_code :: "PGresult option \<Rightarrow> ErrorCode option" where
  "extract_error_code res =
     (case res of
        None \<Rightarrow> Some (of_fatal Fatal_UnexpectedState)
      | Some r \<Rightarrow>
          if is_success_status (PQresultStatus r) then None
          else (case diag_sqlstate r of
              Some sqlstate \<Rightarrow> map_sqlstate sqlstate
            | None \<Rightarrow> map_exec_status (PQresultStatus r)))"

datatype ConnStatusType = CONNECTION_OK | CONNECTION_BAD | CONNECTION_OTHER

definition check_connection :: "ConnStatusType option \<Rightarrow> ErrorCode" where
  "check_connection conn =
     (case conn of
        None \<Rightarrow> of_client Client_NotConnected
      | Some CONNECTION_OK \<Rightarrow> success_code
      | Some CONNECTION_BAD \<Rightarrow> of_server Server_ConnectionLost
      | Some CONNECTION_OTHER \<Rightarrow> of_client Client_InvalidState)"

definition extract_connection_error :: "(ConnStatusType \<times> string option) option \<Rightarrow> ErrorContext" where
  "extract_connection_error conn =
     (case conn of
        None \<Rightarrow> error_context (of_client Client_NotConnected)
      | Some (status, msg) \<Rightarrow>
          let ctx = error_context
                (if status = CONNECTION_BAD then of_server Server_ConnectionLost else of_server Server_RuntimeError)
          in (case msg of
                Some m \<Rightarrow> if m \<noteq> [] then ctx\<lparr>err_message := m\<rparr> else ctx\<lparr>err_message := ''Unknown connection error''\<rparr>
              | None \<Rightarrow> ctx\<lparr>err_message := ''Unknown connection error''\<rparr>))"

definition format_context :: "ErrorContext \<Rightarrow> string option" where
  "format_context ctx =
     (if is_success (err_code ctx) then Some ''Success''
      else case error_name (err_code ctx) of
        None \<Rightarrow> None
      | Some n \<Rightarrow>
          Some (''['' @ n @ ''] ''
            @ (if err_sqlstate ctx \<noteq> [] then ''SQLSTATE '' @ err_sqlstate ctx @ '': '' else [])
            @ err_message ctx
            @ (if err_detail ctx \<noteq> [] then CHR 0x0A # ''Detail: '' @ err_detail ctx else [])
            @ (if err_hint ctx \<noteq> [] then CHR 0x0A # ''Hint: '' @ err_hint ctx else [])
            @ (if err_context ctx \<noteq> [] then CHR 0x0A # ''Context: '' @ err_context ctx else [])
            @ (case err_position ctx of
                 None \<Rightarrow> []
               | Some p \<Rightarrow> CHR 0x0A # ''Position: '' @ (if p < 0 then CHR ''-'' # decimal (nat (- p)) else decimal (nat p)))))"

section \<open>The codes are faithful\<close>

lemma client_of_code [simp]: "client_of (client_code c) = Some c"
  by (cases c) (simp_all add: client_of_def all_client_codes_def)

lemma server_of_code [simp]: "server_of (server_code c) = Some c"
  by (cases c) (simp_all add: server_of_def all_server_codes_def)

lemma fatal_of_code [simp]: "fatal_of (fatal_code c) = Some c"
  by (cases c) (simp_all add: fatal_of_def all_fatal_codes_def)

lemmas error_code_defs = of_client_def of_server_def of_fatal_def success_code_def is_success_def
  as_client_error_def as_server_error_def as_fatal_error_def

lemma of_code_error [simp]:
  "\<not> is_success (of_client c)" "\<not> is_success (of_server d)" "\<not> is_success (of_fatal f)" "is_success success_code"
  by (simp_all add: error_code_defs)

lemma retryable_client [simp]: "\<not> is_retryable (of_client c)" "\<not> is_retryable (of_fatal f)"
  by (simp_all add: is_retryable_def of_client_def of_fatal_def)

lemma retryable_server:
  "is_retryable (of_server c) \<longleftrightarrow>
     c \<in> {Server_RuntimeError, Server_ConnectionError, Server_ConnectionLost, Server_ConnectionTimeout,
          Server_ConnectionRefused, Server_DeadlockDetected, Server_LockTimeout, Server_StatementTimeout,
          Server_SerializationFailure, Server_ResourceError, Server_OutOfMemory, Server_DiskFull,
          Server_TooManyConnections, Server_ConfigurationLimit, Server_QueryTooComplex,
          Server_TransactionRollback, Server_TransactionAborted}"
  by (cases c) (simp_all add: is_retryable_def of_server_def)

section \<open>SQLSTATE classification\<close>

lemmas map_class_defs = map_class_08_def map_class_22_def map_class_23_def map_class_25_def map_class_40_def
  map_class_42_def map_class_53_def map_class_54_def map_class_55_def map_class_57_def map_class_58_def
  map_class_P0_def map_class_XX_def

lemma map_class_error [simp]:
  "\<not> is_success (map_class_08 s)" "\<not> is_success (map_class_22 s)" "\<not> is_success (map_class_23 s)"
  "\<not> is_success (map_class_25 s)" "\<not> is_success (map_class_40 s)" "\<not> is_success (map_class_42 s)"
  "\<not> is_success (map_class_53 s)" "\<not> is_success (map_class_54 s)" "\<not> is_success (map_class_55 s)"
  "\<not> is_success (map_class_57 s)" "\<not> is_success (map_class_58 s)" "\<not> is_success (map_class_P0 s)"
  "\<not> is_success (map_class_XX s)"
  by (simp_all add: map_class_defs)

lemma map_class_retryable [simp]:
  "is_retryable (map_class_08 s) \<longleftrightarrow> s \<noteq> ''08003'' \<and> s \<noteq> ''08P01''"
  "\<not> is_retryable (map_class_22 s)" "\<not> is_retryable (map_class_23 s)" "\<not> is_retryable (map_class_25 s)"
  "is_retryable (map_class_40 s)" "\<not> is_retryable (map_class_42 s)" "is_retryable (map_class_53 s)"
  "is_retryable (map_class_54 s)" "is_retryable (map_class_55 s) \<longleftrightarrow> s = ''55P02'' \<or> s = ''55P03''"
  "is_retryable (map_class_57 s)" "\<not> is_retryable (map_class_58 s)"
  "is_retryable (map_class_P0 s) \<longleftrightarrow> s \<noteq> ''P0002'' \<and> s \<noteq> ''P0003'' \<and> s \<noteq> ''P0004''" "\<not> is_retryable (map_class_XX s)"
  by (simp_all add: map_class_defs retryable_server)

lemma map_sqlstate_None: "map_sqlstate s = None \<longleftrightarrow> s = [] \<or> take 2 s = ''00''"
  by (auto simp: map_sqlstate_def Let_def)

lemma map_sqlstate_error: "case_option True (\<lambda>c. \<not> is_success c) (map_sqlstate s)"
  unfolding map_sqlstate_def Let_def if_distrib [of "case_option True (\<lambda>c. \<not> is_success c)"] option.case by simp

lemma map_exec_status_error: "case_option True (\<lambda>c. \<not> is_success c) (map_exec_status st)"
  by (cases st) simp_all

lemma success_statuses:
  "is_success_status st \<longleftrightarrow> st \<in> {PGRES_COMMAND_OK, PGRES_TUPLES_OK, PGRES_COPY_OUT, PGRES_COPY_IN, PGRES_COPY_BOTH,
     PGRES_SINGLE_TUPLE, PGRES_PIPELINE_SYNC}"
  by (cases st) simp_all

lemma map_exec_status_None: "map_exec_status st = None \<longleftrightarrow> is_success_status st \<or> st = PGRES_TUPLES_CHUNK"
  by (cases st) simp_all

text \<open>C35: which results of libpq count as successful, and what the others give. The full and the light-weight
  extraction give the same code. No error is reported exactly for a finished command, rows, a copy in either or both
  directions, a single row and the end of a pipeline; for any other status whose SQLSTATE is of class 00 or empty; and
  for a chunk of rows without SQLSTATE. A missing result is an error, and no extracted code counts as success.\<close>

theorem extract_error_sound:
  "map_option err_code (extract_error res) = extract_error_code res
   \<and> (extract_error_code res = None \<longleftrightarrow>
        (\<exists>r. res = Some r \<and> (PQresultStatus r \<in> {PGRES_COMMAND_OK, PGRES_TUPLES_OK, PGRES_COPY_OUT, PGRES_COPY_IN,
             PGRES_COPY_BOTH, PGRES_SINGLE_TUPLE, PGRES_PIPELINE_SYNC}
           \<or> (case diag_sqlstate r of
                Some s \<Rightarrow> s = [] \<or> take 2 s = ''00''
              | None \<Rightarrow> PQresultStatus r = PGRES_TUPLES_CHUNK))))
   \<and> case_option True (\<lambda>c. \<not> is_success c) (extract_error_code res)"
proof (intro conjI)
  show "map_option err_code (extract_error res) = extract_error_code res"
    by (auto simp: extract_error_def extract_error_code_def error_context_def Let_def option.map_comp comp_def
        split: option.splits)
  show "case_option True (\<lambda>c. \<not> is_success c) (extract_error_code res)"
  proof (cases res)
    case (Some r)
    then show ?thesis
      using map_sqlstate_error map_exec_status_error by (cases "diag_sqlstate r") (simp_all add: extract_error_code_def)
  qed (simp add: extract_error_code_def)
qed (auto simp: extract_error_code_def map_sqlstate_None map_exec_status_None success_statuses split: option.splits)

text \<open>C36: which server errors are worth retrying. Of all SQLSTATE values exactly these map to a retryable code: classes
  2F, 38, 39, 40, 53, 54, 57 and HV, class 08 without 08003 and 08P01, class P0 without P0002 to P0004, and 55P02 and
  55P03.\<close>

theorem sqlstate_retryable:
  "case_option False is_retryable (map_sqlstate s) \<longleftrightarrow>
     take 2 s \<in> {''2F'', ''38'', ''39'', ''40'', ''53'', ''54'', ''57'', ''HV''}
     \<or> take 2 s = ''08'' \<and> s \<notin> {''08003'', ''08P01''}
     \<or> take 2 s = ''P0'' \<and> s \<notin> {''P0002'', ''P0003'', ''P0004''}
     \<or> s \<in> {''55P02'', ''55P03''}"
proof -
  have empty: "s \<noteq> []" "s \<noteq> ''00000''" if "take 2 s = [c, d]" "c \<noteq> CHR ''0'' \<or> d \<noteq> CHR ''0''" for c d using that by auto
  have known: ?thesis if "take 2 s \<in> {''2F'', ''38'', ''39'', ''40'', ''53'', ''54'', ''57'', ''HV'', ''08'', ''P0'', ''55''}"
    using that empty by (elim insertE emptyE) (simp_all add: map_sqlstate_def retryable_server, auto)
  have other: ?thesis if "take 2 s \<notin> {''2F'', ''38'', ''39'', ''40'', ''53'', ''54'', ''57'', ''HV'', ''08'', ''P0'', ''55''}"
  proof -
    from that have "s \<noteq> ''55P02''" "s \<noteq> ''55P03''" by auto
    with that show ?thesis
      unfolding map_sqlstate_def Let_def if_distrib [of "case_option False is_retryable"] option.case
      by (simp add: retryable_server)
  qed
  from known other show ?thesis by blast
qed

end
