(* ===== verification/Pg_Transaction.thy ===== *)
theory Pg_Transaction
  imports Pg_Errors Sql_Dialect
begin

text \<open>
  Connections, their holders, transactions and savepoints of the \<open>postgresql-elephant\<close> provider:
  \<open>connection_holder/connection.hpp\<close>, \<open>connection_holder/connection_holder.hpp\<close>, \<open>session/pool/queued_holder.cpp\<close>,
  \<open>transaction/\<close> and the part of \<open>sync_executor\<close> that runs a statement without parameters.

  libpq is a parameter: the record of the functions the code calls on a connection, over a type of connections that
  stands for both ends of the wire. What the theorems need of PostgreSQL is stated as hypotheses about it. One borrowed
  holder is followed from the constructor of a transaction to its destructor; the pool behind it is the subject of
  the theory of the pool.
\<close>

record 'c libpq =
  PQconnectdb :: "string \<Rightarrow> 'c option"
  PQstatus :: "'c \<Rightarrow> ConnStatusType"
  PQerrorMessage :: "'c \<Rightarrow> string option"
  PQexec :: "string \<Rightarrow> 'c \<Rightarrow> PGresult option \<times> 'c"

section \<open>Connection\<close>

datatype ConnectionState = DISCONNECTED | READY | BROKEN

record 'c Connection =
  conn_handle :: "'c option"
  conn_state :: ConnectionState

definition no_connection :: "'c Connection" where
  "no_connection = \<lparr>conn_handle = None, conn_state = DISCONNECTED\<rparr>"

definition open_connection :: "'c libpq \<Rightarrow> string \<Rightarrow> 'c Connection" where
  "open_connection pq conninfo =
     (case PQconnectdb pq conninfo of
        None \<Rightarrow> no_connection
      | Some raw \<Rightarrow>
          if PQstatus pq raw \<noteq> CONNECTION_OK then no_connection
          else \<lparr>conn_handle = Some raw, conn_state = READY\<rparr>)"

definition verify :: "'c libpq \<Rightarrow> 'c Connection \<Rightarrow> bool \<times> 'c Connection" where
  "verify pq c =
     (if conn_state c \<noteq> READY then (False, c)
      else case conn_handle c of
        None \<Rightarrow> (False, c\<lparr>conn_state := BROKEN\<rparr>)
      | Some raw \<Rightarrow>
          if PQstatus pq raw \<noteq> CONNECTION_OK then (False, c\<lparr>conn_state := BROKEN\<rparr>)
          else (True, c))"

definition run_cleanup :: "'c libpq \<Rightarrow> string option \<Rightarrow> 'c Connection \<Rightarrow> bool \<times> 'c Connection" where
  "run_cleanup pq sql c =
     (case verify pq c of
        (False, c) \<Rightarrow> (False, c)
      | (True, c) \<Rightarrow>
          (case sql of
             None \<Rightarrow> (True, c)
           | Some [] \<Rightarrow> (True, c)
           | Some text \<Rightarrow>
               (case conn_handle c of
                  None \<Rightarrow> (False, c)
                | Some raw \<Rightarrow>
                    (let (res, raw) = PQexec pq text raw;
                         ok = (case res of None \<Rightarrow> False | Some r \<Rightarrow> PQresultStatus r = PGRES_COMMAND_OK);
                         c = c\<lparr>conn_handle := Some raw\<rparr>
                     in if ok then (True, c) else (False, c\<lparr>conn_state := BROKEN\<rparr>)))))"

definition close_connection :: "'c Connection \<Rightarrow> 'c Connection" where
  "close_connection c = no_connection"

section \<open>ConnectionHolder\<close>

datatype CleanupQuery = NoCleanup | ResetAll | DeallocateAll | DiscardTemp | DiscardAll

primrec to_sql :: "CleanupQuery \<Rightarrow> string option" where
  "to_sql NoCleanup = None"
| "to_sql ResetAll = Some ''RESET ALL''"
| "to_sql DeallocateAll = Some ''DEALLOCATE ALL''"
| "to_sql DiscardTemp = Some ''DISCARD TEMP''"
| "to_sql DiscardAll = Some ''DISCARD ALL''"

record 'c ConnectionHolder =
  connection :: "'c Connection"
  cleanup_sql :: "string option"

definition set_cleanup :: "CleanupQuery \<Rightarrow> 'c ConnectionHolder \<Rightarrow> 'c ConnectionHolder" where
  "set_cleanup q h = h\<lparr>cleanup_sql := to_sql q\<rparr>"

definition run_cleanup_sql :: "'c libpq \<Rightarrow> string \<Rightarrow> 'c ConnectionHolder \<Rightarrow> bool \<times> 'c ConnectionHolder" where
  "run_cleanup_sql pq fallback_sql h =
     (let sql = (case cleanup_sql h of Some s \<Rightarrow> Some s | None \<Rightarrow> Some fallback_sql);
          (ok, c) = run_cleanup pq sql (connection h)
      in (ok, h\<lparr>cleanup_sql := None, connection := c\<rparr>))"

text \<open>\<open>QueuedHolder::reset\<close>: the holder goes back to the pool, or is dropped.\<close>

datatype 'c slot = Borrowed "'c ConnectionHolder" | Returned "'c ConnectionHolder" | Dropped "'c ConnectionHolder"

definition reset_holder :: "'c libpq \<Rightarrow> string \<Rightarrow> 'c ConnectionHolder \<Rightarrow> 'c slot" where
  "reset_holder pq fallback_sql h =
     (case run_cleanup_sql pq fallback_sql h of (True, h) \<Rightarrow> Returned h | (False, h) \<Rightarrow> Dropped h)"

section \<open>Running a statement\<close>

definition execute_impl :: "'c libpq \<Rightarrow> string \<Rightarrow> 'c option \<Rightarrow> ErrorContext option \<times> 'c option" where
  "execute_impl pq query conn =
     (if \<not> is_success (check_connection (map_option (PQstatus pq) conn)) then
        (Some (error_context (check_connection (map_option (PQstatus pq) conn))), conn)
      else case conn of
        None \<Rightarrow> (None, conn)
      | Some raw \<Rightarrow>
          (case PQexec pq query raw of
             (None, raw) \<Rightarrow> (Some (extract_connection_error (Some (PQstatus pq raw, PQerrorMessage pq raw))), Some raw)
           | (Some r, raw) \<Rightarrow> (extract_error (Some r), Some raw)))"

text \<open>The same on the connection of a holder.\<close>

definition execute_control :: "'c libpq \<Rightarrow> string \<Rightarrow> 'c ConnectionHolder \<Rightarrow> ErrorContext option \<times> 'c ConnectionHolder" where
  "execute_control pq query h =
     (let (e, raw) = execute_impl pq query (conn_handle (connection h))
      in (e, h\<lparr>connection := (connection h)\<lparr>conn_handle := raw\<rparr>\<rparr>))"

section \<open>Transaction\<close>

datatype IsolationLevel = READ_COMMITTED | REPEATABLE_READ | SERIALIZABLE

datatype AccessMode = READ_WRITE | READ_ONLY

primrec isolation_to_string :: "IsolationLevel \<Rightarrow> string" where
  "isolation_to_string READ_COMMITTED = ''READ COMMITTED''"
| "isolation_to_string REPEATABLE_READ = ''REPEATABLE READ''"
| "isolation_to_string SERIALIZABLE = ''SERIALIZABLE''"

primrec access_to_string :: "AccessMode \<Rightarrow> string" where
  "access_to_string READ_WRITE = ''READ WRITE''"
| "access_to_string READ_ONLY = ''READ ONLY''"

record TransactionOptions =
  isolation :: IsolationLevel
  access :: AccessMode
  deferrable :: bool

definition to_begin_sql :: "TransactionOptions \<Rightarrow> string option" where
  "to_begin_sql opts =
     (if deferrable opts \<and> (isolation opts \<noteq> SERIALIZABLE \<or> access opts \<noteq> READ_ONLY) then None
      else Some (''BEGIN'' @ '' ISOLATION LEVEL '' @ isolation_to_string (isolation opts) @ '' ''
        @ access_to_string (access opts) @ (if deferrable opts then '' DEFERRABLE'' else [])))"

datatype TransactionStatus = IDLE | ACTIVE | COMMITTED | ROLLED_BACK | FAILED

text \<open>The holder is what the weak pointer of the transaction leads to, if anything.\<close>

record 'c Transaction =
  tx_holder :: "'c ConnectionHolder option"
  tx_options :: TransactionOptions
  tx_status :: TransactionStatus

datatype tx_result = Done | Failure ErrorContext | Throws

definition new_transaction :: "'c ConnectionHolder option \<Rightarrow> TransactionOptions \<Rightarrow> 'c Transaction" where
  "new_transaction holder opts = \<lparr>tx_holder = holder, tx_options = opts, tx_status = IDLE\<rparr>"

definition invalid_state :: tx_result where
  "invalid_state = Failure (error_context (of_client Client_InvalidState))"

definition tx_execute :: "'c libpq \<Rightarrow> string \<Rightarrow> 'c Transaction \<Rightarrow> ErrorContext option \<times> 'c Transaction" where
  "tx_execute pq query tx =
     (case tx_holder tx of
        None \<Rightarrow> (fst (execute_impl pq query None), tx)
      | Some h \<Rightarrow> (let (e, h) = execute_control pq query h in (e, tx\<lparr>tx_holder := Some h\<rparr>)))"

definition control :: "'c libpq \<Rightarrow> string \<Rightarrow> TransactionStatus \<Rightarrow> 'c Transaction \<Rightarrow> tx_result \<times> 'c Transaction" where
  "control pq query next tx =
     (case tx_execute pq query tx of
        (None, tx) \<Rightarrow> (Done, tx\<lparr>tx_status := next\<rparr>)
      | (Some e, tx) \<Rightarrow> (Failure e, tx\<lparr>tx_status := FAILED\<rparr>))"

definition tx_begin :: "'c libpq \<Rightarrow> 'c Transaction \<Rightarrow> tx_result \<times> 'c Transaction" where
  "tx_begin pq tx =
     (if tx_status tx \<noteq> IDLE then (invalid_state, tx)
      else case to_begin_sql (tx_options tx) of
        None \<Rightarrow> (Throws, tx)
      | Some query \<Rightarrow> control pq query ACTIVE tx)"

definition tx_commit :: "'c libpq \<Rightarrow> 'c Transaction \<Rightarrow> tx_result \<times> 'c Transaction" where
  "tx_commit pq tx =
     (if tx_status tx \<noteq> ACTIVE then (invalid_state, tx) else control pq ''COMMIT'' COMMITTED tx)"

definition tx_rollback :: "'c libpq \<Rightarrow> 'c Transaction \<Rightarrow> tx_result \<times> 'c Transaction" where
  "tx_rollback pq tx =
     (if tx_status tx \<noteq> ACTIVE then (invalid_state, tx) else control pq ''ROLLBACK'' ROLLED_BACK tx)"

text \<open>\<open>with_sync\<close> hands out an executor on the connection of the holder, and keeps no track of it.\<close>

definition tx_with_sync :: "'c Transaction \<Rightarrow> tx_result + unit" where
  "tx_with_sync tx = (if tx_status tx \<noteq> ACTIVE then Inl invalid_state else Inr ())"

definition do_cleanup :: "CleanupQuery \<Rightarrow> 'c Transaction \<Rightarrow> 'c Transaction" where
  "do_cleanup q tx = tx\<lparr>tx_holder := map_option (set_cleanup q) (tx_holder tx)\<rparr>"

text \<open>The destructor; the result is what became of the holder.\<close>

definition safety_rollback :: "'c libpq \<Rightarrow> 'c ConnectionHolder \<Rightarrow> 'c ConnectionHolder" where
  "safety_rollback pq h =
     h\<lparr>connection := (connection h)\<lparr>conn_handle :=
         map_option (\<lambda>raw. snd (PQexec pq ''ROLLBACK'' raw)) (conn_handle (connection h))\<rparr>\<rparr>"

definition tx_destroy :: "'c libpq \<Rightarrow> string \<Rightarrow> 'c Transaction \<Rightarrow> 'c slot option" where
  "tx_destroy pq fallback_sql tx =
     (case tx_holder tx of
        None \<Rightarrow> None
      | Some h \<Rightarrow>
          Some (reset_holder pq fallback_sql (if tx_status tx = ACTIVE then safety_rollback pq h else h)))"

text \<open>Moving out of a transaction; the second component is what is left behind.\<close>

definition tx_move :: "'c Transaction \<Rightarrow> 'c Transaction \<times> 'c Transaction" where
  "tx_move other = (other, other\<lparr>tx_holder := None, tx_status := FAILED\<rparr>)"

definition tx_move_assign ::
  "'c libpq \<Rightarrow> string \<Rightarrow> 'c Transaction \<Rightarrow> 'c Transaction \<Rightarrow> 'c slot option \<times> 'c Transaction \<times> 'c Transaction" where
  "tx_move_assign pq fallback_sql this other =
     (map_option (reset_holder pq fallback_sql) (tx_holder this), tx_move other)"

section \<open>Savepoint\<close>

text \<open>\<open>std::isalpha\<close> and \<open>std::isalnum\<close> are those of the "C" locale.\<close>

definition is_valid_identifier :: "string \<Rightarrow> bool" where
  "is_valid_identifier name =
     (let alpha = (\<lambda>c. in_range CHR ''a'' CHR ''z'' c \<or> in_range CHR ''A'' CHR ''Z'' c);
          alnum = (\<lambda>c. alpha c \<or> in_range CHR ''0'' CHR ''9'' c)
      in if name = [] \<or> length name > 63 then False
         else if \<not> alpha (hd name) \<and> hd name \<noteq> CHR ''_'' then False
         else list_all (\<lambda>c. alnum c \<or> c = CHR ''_'') name)"

record Savepoint =
  sp_name :: string
  sp_active :: bool

definition quoted_name :: "string \<Rightarrow> string" where
  "quoted_name name = CHR 0x22 # name @ [CHR 0x22]"

definition tx_savepoint :: "'c libpq \<Rightarrow> string \<Rightarrow> 'c Transaction \<Rightarrow> (tx_result + Savepoint) \<times> 'c Transaction" where
  "tx_savepoint pq name tx =
     (if tx_status tx \<noteq> ACTIVE then (Inl invalid_state, tx)
      else if \<not> is_valid_identifier name then
        (Inl (Failure ((error_context (of_client Client_InvalidArgument))\<lparr>err_message :=
           ''Invalid savepoint name: '' @ [CHR 0x27] @ name @ [CHR 0x27]\<rparr>)), tx)
      else case tx_execute pq (''SAVEPOINT '' @ quoted_name name) tx of
        (Some e, tx) \<Rightarrow> (Inl (Failure e), tx)
      | (None, tx) \<Rightarrow> (Inr \<lparr>sp_name = name, sp_active = True\<rparr>, tx))"

definition savepoint_rollback :: "'c libpq \<Rightarrow> Savepoint \<Rightarrow> 'c Transaction \<Rightarrow> tx_result \<times> 'c Transaction" where
  "savepoint_rollback pq sp tx =
     (if \<not> sp_active sp then (invalid_state, tx)
      else case tx_execute pq (''ROLLBACK TO SAVEPOINT '' @ quoted_name (sp_name sp)) tx of
        (None, tx) \<Rightarrow> (Done, tx)
      | (Some e, tx) \<Rightarrow> (Failure e, tx))"

definition savepoint_release :: "'c libpq \<Rightarrow> Savepoint \<Rightarrow> 'c Transaction \<Rightarrow> tx_result \<times> Savepoint \<times> 'c Transaction" where
  "savepoint_release pq sp tx =
     (if \<not> sp_active sp then (invalid_state, sp, tx)
      else case tx_execute pq (''RELEASE SAVEPOINT '' @ quoted_name (sp_name sp)) tx of
        (None, tx) \<Rightarrow> (Done, sp\<lparr>sp_active := False\<rparr>, tx)
      | (Some e, tx) \<Rightarrow> (Failure e, sp, tx))"

definition savepoint_destroy :: "'c libpq \<Rightarrow> Savepoint \<Rightarrow> 'c Transaction \<Rightarrow> 'c Transaction" where
  "savepoint_destroy pq sp tx = (if sp_active sp then snd (snd (savepoint_release pq sp tx)) else tx)"

text \<open>\<open>Session::begin_auto_transaction\<close> once it has its holder: a transaction whose \<open>BEGIN\<close> failed is destroyed.\<close>

definition begin_auto_transaction ::
  "'c libpq \<Rightarrow> string \<Rightarrow> 'c ConnectionHolder \<Rightarrow> TransactionOptions \<Rightarrow> (tx_result \<times> 'c slot option) + 'c Transaction" where
  "begin_auto_transaction pq fallback_sql holder opts =
     (case tx_begin pq (new_transaction (Some holder) opts) of
        (Done, tx) \<Rightarrow> Inr tx
      | (r, tx) \<Rightarrow> Inl (r, tx_destroy pq fallback_sql tx))"

section \<open>What a user can do with a transaction\<close>

datatype tx_op =
    Op_begin
  | Op_commit
  | Op_rollback
  | Op_with_sync
  | Op_statement string
  | Op_savepoint string
  | Op_savepoint_rollback nat
  | Op_savepoint_release nat
  | Op_savepoint_destroy nat
  | Op_cleanup CleanupQuery

text \<open>The savepoints made so far, and whether an executor was handed out, are kept with the transaction. An executor
  runs statements on the raw connection: it asks the transaction for nothing, so it still works after the transaction
  was committed, rolled back or failed.\<close>

type_synonym 'c tx_client = "Savepoint list \<times> bool \<times> 'c Transaction"

fun apply_tx_op :: "'c libpq \<Rightarrow> tx_op \<Rightarrow> 'c tx_client \<Rightarrow> 'c tx_client" where
  "apply_tx_op pq Op_begin (sps, ex, tx) = (sps, ex, snd (tx_begin pq tx))"
| "apply_tx_op pq Op_commit (sps, ex, tx) = (sps, ex, snd (tx_commit pq tx))"
| "apply_tx_op pq Op_rollback (sps, ex, tx) = (sps, ex, snd (tx_rollback pq tx))"
| "apply_tx_op pq Op_with_sync (sps, ex, tx) =
     (case tx_with_sync tx of Inl r \<Rightarrow> (sps, ex, tx) | Inr executor \<Rightarrow> (sps, True, tx))"
| "apply_tx_op pq (Op_statement query) (sps, ex, tx) =
     (if ex then (sps, ex, snd (tx_execute pq query tx)) else (sps, ex, tx))"
| "apply_tx_op pq (Op_savepoint name) (sps, ex, tx) =
     (case tx_savepoint pq name tx of
        (Inl r, tx) \<Rightarrow> (sps, ex, tx)
      | (Inr sp, tx) \<Rightarrow> (sps @ [sp], ex, tx))"
| "apply_tx_op pq (Op_savepoint_rollback i) (sps, ex, tx) =
     (if i < length sps then (sps, ex, snd (savepoint_rollback pq (sps ! i) tx)) else (sps, ex, tx))"
| "apply_tx_op pq (Op_savepoint_release i) (sps, ex, tx) =
     (if i < length sps then
        (let (r, sp, tx) = savepoint_release pq (sps ! i) tx in (sps[i := sp], ex, tx))
      else (sps, ex, tx))"
| "apply_tx_op pq (Op_savepoint_destroy i) (sps, ex, tx) =
     (if i < length sps then
        ((take i sps) @ (drop (i + 1) sps), ex, savepoint_destroy pq (sps ! i) tx)
      else (sps, ex, tx))"
| "apply_tx_op pq (Op_cleanup q) (sps, ex, tx) = (sps, ex, do_cleanup q tx)"


section \<open>What is assumed of PostgreSQL\<close>





text \<open>Is a transaction open on the connection of a holder?\<close>

definition open_on :: "('c \<Rightarrow> bool) \<Rightarrow> 'c ConnectionHolder option \<Rightarrow> bool" where
  "open_on in_tx h = (case h of None \<Rightarrow> False
     | Some holder \<Rightarrow> (case conn_handle (connection holder) of None \<Rightarrow> False | Some raw \<Rightarrow> in_tx raw))"

lemma open_on_simps [simp]:
  "\<not> open_on in_tx None"
  "open_on in_tx (Some h) = (\<exists>raw. conn_handle (connection h) = Some raw \<and> in_tx raw)"
  by (auto simp: open_on_def split: option.splits)

section \<open>Statements\<close>

lemma execute_impl_cases:
  assumes "execute_impl pq query conn = (e, conn')"
  obtains "conn' = conn" "e \<noteq> None" "\<And>raw. conn = Some raw \<Longrightarrow> PQstatus pq raw \<noteq> CONNECTION_OK"
  | raw where "conn = Some raw" "conn' = Some (snd (PQexec pq query raw))"
      "e = None \<longleftrightarrow> extract_error (fst (PQexec pq query raw)) = None"
proof (cases conn)
  case None
  then show ?thesis using assms that(1) by (auto simp: execute_impl_def check_connection_def)
next
  case (Some raw)
  show ?thesis
  proof (cases "PQstatus pq raw")
    case CONNECTION_OK
    then show ?thesis
      using assms Some that(2) [of raw]
      by (cases "PQexec pq query raw") (auto simp: execute_impl_def check_connection_def extract_error_def split: option.splits)
  qed (use assms Some that(1) in \<open>auto simp: execute_impl_def check_connection_def\<close>)
qed

text \<open>A statement on the transaction's connection: nothing was sent and it failed, or it was sent.\<close>

lemma tx_execute_cases:
  assumes "tx_execute pq query tx = (e, tx')"
  obtains "tx' = tx" "e \<noteq> None" "\<And>in_tx. (\<And>c. in_tx c \<Longrightarrow> PQstatus pq c = CONNECTION_OK) \<Longrightarrow> \<not> open_on in_tx (tx_holder tx)"
  | h raw where "tx_holder tx = Some h" "conn_handle (connection h) = Some raw"
      "tx' = tx\<lparr>tx_holder := Some (h\<lparr>connection := (connection h)\<lparr>conn_handle := Some (snd (PQexec pq query raw))\<rparr>\<rparr>)\<rparr>"
      "e = None \<longleftrightarrow> extract_error (fst (PQexec pq query raw)) = None"
proof (cases "tx_holder tx")
  case None
  then show ?thesis
    using assms that(1) by (auto simp: tx_execute_def execute_impl_def check_connection_def)
next
  case (Some h)
  obtain e1 conn' where x: "execute_impl pq query (conn_handle (connection h)) = (e1, conn')" by fastforce
  with assms Some have r: "e = e1" "tx' = tx\<lparr>tx_holder := Some (h\<lparr>connection := (connection h)\<lparr>conn_handle := conn'\<rparr>\<rparr>)\<rparr>"
    by (auto simp: tx_execute_def execute_control_def)
  from x show ?thesis
  proof (cases rule: execute_impl_cases)
    case 1
    then have "tx' = tx" using r Some by simp
    then show ?thesis using that(1) 1 r Some by auto
  next
    case (2 raw)
    then show ?thesis using that(2) [of h raw] r Some by simp
  qed
qed

section \<open>The invariant\<close>










section \<open>Giving the connection back\<close>







text \<open>A small server: the connection is the flag that a transaction is open.\<close>

definition ok_result :: PGresult where
  "ok_result = \<lparr>PQresultStatus = PGRES_COMMAND_OK, diag_sqlstate = None, PQresultErrorMessage = None,
     diag_detail = None, diag_hint = None, diag_context = None, diag_position = None\<rparr>"

definition small_server :: "bool libpq" where
  "small_server = \<lparr>PQconnectdb = (\<lambda>_. Some False), PQstatus = (\<lambda>_. CONNECTION_OK), PQerrorMessage = (\<lambda>_. None),
     PQexec = (\<lambda>query c. (Some ok_result,
        if query = ''COMMIT'' \<or> query = ''ROLLBACK'' then False else if take 5 query = ''BEGIN'' then True else c))\<rparr>"


definition borrowed_holder :: "bool ConnectionHolder" where
  "borrowed_holder = \<lparr>connection = open_connection small_server ''host=localhost'', cleanup_sql = None\<rparr>"

text \<open>One client leaves the transaction open; another keeps an executor beyond \<open>commit\<close>.\<close>

definition some_options :: TransactionOptions where
  "some_options = \<lparr>isolation = SERIALIZABLE, access = READ_ONLY, deferrable = True\<rparr>"

definition abandoned :: "bool Transaction" where
  "abandoned = snd (snd (fold (apply_tx_op small_server)
     [Op_begin, Op_with_sync, Op_statement ''INSERT INTO t VALUES (1)'', Op_savepoint ''s1'', Op_savepoint_rollback 0,
      Op_cleanup ResetAll]
     ([], False, new_transaction (Some borrowed_holder) some_options)))"



section \<open>The state machine of a transaction\<close>

text \<open>What each operation makes of the status.\<close>

inductive tx_transition :: "TransactionStatus \<Rightarrow> tx_op \<Rightarrow> TransactionStatus \<Rightarrow> bool" where
  stay: "tx_transition s op s"
| began: "s \<in> {ACTIVE, FAILED} \<Longrightarrow> tx_transition IDLE Op_begin s"
| committed: "s \<in> {COMMITTED, FAILED} \<Longrightarrow> tx_transition ACTIVE Op_commit s"
| rolled_back: "s \<in> {ROLLED_BACK, FAILED} \<Longrightarrow> tx_transition ACTIVE Op_rollback s"

inductive_cases tx_transitionE: "tx_transition s op s'"

lemma tx_execute_status: "tx_execute pq query tx = (e, tx') \<Longrightarrow> tx_status tx' = tx_status tx"
  by (auto elim: tx_execute_cases)

lemma control_status: "tx_status (snd (control pq query next tx)) \<in> {next, FAILED}"
  by (auto simp: control_def split: option.splits prod.splits)

lemma tx_op_transition: "tx_transition (tx_status tx) op (tx_status (snd (snd (apply_tx_op pq op (sps, ex, tx)))))"
proof (cases op)
  case Op_begin
  then show ?thesis
    using control_status [of pq _ ACTIVE tx] by (auto simp: tx_begin_def split: option.splits intro: tx_transition.intros)
next
  case Op_commit
  then show ?thesis using control_status [of pq "''COMMIT''" COMMITTED tx] by (auto simp: tx_commit_def intro: tx_transition.intros)
next
  case Op_rollback
  then show ?thesis using control_status [of pq "''ROLLBACK''" ROLLED_BACK tx] by (auto simp: tx_rollback_def intro: tx_transition.intros)
next
  case (Op_statement query)
  then show ?thesis using tx_execute_status [of pq query tx] by (cases "tx_execute pq query tx") (auto intro: tx_transition.stay)
qed (auto simp: tx_savepoint_def savepoint_rollback_def savepoint_release_def savepoint_destroy_def do_cleanup_def
    intro!: tx_transition.stay dest: tx_execute_status split: option.splits prod.splits sum.splits if_splits)

lemma finished_stays:
  "tx_status tx \<in> {COMMITTED, ROLLED_BACK, FAILED} \<Longrightarrow>
   tx_status (snd (snd (fold (apply_tx_op pq) ops (sps, ex, tx)))) = tx_status tx"
proof (induction ops arbitrary: sps ex tx)
  case (Cons op ops)
  obtain sps' ex' tx' where x: "apply_tx_op pq op (sps, ex, tx) = (sps', ex', tx')" by (metis prod_cases3)
  with tx_op_transition [of tx op pq sps ex] Cons.prems have "tx_status tx' = tx_status tx" by (auto elim: tx_transitionE)
  then show ?case using Cons x by simp
qed simp

section \<open>Move assignment\<close>

text \<open>C38: Assigning over an active transaction puts its connection back into the pool with the transaction still
  open: unlike the destructor, \<open>operator=\<close> sends no \<open>ROLLBACK\<close>. This happens with the pool's default, an empty
  cleanup statement, whenever the connection is alive.\<close>

theorem tx_move_assign_leaks:
  assumes "tx_holder this = Some h" "connection h = \<lparr>conn_handle = Some raw, conn_state = READY\<rparr>" "cleanup_sql h = None"
    and "PQstatus pq raw = CONNECTION_OK" "in_tx raw"
  shows "\<exists>h'. fst (tx_move_assign pq [] this other) = Some (Returned h') \<and> open_on in_tx (Some h')
    \<and> tx_destroy pq [] (this\<lparr>tx_status := ACTIVE\<rparr>) = Some (reset_holder pq [] (safety_rollback pq h))"
  using assms
  by (auto simp: tx_move_assign_def reset_holder_def run_cleanup_sql_def run_cleanup_def verify_def tx_destroy_def)

theorem tx_move_assign_leaks_witness:
  "\<exists>h'. fst (tx_move_assign small_server [] (snd (tx_begin small_server (new_transaction (Some borrowed_holder)
        \<lparr>isolation = READ_COMMITTED, access = READ_WRITE, deferrable = False\<rparr>))) abandoned) = Some (Returned h')
     \<and> open_on id (Some h')"
proof -
  define this where "this = snd (tx_begin small_server (new_transaction (Some borrowed_holder)
        \<lparr>isolation = READ_COMMITTED, access = READ_WRITE, deferrable = False\<rparr>))"
  define h where "h = borrowed_holder\<lparr>connection := \<lparr>conn_handle = Some True, conn_state = READY\<rparr>\<rparr>"
  have t: "tx_holder this = Some h" unfolding this_def h_def by code_simp
  have h: "connection h = \<lparr>conn_handle = Some True, conn_state = READY\<rparr>" "cleanup_sql h = None"
    by (simp_all add: h_def borrowed_holder_def)
  show ?thesis
    using tx_move_assign_leaks [OF t h, of small_server id abandoned] unfolding this_def by (auto simp: small_server_def)
qed

section \<open>Names\<close>

text \<open>A savepoint name that passes the check is quoted_name as the dialect quotes identifiers, so it cannot leave its quotes.\<close>

lemma valid_identifier_chars:
  "is_valid_identifier name \<Longrightarrow> c \<in> set name \<Longrightarrow> c \<noteq> CHR 0x22"
  by (auto simp: is_valid_identifier_def in_range_def Let_def list_all_iff less_eq_char_def split: if_splits)

lemma quoted_is_escaped:
  assumes "is_valid_identifier name"
  shows "pg_quote_identifier query name = query @ quoted_name name"
proof -
  have "concat (map (\<lambda>c. if c = dquote then [c, c] else [c]) cs) = cs" if "dquote \<notin> set cs" for cs
    using that by (induction cs) auto
  then show ?thesis
    using valid_identifier_chars [OF assms] by (auto simp: pg_quote_identifier_def escape_identifier_append quoted_name_def)
qed

end
