(* ===== verification/Pg_Params.thy ===== *)
theory Pg_Params
  imports Sql_Dialect
begin

text \<open>
  Bound parameters and result fields of the \<open>postgresql-elephant\<close> provider: \<open>ParamSink::bind_one\<close>
  (\<open>params/postgres_params.cpp\<close>) writes a \<open>FieldValue\<close> into the parallel arrays that libpq's \<open>PQexecParams\<close> takes, and
  \<open>FieldView\<close> (\<open>result/views/postgres_result_views.{hpp,cpp}\<close>) reads a column back. \<open>beaver::ntoh\<close>
  (\<open>core-beaver/utilities/convert.hpp\<close>) is between them.

  Memory is explicit where the code copies object representations: a word has an image in memory that depends on the
  byte order of the host, which is an argument. The value pointers of the packet are indices into its two deques,
  whose elements never move. Parsing of floating-point text is a parameter.
\<close>

unbundle bit_operations_syntax

type_synonym byte = "8 word"

section \<open>Words in memory\<close>

datatype endian = Little | Big

definition le_bytes :: "'a :: len word \<Rightarrow> byte list" where
  "le_bytes w = map (\<lambda>i. ucast (drop_bit (8 * i) w)) [0..<LENGTH('a) div 8]"

fun of_le_bytes :: "byte list \<Rightarrow> 'a :: len word" where
  "of_le_bytes [] = 0"
| "of_le_bytes (b # bs) = ucast b OR push_bit 8 (of_le_bytes bs)"

text \<open>\<open>memcpy\<close> out of a variable and into one.\<close>

definition store_word :: "endian \<Rightarrow> 'a :: len word \<Rightarrow> byte list" where
  "store_word e w = (case e of Little \<Rightarrow> le_bytes w | Big \<Rightarrow> rev (le_bytes w))"

definition load :: "endian \<Rightarrow> byte list \<Rightarrow> 'a :: len word" where
  "load e bs = (case e of Little \<Rightarrow> of_le_bytes bs | Big \<Rightarrow> of_le_bytes (rev bs))"

definition byteswap :: "'a :: len word \<Rightarrow> 'a word" where
  "byteswap w = of_le_bytes (rev (le_bytes w))"

definition ntoh :: "endian \<Rightarrow> 'a :: len word \<Rightarrow> 'a word" where
  "ntoh e net = (case e of Big \<Rightarrow> net | Little \<Rightarrow> byteswap net)"

definition hton :: "endian \<Rightarrow> 'a :: len word \<Rightarrow> 'a word" where
  "hton e host = ntoh e host"

section \<open>The parameter packet\<close>

abbreviation oid_bool :: nat where "oid_bool \<equiv> 16"
abbreviation oid_bytea :: nat where "oid_bytea \<equiv> 17"
abbreviation oid_char :: nat where "oid_char \<equiv> 18"
abbreviation oid_int8 :: nat where "oid_int8 \<equiv> 20"
abbreviation oid_int2 :: nat where "oid_int2 \<equiv> 21"
abbreviation oid_int4 :: nat where "oid_int4 \<equiv> 23"
abbreviation oid_text :: nat where "oid_text \<equiv> 25"
abbreviation oid_float4 :: nat where "oid_float4 \<equiv> 700"
abbreviation oid_float8 :: nat where "oid_float8 \<equiv> 701"
abbreviation oid_numeric :: nat where "oid_numeric \<equiv> 1700"

abbreviation fmt_text :: nat where "fmt_text \<equiv> 0"
abbreviation fmt_binary :: nat where "fmt_binary \<equiv> 1"

datatype value_ptr = Null_ptr | Str_ptr nat | Chunk_ptr nat

record Params =
  param_values :: "value_ptr list"
  param_lengths :: "32 word list"
  param_formats :: "nat list"
  param_oids :: "nat list"
  str_data :: "string list"
  binary_chunks :: "byte list list"

definition new_params :: Params where
  "new_params = \<lparr>param_values = [], param_lengths = [], param_formats = [], param_oids = [], str_data = [], binary_chunks = []\<rparr>"

text \<open>The four \<open>push_back\<close> calls every overload ends with.\<close>

definition push_param :: "value_ptr \<Rightarrow> nat \<Rightarrow> nat \<Rightarrow> nat \<Rightarrow> Params \<Rightarrow> Params" where
  "push_param v len fmt oid p = p\<lparr>param_values := param_values p @ [v], param_lengths := param_lengths p @ [of_nat len],
     param_formats := param_formats p @ [fmt], param_oids := param_oids p @ [oid]\<rparr>"

definition bind_chunk :: "byte list \<Rightarrow> nat \<Rightarrow> Params \<Rightarrow> Params" where
  "bind_chunk bytes oid p =
     push_param (Chunk_ptr (length (binary_chunks p))) (length bytes) fmt_binary oid
       (p\<lparr>binary_chunks := binary_chunks p @ [bytes]\<rparr>)"

definition bind_text :: "string \<Rightarrow> nat \<Rightarrow> Params \<Rightarrow> Params" where
  "bind_text s oid p =
     push_param (Str_ptr (length (str_data p))) (length s) fmt_text oid (p\<lparr>str_data := str_data p @ [s]\<rparr>)"

fun bind_one :: "endian \<Rightarrow> FieldValue \<Rightarrow> Params \<Rightarrow> Params" where
  "bind_one e FV_null p = push_param Null_ptr 0 0 0 p"
| "bind_one e (FV_bool b) p = bind_chunk [if b then 1 else 0] oid_bool p"
| "bind_one e (FV_char c) p = bind_chunk [of_char c] oid_char p"
| "bind_one e (FV_int16 i) p = bind_chunk (store_word e (hton e i)) oid_int2 p"
| "bind_one e (FV_int32 i) p = bind_chunk (store_word e (hton e i)) oid_int4 p"
| "bind_one e (FV_int64 i) p = bind_chunk (store_word e (hton e i)) oid_int8 p"
| "bind_one e (FV_uint16 i) p = bind_chunk (store_word e (hton e (ucast i :: 32 word))) oid_int4 p"
| "bind_one e (FV_uint32 i) p = bind_chunk (store_word e (hton e (ucast i :: 64 word))) oid_int8 p"
| "bind_one e (FV_uint64 i) p = bind_text (decimal (unat i)) oid_numeric p"
| "bind_one e (FV_float f) p = bind_chunk (store_word e (hton e f)) oid_float4 p"
| "bind_one e (FV_double d) p = bind_chunk (store_word e (hton e d)) oid_float8 p"
| "bind_one e (FV_string s) p = bind_text s oid_text p"
| "bind_one e (FV_string_view s) p = bind_text s oid_text p"
| "bind_one e (FV_bytes bs) p = bind_chunk bs oid_bytea p"
| "bind_one e (FV_span bs) p = bind_chunk bs oid_bytea p"


section \<open>Reading a field\<close>

datatype decode_error = null_conversion_error | runtime_error string | out_of_bounds

record FieldView =
  fv_bytes :: "byte list"
  fv_null :: bool
  fv_format :: nat
  fv_oid :: nat

definition char_of_byte :: "byte \<Rightarrow> char" where
  "char_of_byte b = char_of (unat b)"

definition as_sv :: "FieldView \<Rightarrow> string" where
  "as_sv v = map char_of_byte (fv_bytes v)"

text \<open>\<open>std::from_chars\<close> for an integer type: the range of the type decides what fits, and a minus sign is read only for
  a signed one.\<close>

definition from_chars :: "int \<Rightarrow> int \<Rightarrow> string \<Rightarrow> int option" where
  "from_chars lo hi s =
     (let neg = (lo < 0 \<and> s \<noteq> [] \<and> hd s = CHR ''-'');
          ds = takeWhile (in_range CHR ''0'' CHR ''9'') (if neg then tl s else s);
          n = int (undecimal ds);
          v = (if neg then - n else n)
      in if ds = [] \<or> v < lo \<or> hi < v then None else Some v)"

definition decode_integer_text :: "int \<Rightarrow> int \<Rightarrow> FieldView \<Rightarrow> (decode_error, int) result" where
  "decode_integer_text lo hi v =
     (case from_chars lo hi (as_sv v) of
        None \<Rightarrow> Inl (runtime_error (''Failed to parse integer from: '' @ as_sv v))
      | Some n \<Rightarrow> Inr n)"

text \<open>\<open>memcpy\<close> of an integer from the value and conversion to host order; reading past the value is an outcome of its
  own.\<close>

definition read_be :: "endian \<Rightarrow> FieldView \<Rightarrow> (decode_error, 'a :: len word) result" where
  "read_be e v =
     (let n = LENGTH('a) div 8
      in if length (fv_bytes v) < n then Inl out_of_bounds else Inr (ntoh e (load e (take n (fv_bytes v)))))"

definition is_binary :: "nat \<Rightarrow> FieldView \<Rightarrow> bool" where
  "is_binary oid v \<longleftrightarrow> fv_format v = fmt_binary \<and> fv_oid v = oid"

definition first_byte :: "FieldView \<Rightarrow> (decode_error, byte) result" where
  "first_byte v = (case fv_bytes v of [] \<Rightarrow> Inl out_of_bounds | b # _ \<Rightarrow> Inr b)"

definition decode_bool :: "FieldView \<Rightarrow> (decode_error, bool) result" where
  "decode_bool v =
     (if is_binary oid_bool v then bind_result (first_byte v) (\<lambda>b. Inr (b \<noteq> 0))
      else Inr (as_sv v \<in> {''t'', ''true'', ''1'', ''TRUE'', ''T''}))"

definition decode_char :: "FieldView \<Rightarrow> (decode_error, char) result" where
  "decode_char v =
     (if is_binary oid_char v then bind_result (first_byte v) (\<lambda>b. Inr (char_of_byte b))
      else case as_sv v of [] \<Rightarrow> Inr (CHR 0x00) | c # _ \<Rightarrow> Inr c)"

definition decode_int16 :: "endian \<Rightarrow> FieldView \<Rightarrow> (decode_error, 16 word) result" where
  "decode_int16 e v =
     (if is_binary oid_int2 v then read_be e v
      else bind_result (decode_integer_text (- (2 ^ 15)) (2 ^ 15 - 1) v) (\<lambda>n. Inr (of_int n)))"

definition decode_int32 :: "endian \<Rightarrow> FieldView \<Rightarrow> (decode_error, 32 word) result" where
  "decode_int32 e v =
     (if is_binary oid_int4 v then read_be e v
      else bind_result (decode_integer_text (- (2 ^ 31)) (2 ^ 31 - 1) v) (\<lambda>n. Inr (of_int n)))"

definition decode_int64 :: "endian \<Rightarrow> FieldView \<Rightarrow> (decode_error, 64 word) result" where
  "decode_int64 e v =
     (if is_binary oid_int8 v then read_be e v
      else bind_result (decode_integer_text (- (2 ^ 63)) (2 ^ 63 - 1) v) (\<lambda>n. Inr (of_int n)))"

definition decode_uint16 :: "endian \<Rightarrow> FieldView \<Rightarrow> (decode_error, 16 word) result" where
  "decode_uint16 e v =
     (if is_binary oid_int4 v then bind_result (read_be e v) (\<lambda>w :: 32 word. Inr (ucast w))
      else if is_binary oid_int2 v then read_be e v
      else bind_result (decode_integer_text 0 (2 ^ 16 - 1) v) (\<lambda>n. Inr (of_int n)))"

definition decode_uint32 :: "endian \<Rightarrow> FieldView \<Rightarrow> (decode_error, 32 word) result" where
  "decode_uint32 e v =
     (if is_binary oid_int8 v then bind_result (read_be e v) (\<lambda>w :: 64 word. Inr (ucast w))
      else if is_binary oid_int4 v then read_be e v
      else bind_result (decode_integer_text 0 (2 ^ 32 - 1) v) (\<lambda>n. Inr (of_int n)))"

definition decode_uint64 :: "endian \<Rightarrow> FieldView \<Rightarrow> (decode_error, 64 word) result" where
  "decode_uint64 e v =
     (if is_binary oid_int8 v then read_be e v
      else bind_result (decode_integer_text 0 (2 ^ 64 - 1) v) (\<lambda>n. Inr (of_int n)))"

text \<open>The fallback names of the special values; the three bit patterns are those of IEEE 754.\<close>

definition decode_special :: "string \<Rightarrow> 'b \<Rightarrow> 'b \<Rightarrow> 'b \<Rightarrow> string \<Rightarrow> (decode_error, 'b) result" where
  "decode_special what nan infinity neg_infinity s =
     (if s \<in> {''NaN'', ''nan''} then Inr nan
      else if s \<in> {''Infinity'', ''inf''} then Inr infinity
      else if s \<in> {''-Infinity'', ''-inf''} then Inr neg_infinity
      else Inl (runtime_error (''Failed to parse '' @ what @ '': '' @ s)))"

record float_parse =
  parse_float :: "string \<Rightarrow> 32 word option"
  parse_double :: "string \<Rightarrow> 64 word option"

definition decode_float :: "float_parse \<Rightarrow> endian \<Rightarrow> FieldView \<Rightarrow> (decode_error, 32 word) result" where
  "decode_float fp e v =
     (if is_binary oid_float4 v then read_be e v
      else case parse_float fp (as_sv v) of
        Some f \<Rightarrow> Inr f
      | None \<Rightarrow> decode_special ''float'' 0x7FC00000 0x7F800000 0xFF800000 (as_sv v))"

definition decode_double :: "float_parse \<Rightarrow> endian \<Rightarrow> FieldView \<Rightarrow> (decode_error, 64 word) result" where
  "decode_double fp e v =
     (if is_binary oid_float8 v then read_be e v
      else case parse_double fp (as_sv v) of
        Some d \<Rightarrow> Inr d
      | None \<Rightarrow> decode_special ''double'' 0x7FF8000000000000 0x7FF0000000000000 0xFFF0000000000000 (as_sv v))"

definition decode_string :: "FieldView \<Rightarrow> string" where
  "decode_string v = as_sv v"

definition decode_binary_span :: "FieldView \<Rightarrow> (decode_error, byte list) result" where
  "decode_binary_span v =
     (if is_binary oid_bytea v then Inr (fv_bytes v)
      else Inl (runtime_error ''Cannot decode text-format bytea as span. Use vector<std::uint8_t> instead.''))"

text \<open>\<open>std::from_chars\<close> in base 16 on at most two characters.\<close>

definition hex_digit :: "char \<Rightarrow> nat option" where
  "hex_digit c =
     (if in_range CHR ''0'' CHR ''9'' c then Some (of_char c - 48)
      else if in_range CHR ''a'' CHR ''f'' c then Some (of_char c - 87)
      else if in_range CHR ''A'' CHR ''F'' c then Some (of_char c - 55)
      else None)"

definition from_chars_hex :: "string \<Rightarrow> byte option" where
  "from_chars_hex s =
     (let ds = takeWhile (\<lambda>c. hex_digit c \<noteq> None) s
      in if ds = [] then None else Some (of_nat (foldl (\<lambda>n c. n * 16 + the (hex_digit c)) 0 ds)))"

text \<open>A pair of digits may be cut by the end of the value; libpq ends every value with a null character.\<close>

function hex_loop :: "string \<Rightarrow> nat \<Rightarrow> byte list \<Rightarrow> (decode_error, byte list) result" where
  "hex_loop sv i result =
     (if i < length sv then
        (case from_chars_hex (take 2 (drop i (sv @ [CHR 0x00]))) of
           None \<Rightarrow> Inl (runtime_error ''Invalid hex in bytea'')
         | Some byte_val \<Rightarrow> hex_loop sv (i + 2) (result @ [byte_val]))
      else Inr result)"
  by pat_completeness auto
termination
  by (relation "measure (\<lambda>(sv, i, result). length sv - i)") auto

declare hex_loop.simps [simp del]

definition decode_hex_bytea :: "FieldView \<Rightarrow> (decode_error, byte list) result" where
  "decode_hex_bytea v =
     (let sv = as_sv v
      in if length sv \<ge> 2 \<and> sv ! 0 = backslash \<and> sv ! 1 = CHR ''x'' then hex_loop (drop 2 sv) 0 []
         else Inl (runtime_error ''Unsupported bytea format''))"

definition decode_binary_vector :: "FieldView \<Rightarrow> (decode_error, byte list) result" where
  "decode_binary_vector v = (if is_binary oid_bytea v then Inr (fv_bytes v) else decode_hex_bytea v)"

text \<open>\<open>as<T>\<close>: the type asked for is given by any value of it.\<close>

fun as_type :: "float_parse \<Rightarrow> endian \<Rightarrow> FieldValue \<Rightarrow> FieldView \<Rightarrow> (decode_error, FieldValue) result" where
  "as_type fp e FV_null v = Inr FV_null"
| "as_type fp e t v =
     (if fv_null v then Inl null_conversion_error
      else case t of
        FV_null \<Rightarrow> Inr FV_null
      | FV_bool _ \<Rightarrow> bind_result (decode_bool v) (\<lambda>x. Inr (FV_bool x))
      | FV_char _ \<Rightarrow> bind_result (decode_char v) (\<lambda>x. Inr (FV_char x))
      | FV_int16 _ \<Rightarrow> bind_result (decode_int16 e v) (\<lambda>x. Inr (FV_int16 x))
      | FV_int32 _ \<Rightarrow> bind_result (decode_int32 e v) (\<lambda>x. Inr (FV_int32 x))
      | FV_int64 _ \<Rightarrow> bind_result (decode_int64 e v) (\<lambda>x. Inr (FV_int64 x))
      | FV_uint16 _ \<Rightarrow> bind_result (decode_uint16 e v) (\<lambda>x. Inr (FV_uint16 x))
      | FV_uint32 _ \<Rightarrow> bind_result (decode_uint32 e v) (\<lambda>x. Inr (FV_uint32 x))
      | FV_uint64 _ \<Rightarrow> bind_result (decode_uint64 e v) (\<lambda>x. Inr (FV_uint64 x))
      | FV_float _ \<Rightarrow> bind_result (decode_float fp e v) (\<lambda>x. Inr (FV_float x))
      | FV_double _ \<Rightarrow> bind_result (decode_double fp e v) (\<lambda>x. Inr (FV_double x))
      | FV_string _ \<Rightarrow> Inr (FV_string (decode_string v))
      | FV_string_view _ \<Rightarrow> Inr (FV_string_view (as_sv v))
      | FV_bytes _ \<Rightarrow> bind_result (decode_binary_vector v) (\<lambda>x. Inr (FV_bytes x))
      | FV_span _ \<Rightarrow> bind_result (decode_binary_span v) (\<lambda>x. Inr (FV_span x)))"


section \<open>The packet as libpq reads it\<close>

text \<open>What a value pointer leads to, and the field that a server sends which returns parameter \<open>i\<close> as it came.\<close>

definition deref :: "Params \<Rightarrow> value_ptr \<Rightarrow> byte list" where
  "deref p v = (case v of Null_ptr \<Rightarrow> [] | Str_ptr i \<Rightarrow> map of_char (str_data p ! i) | Chunk_ptr i \<Rightarrow> binary_chunks p ! i)"

definition sent_field :: "Params \<Rightarrow> nat \<Rightarrow> FieldView" where
  "sent_field p i =
     \<lparr>fv_bytes = take (nat (sint (param_lengths p ! i))) (deref p (param_values p ! i)),
      fv_null = (param_values p ! i = Null_ptr), fv_format = param_formats p ! i, fv_oid = param_oids p ! i\<rparr>"

text \<open>Parameterised queries ask for binary results. The binary form of text is its bytes; a \<open>NUMERIC\<close> is sent in a binary
  format of its own, here the parameter \<open>numeric_send\<close>; everything else was sent in binary already.\<close>

definition binary_field :: "(string \<Rightarrow> byte list) \<Rightarrow> FieldView \<Rightarrow> FieldView" where
  "binary_field numeric_send v =
     (if fv_oid v = oid_numeric then v\<lparr>fv_format := fmt_binary, fv_bytes := numeric_send (as_sv v)\<rparr>
      else v\<lparr>fv_format := fmt_binary\<rparr>)"

text \<open>What the protocol of PostgreSQL prescribes for each value: integers and floating-point patterns as their bytes from
  the most significant on, text as its characters, and the OID of the SQL type the value is bound as. It is written
  over the numbers, without any memory image.\<close>

definition be_bytes :: "nat \<Rightarrow> nat \<Rightarrow> byte list" where
  "be_bytes k n = map (\<lambda>i. of_nat (n div 256 ^ (k - 1 - i))) [0..<k]"



fun ptr_ok :: "Params \<Rightarrow> value_ptr \<Rightarrow> bool" where
  "ptr_ok p Null_ptr = True"
| "ptr_ok p (Str_ptr i) = (i < length (str_data p))"
| "ptr_ok p (Chunk_ptr i) = (i < length (binary_chunks p))"

definition params_ok :: "Params \<Rightarrow> bool" where
  "params_ok p \<longleftrightarrow>
     length (param_lengths p) = length (param_values p) \<and> length (param_formats p) = length (param_values p)
     \<and> length (param_oids p) = length (param_values p) \<and> list_all (ptr_ok p) (param_values p)"

section \<open>Bytes of a word\<close>

lemma length_le_bytes [simp]: "length (le_bytes (w :: 'a :: len word)) = LENGTH('a) div 8"
  by (simp add: le_bytes_def)





lemma length_be_bytes [simp]: "length (be_bytes k n) = k"
  by (simp add: be_bytes_def)




section \<open>Binding keeps what was bound\<close>

lemma params_ok_new [simp]: "params_ok new_params"
  by (simp add: params_ok_def new_params_def)





lemma length_bind_one [simp]: "length (param_values (bind_one e v p)) = Suc (length (param_values p))"
  by (cases v) (simp_all add: bind_chunk_def bind_text_def push_param_def)





section \<open>Text\<close>

lemma char_of_byte_of_char [simp]: "char_of_byte (of_char c) = c"
proof -
  have "unat (of_char c :: byte) = of_char c"
    using nat_of_char_less_256 [of c] unat_of_nat [where 'a = 8, of "of_char c"] by (simp add: take_bit_eq_mod of_nat_of_char)
  then show ?thesis by (simp add: char_of_byte_def)
qed

lemma char_of_byte_comp [simp]: "char_of_byte \<circ> of_char = id"
  by (simp add: fun_eq_iff)

lemma decimal_in_range: "c \<in> set (decimal n) \<Longrightarrow> in_range CHR ''0'' CHR ''9'' c"
  using decimal_char_range [of c n] by (simp add: in_range_def less_eq_char_def)

lemma from_chars_decimal: "int n \<le> hi \<Longrightarrow> from_chars 0 hi (decimal n) = Some (int n)"
  using decimal_in_range by (simp add: from_chars_def takeWhile_eq_all_conv [THEN iffD2])

section \<open>Round trip\<close>

lemma widen_back [simp]:
  "ucast (ucast (i :: 16 word) :: 32 word) = i" "ucast (ucast (j :: 32 word) :: 64 word) = j"
  by (auto intro!: bit_word_eqI simp: bit_ucast_iff dest: bit_imp_le_length)



lemma sint_of_nat_small: "n < 2 ^ 31 \<Longrightarrow> nat (sint (of_nat n :: 32 word)) = n"
  by (simp add: signed_of_nat signed_take_bit_int_eq_self)


lemma sent_text:
  assumes "params_ok p" "length s < 2 ^ 31"
  shows "sent_field (bind_text s oid p) (length (param_values p))
    = \<lparr>fv_bytes = map of_char s, fv_null = False, fv_format = fmt_text, fv_oid = oid\<rparr>"
  using assms sint_of_nat_small [OF assms(2)]
  by (simp add: sent_field_def bind_text_def push_param_def params_ok_def nth_append deref_def)


lemma bind_one_uint64:
  assumes p: "params_ok p"
  shows "sent_field (bind_one e (FV_uint64 w) p) (length (param_values p))
      = \<lparr>fv_bytes = map of_char (decimal (unat w)), fv_null = False, fv_format = fmt_text, fv_oid = oid_numeric\<rparr>"
    and "from_chars 0 (2 ^ 64 - 1) (decimal (unat w)) = Some (uint w)"
proof -
  have w: "unat w < 2 ^ 64" using unsigned_less [of w] by simp
  moreover have "(2 :: nat) ^ 64 < 10 ^ 20" by simp
  ultimately have "length (decimal (unat w)) \<le> 20" using length_decimal [of "unat w" 19] by simp
  then have "length (decimal (unat w)) < 2 ^ 31" by simp
  then show "sent_field (bind_one e (FV_uint64 w) p) (length (param_values p))
      = \<lparr>fv_bytes = map of_char (decimal (unat w)), fv_null = False, fv_format = fmt_text, fv_oid = oid_numeric\<rparr>"
    using sent_text [OF p] by simp
  have "int (unat w) \<le> 2 ^ 64 - 1" using w by (simp only: zle_diff1_eq of_nat_less_iff [where 'a = int, symmetric]) simp
  then show "from_chars 0 (2 ^ 64 - 1) (decimal (unat w)) = Some (uint w)" using from_chars_decimal [of "unat w"] by simp
qed





text \<open>A whole list of values, in the order of the placeholders.\<close>

definition packet :: "endian \<Rightarrow> FieldValue list \<Rightarrow> Params" where
  "packet e vs = fold (bind_one e) vs new_params"







definition no_float_text :: float_parse where
  "no_float_text = \<lparr>parse_float = (\<lambda>_. None), parse_double = (\<lambda>_. None)\<rparr>"



section \<open>What binary results do not decode\<close>

text \<open>C40: Two gaps of the binary decoders. A \<open>uint64_t\<close> is bound as \<open>NUMERIC\<close>, which binary results carry in a form that
  begins with a 16-bit digit count of less than 256, and such a column is never decoded. And an \<open>int4\<close> column read as
  \<open>int64_t\<close> is parsed as text: the value 825373492 is read as 1234.\<close>

theorem binary_decode_gaps:
  assumes "numeric_send (decimal (unat w)) = 0 # rest"
  shows "as_type fp e (FV_uint64 w) (binary_field numeric_send (sent_field (packet e [FV_uint64 w]) 0))
      = Inl (runtime_error (''Failed to parse integer from: '' @ map char_of_byte (0 # rest)))
    \<and> decode_int64 e (sent_field (packet e [FV_int32 825373492]) 0) = Inr 1234"
proof
  have "sent_field (packet e [FV_uint64 w]) 0
      = \<lparr>fv_bytes = map of_char (decimal (unat w)), fv_null = False, fv_format = fmt_text, fv_oid = oid_numeric\<rparr>"
    using bind_one_uint64(1) [OF params_ok_new, of e w] by (simp add: packet_def new_params_def)
  moreover have "from_chars 0 (2 ^ 64 - 1) (map char_of_byte (0 # rest)) = None"
    by (simp add: from_chars_def char_of_byte_def in_range_def less_eq_char_def)
  ultimately show "as_type fp e (FV_uint64 w) (binary_field numeric_send (sent_field (packet e [FV_uint64 w]) 0))
      = Inl (runtime_error (''Failed to parse integer from: '' @ map char_of_byte (0 # rest)))"
    using assms by (simp add: binary_field_def as_sv_def decode_uint64_def is_binary_def decode_integer_text_def)
  show "decode_int64 e (sent_field (packet e [FV_int32 825373492]) 0) = Inr 1234"
    by (cases e) (hypsubst, code_simp)+
qed

text \<open>\<open>NUMERIC\<close> 5 as the server sends it: one digit, weight 0, positive, no decimals.\<close>

theorem binary_decode_gaps_witness:
  "\<exists>msg. as_type no_float_text Big (FV_uint64 5)
     (binary_field (\<lambda>_. [0, 1, 0, 0, 0, 0, 0, 0, 0, 5]) (sent_field (packet Big [FV_uint64 5]) 0)) = Inl (runtime_error msg)"
  using binary_decode_gaps [of "\<lambda>_. [0, 1, 0, 0, 0, 0, 0, 0, 0, 5]" 5] by blast

section \<open>The hexadecimal text format\<close>

lemma hex_digit_hex_chars: "n < 16 \<Longrightarrow> hex_digit (hex_chars ! n) = Some n"
proof -
  have "list_all (\<lambda>n. hex_digit (hex_chars ! n) = Some n) [0..<16]" by code_simp
  then show "n < 16 \<Longrightarrow> hex_digit (hex_chars ! n) = Some n" by (simp add: list_all_iff)
qed

lemma from_chars_hex_byte: "from_chars_hex [hex_chars ! (unat b div 16), hex_chars ! (unat b mod 16)] = Some b"
proof -
  have "unat b < 256" using unsigned_less [of b] by simp
  then have "hex_digit (hex_chars ! (unat b div 16)) = Some (unat b div 16)"
    "hex_digit (hex_chars ! (unat b mod 16)) = Some (unat b mod 16)"
    by (simp_all add: hex_digit_hex_chars less_mult_imp_div_less)
  then show ?thesis by (simp add: from_chars_hex_def)
qed

lemma hex_loop_body: "hex_loop (x @ hex_body data) (length x) out = Inr (out @ data)"
proof (induction data arbitrary: x out)
  case Nil
  show ?case by (subst hex_loop.simps) (simp add: hex_body_def)
next
  case (Cons b data)
  let ?pair = "[hex_chars ! (unat b div 16), hex_chars ! (unat b mod 16)]"
  have "hex_loop (x @ hex_body (b # data)) (length x) out = hex_loop (x @ hex_body (b # data)) (length x + 2) (out @ [b])"
    by (subst hex_loop.simps) (simp add: hex_body_def from_chars_hex_byte)
  also have "\<dots> = Inr (out @ b # data)" using Cons [of "x @ ?pair" "out @ [b]"] by (simp add: hex_body_def)
  finally show ?case .
qed

text \<open>The text form of a byte array, which the dialect also writes, is decoded to the bytes.\<close>

lemma decode_hex_text:
  "decode_hex_bytea (v\<lparr>fv_bytes := map of_char (backslash # CHR ''x'' # hex_body data)\<rparr>) = Inr data"
proof -
  have "as_sv (v\<lparr>fv_bytes := map of_char s\<rparr>) = s" for s by (simp add: as_sv_def)
  then show ?thesis using hex_loop_body [of "[]"] by (simp only: decode_hex_bytea_def) simp
qed

end
