(* ===== verification/Pg_Executor.thy ===== *)
theory Pg_Executor
  imports Pg_Transaction Pg_Params
begin

text \<open>
  The executors and the session of the \<open>postgresql-elephant\<close> provider:
  \<open>capabilities/executors/{sync_executor,async_executor,shared}\<close> and \<open>session/postgres_session.cpp\<close>.

  The synchronous executor is one call to libpq. The asynchronous one sends the query, flushes, waits for input and
  collects the result; its coroutines are state passing over the connection, with libpq and the readiness of the socket
  as parameters, and each \<open>while (true)\<close> loop is a loop that may not end. The session turns what the pool answers into
  an executor, a transaction or an error.
\<close>

record 'c async_libpq =
  lib :: "'c libpq"
  PQexecParams :: "string \<Rightarrow> Params \<Rightarrow> 'c \<Rightarrow> PGresult option \<times> 'c"
  PQsetnonblocking :: "'c \<Rightarrow> bool \<times> 'c"
  PQsocket :: "'c \<Rightarrow> int"
  PQsendQuery :: "string \<Rightarrow> 'c \<Rightarrow> bool \<times> 'c"
  PQsendQueryParams :: "string \<Rightarrow> Params \<Rightarrow> 'c \<Rightarrow> bool \<times> 'c"
  PQflush :: "'c \<Rightarrow> int \<times> 'c"
  PQconsumeInput :: "'c \<Rightarrow> bool \<times> 'c"
  PQisBusy :: "'c \<Rightarrow> bool"
  PQgetResult :: "'c \<Rightarrow> PGresult option \<times> 'c"
  wait_write :: "'c \<Rightarrow> string option \<times> 'c"
  wait_read :: "'c \<Rightarrow> string option \<times> 'c"

section \<open>Results\<close>

text \<open>\<open>ResultBlock\<close> owns the \<open>PGresult\<close> it is made from.\<close>

definition process_result :: "PGresult \<Rightarrow> (ErrorContext, PGresult) result" where
  "process_result r = (case extract_error (Some r) of Some ctx \<Rightarrow> Inl ctx | None \<Rightarrow> Inr r)"

definition connection_error :: "'c async_libpq \<Rightarrow> 'c \<Rightarrow> ErrorContext" where
  "connection_error pq c = extract_connection_error (Some (PQstatus (lib pq) c, PQerrorMessage (lib pq) c))"

section \<open>The synchronous executor\<close>

text \<open>A compiled dynamic query carries the provider it was compiled for.\<close>

definition any_params :: "Params option \<Rightarrow> bool" where
  "any_params params = (case params of None \<Rightarrow> False | Some p \<Rightarrow> param_values p \<noteq> [])"

definition sync_execute_impl ::
  "'c async_libpq \<Rightarrow> string \<Rightarrow> Params option \<Rightarrow> 'c option \<Rightarrow> (ErrorContext, PGresult) result \<times> 'c option" where
  "sync_execute_impl pq query params conn =
     (let ec = check_connection (map_option (PQstatus (lib pq)) conn)
      in if \<not> is_success ec then (Inl (error_context ec), conn)
         else case conn of
           None \<Rightarrow> (Inl (error_context ec), conn)
         | Some c \<Rightarrow>
             (case (if any_params params then PQexecParams pq query (the params) c else PQexec (lib pq) query c) of
                (None, c) \<Rightarrow> (Inl (connection_error pq c), Some c)
              | (Some r, c) \<Rightarrow> (process_result r, Some c)))"

datatype provider = PostgreSQL | OtherProvider

definition sync_execute ::
  "'c async_libpq \<Rightarrow> provider \<Rightarrow> string \<Rightarrow> Params option \<Rightarrow> 'c option \<Rightarrow> (ErrorContext, PGresult) result \<times> 'c option" where
  "sync_execute pq prov query params conn =
     (if prov \<noteq> PostgreSQL then
        (Inl ((error_context (of_client Client_SyntaxError))\<lparr>err_context :=
           ''Wrong provider. Query was compiled not by PostgreSQL''\<rparr>), conn)
      else sync_execute_impl pq query params conn)"

section \<open>The asynchronous executor\<close>

record 'c AsyncExecutor =
  ae_conn :: "'c option"
  ae_socket :: bool
  ae_fd :: int
  ae_holder :: "'c ConnectionHolder option"

text \<open>\<open>setup_connection\<close>: an exception's text, or the descriptor and the connection in non-blocking mode.\<close>

definition setup_connection :: "'c async_libpq \<Rightarrow> 'c \<Rightarrow> (string, int \<times> 'c) result" where
  "setup_connection pq c =
     (if \<not> is_success (check_connection (Some (PQstatus (lib pq) c))) then
        Inl (''AsyncExecutor: '' @ (case format_context (connection_error pq c) of None \<Rightarrow> [] | Some t \<Rightarrow> t))
      else case PQsetnonblocking pq c of
        (False, c) \<Rightarrow> Inl (''AsyncExecutor: failed to set non-blocking mode - ''
            @ (case PQerrorMessage (lib pq) c of None \<Rightarrow> [] | Some m \<Rightarrow> m))
      | (True, c) \<Rightarrow>
          if PQsocket pq c < 0 then Inl ''AsyncExecutor: invalid socket descriptor'' else Inr (PQsocket pq c, c))"

text \<open>The constructor from a holder. When it throws, no destructor runs for the half-built object, so the holder stays
  as it is.\<close>

definition new_async :: "'c async_libpq \<Rightarrow> 'c ConnectionHolder option \<Rightarrow> (string, 'c AsyncExecutor) result" where
  "new_async pq holder =
     (case holder of
        None \<Rightarrow> Inr \<lparr>ae_conn = None, ae_socket = False, ae_fd = - 1, ae_holder = None\<rparr>
      | Some h \<Rightarrow>
          (case conn_handle (connection h) of
             None \<Rightarrow> Inr \<lparr>ae_conn = None, ae_socket = False, ae_fd = - 1, ae_holder = Some h\<rparr>
           | Some c \<Rightarrow>
               (case setup_connection pq c of
                  Inl msg \<Rightarrow> Inl msg
                | Inr (fd, c) \<Rightarrow>
                    Inr \<lparr>ae_conn = Some c, ae_socket = True, ae_fd = fd,
                         ae_holder = Some (h\<lparr>connection := (connection h)\<lparr>conn_handle := Some c\<rparr>\<rparr>)\<rparr>)))"

definition destroy_async :: "'c libpq \<Rightarrow> string \<Rightarrow> 'c AsyncExecutor \<Rightarrow> 'c slot option" where
  "destroy_async pq fallback_sql ex = map_option (reset_holder pq fallback_sql) (ae_holder ex)"

definition move_async :: "'c AsyncExecutor \<Rightarrow> 'c AsyncExecutor \<times> 'c AsyncExecutor" where
  "move_async other = (other, other\<lparr>ae_conn := None, ae_socket := False, ae_fd := - 1, ae_holder := None\<rparr>)"

definition move_assign_async ::
  "'c libpq \<Rightarrow> string \<Rightarrow> 'c AsyncExecutor \<Rightarrow> 'c AsyncExecutor \<Rightarrow> 'c slot option \<times> 'c AsyncExecutor \<times> 'c AsyncExecutor" where
  "move_assign_async pq fallback_sql this other = (destroy_async pq fallback_sql this, move_async other)"

definition valid_async :: "'c AsyncExecutor \<Rightarrow> bool" where
  "valid_async ex \<longleftrightarrow> ae_conn ex \<noteq> None \<and> ae_socket ex"

definition validate_state :: "'c async_libpq \<Rightarrow> 'c AsyncExecutor \<Rightarrow> ErrorContext option" where
  "validate_state pq ex =
     (if \<not> is_success (check_connection (map_option (PQstatus (lib pq)) (ae_conn ex))) then
        Some (case ae_conn ex of
            Some c \<Rightarrow> connection_error pq c
          | None \<Rightarrow> (error_context (of_client Client_NotConnected))\<lparr>err_message := ''Connection is null''\<rparr>)
      else if \<not> ae_socket ex then
        Some ((error_context (of_client Client_NotConnected))\<lparr>err_message := ''Socket descriptor not available''\<rparr>)
      else case ae_conn ex of
        None \<Rightarrow> None
      | Some c \<Rightarrow>
          if PQsocket pq c \<noteq> ae_fd ex then
            Some ((error_context (of_client Client_InvalidState))\<lparr>err_message := ''Connection was reset (socket fd changed)'',
              err_detail := ''Expected fd '' @ int_to_chars (ae_fd ex) @ '', got '' @ int_to_chars (PQsocket pq c)\<rparr>)
          else None)"

definition wait_failed :: "string \<Rightarrow> string \<Rightarrow> ErrorContext" where
  "wait_failed what msg = (error_context (of_server Server_RuntimeError))\<lparr>err_message := what, err_detail := msg\<rparr>"

definition flush_turn :: "'c async_libpq \<Rightarrow> 'c \<Rightarrow> (ErrorContext option \<times> 'c) + 'c" where
  "flush_turn pq c =
     (case PQflush pq c of (flush_result, c) \<Rightarrow>
        if flush_result = 0 then Inl (None, c)
        else if flush_result < 0 then Inl (Some (connection_error pq c), c)
        else case wait_write pq c of
          (Some msg, c) \<Rightarrow> Inl (Some (wait_failed ''Socket write wait failed'' msg), c)
        | (None, c) \<Rightarrow> Inr c)"

definition async_flush :: "'c async_libpq \<Rightarrow> 'c \<Rightarrow> (ErrorContext option \<times> 'c) option" where
  "async_flush pq = run_loop (flush_turn pq)"

definition consume_turn :: "'c async_libpq \<Rightarrow> 'c \<Rightarrow> (ErrorContext option \<times> 'c) + 'c" where
  "consume_turn pq c =
     (case wait_read pq c of
        (Some msg, c) \<Rightarrow> Inl (Some (wait_failed ''Socket read wait failed'' msg), c)
      | (None, c) \<Rightarrow>
          (case PQconsumeInput pq c of
             (False, c) \<Rightarrow> Inl (Some (connection_error pq c), c)
           | (True, c) \<Rightarrow> if PQisBusy pq c then Inr c else Inl (None, c)))"

definition async_consume_until_ready :: "'c async_libpq \<Rightarrow> 'c \<Rightarrow> (ErrorContext option \<times> 'c) option" where
  "async_consume_until_ready pq = run_loop (consume_turn pq)"

definition drain_turn :: "'c async_libpq \<Rightarrow> 'c \<Rightarrow> 'c + 'c" where
  "drain_turn pq c = (case PQgetResult pq c of (None, c) \<Rightarrow> Inl c | (Some _, c) \<Rightarrow> Inr c)"

definition collect_single_result :: "'c async_libpq \<Rightarrow> 'c \<Rightarrow> ((ErrorContext, PGresult) result \<times> 'c) option" where
  "collect_single_result pq c =
     (case PQgetResult pq c of
        (None, c) \<Rightarrow>
          Some (Inl ((error_context (of_client Client_InvalidArgument))\<lparr>err_message := ''No result returned from query''\<rparr>), c)
      | (Some r, c) \<Rightarrow> map_option (\<lambda>c. (process_result r, c)) (run_loop (drain_turn pq) c))"

definition async_execute_impl ::
  "'c async_libpq \<Rightarrow> string \<Rightarrow> Params option \<Rightarrow> 'c AsyncExecutor \<Rightarrow> ((ErrorContext, PGresult) result \<times> 'c option) option" where
  "async_execute_impl pq query params ex =
     (case validate_state pq ex of
        Some err \<Rightarrow> Some (Inl err, ae_conn ex)
      | None \<Rightarrow>
          (case ae_conn ex of
             None \<Rightarrow> None
           | Some c \<Rightarrow>
               (case (if any_params params then PQsendQueryParams pq query (the params) c else PQsendQuery pq query c) of
                  (False, c) \<Rightarrow> Some (Inl (connection_error pq c), Some c)
                | (True, c) \<Rightarrow>
                    (case async_flush pq c of
                       None \<Rightarrow> None
                     | Some (Some err, c) \<Rightarrow> Some (Inl err, Some c)
                     | Some (None, c) \<Rightarrow>
                         (case async_consume_until_ready pq c of
                            None \<Rightarrow> None
                          | Some (Some err, c) \<Rightarrow> Some (Inl err, Some c)
                          | Some (None, c) \<Rightarrow> map_option (\<lambda>(r, c). (r, Some c)) (collect_single_result pq c))))))"

definition async_execute ::
  "'c async_libpq \<Rightarrow> provider \<Rightarrow> string \<Rightarrow> Params option \<Rightarrow> 'c AsyncExecutor \<Rightarrow>
   ((ErrorContext, PGresult) result \<times> 'c option) option" where
  "async_execute pq prov query params ex =
     (if prov \<noteq> PostgreSQL then
        Some (Inl ((error_context (of_client Client_SyntaxError))\<lparr>err_message := ''Query compiled for different provider'',
           err_detail := ''Expected PostgreSQL, got different backend''\<rparr>), ae_conn ex)
      else async_execute_impl pq query params ex)"

section \<open>The session\<close>

text \<open>The answer of the pool is the holder, if any, and whether the pool has been shut down. A function marked
  \<open>noexcept\<close> that throws ends the program.\<close>

datatype 'a session_result = Refused ErrorContext | Given 'a | Thrown string | Terminated

definition refused :: "ClientErrorCode \<Rightarrow> 'a session_result" where
  "refused code = Refused (error_context (of_client code))"

definition map_empty_weak_timed :: "bool \<Rightarrow> ClientErrorCode" where
  "map_empty_weak_timed is_shutdown = (if is_shutdown then Client_PoolShutdown else Client_WaitTimeout)"

datatype how = TryNow | WithTimeout | Forever

definition empty_code :: "how \<Rightarrow> bool \<Rightarrow> ClientErrorCode" where
  "empty_code h is_shutdown =
     (case h of TryNow \<Rightarrow> Client_PoolExhausted | WithTimeout \<Rightarrow> map_empty_weak_timed is_shutdown | Forever \<Rightarrow> Client_PoolShutdown)"

definition with_sync :: "how \<Rightarrow> bool \<Rightarrow> 'c ConnectionHolder option \<Rightarrow> 'c ConnectionHolder session_result" where
  "with_sync h is_shutdown holder =
     (case holder of None \<Rightarrow> refused (empty_code h is_shutdown) | Some hold \<Rightarrow> Given hold)"

definition try_with_async :: "'c async_libpq \<Rightarrow> 'c ConnectionHolder option \<Rightarrow> 'c AsyncExecutor session_result" where
  "try_with_async pq holder =
     (case holder of
        None \<Rightarrow> refused Client_PoolExhausted
      | Some h \<Rightarrow> (case new_async pq (Some h) of Inl _ \<Rightarrow> Terminated | Inr ex \<Rightarrow> Given ex))"

datatype acquire_error = NoError | Aborted | OtherError

definition with_async ::
  "'c async_libpq \<Rightarrow> bool \<Rightarrow> acquire_error \<Rightarrow> 'c ConnectionHolder option \<Rightarrow> 'c AsyncExecutor session_result" where
  "with_async pq timed ec holder =
     (if timed \<and> ec = OtherError then refused Client_WaitTimeout
      else if ec \<noteq> NoError \<or> holder = None then refused Client_PoolShutdown
      else case new_async pq holder of Inl msg \<Rightarrow> Thrown msg | Inr ex \<Rightarrow> Given ex)"

definition begin_transaction ::
  "how \<Rightarrow> bool \<Rightarrow> TransactionOptions \<Rightarrow> 'c ConnectionHolder option \<Rightarrow> 'c Transaction session_result" where
  "begin_transaction h is_shutdown opts holder =
     (case holder of None \<Rightarrow> refused (empty_code h is_shutdown) | Some hold \<Rightarrow> Given (new_transaction (Some hold) opts))"

section \<open>The synchronous path\<close>

text \<open>Without parameters the executor reports what a statement of a transaction reports.\<close>

lemma sync_execute_plain:
  "sync_execute_impl pq query None conn = (r, conn') \<Longrightarrow>
   execute_impl (lib pq) query conn = (case r of Inl e \<Rightarrow> Some e | Inr _ \<Rightarrow> None, conn')"
  by (auto simp: sync_execute_impl_def execute_impl_def any_params_def process_result_def connection_error_def check_connection_def
      error_code_defs Let_def split: option.splits prod.splits if_splits ConnStatusType.splits)

section \<open>The asynchronous path ends\<close>


















text \<open>A server in which a connection counts the pieces of work still to be done.\<close>

definition counting :: "ConnStatusType \<Rightarrow> nat async_libpq" where
  "counting status = \<lparr>
     lib = \<lparr>PQconnectdb = (\<lambda>_. Some 0), PQstatus = (\<lambda>_. status), PQerrorMessage = (\<lambda>_. None), PQexec = (\<lambda>_ c. (Some ok_result, 0))\<rparr>,
     PQexecParams = (\<lambda>_ _ c. (Some ok_result, 0)), PQsetnonblocking = (\<lambda>c. (True, c)), PQsocket = (\<lambda>_. 7),
     PQsendQuery = (\<lambda>_ c. (True, 5)), PQsendQueryParams = (\<lambda>_ _ c. (True, 5)),
     PQflush = (\<lambda>c. (int c - 3, c)), PQconsumeInput = (\<lambda>c. (True, c - 1)), PQisBusy = (\<lambda>c. 1 < c),
     PQgetResult = (\<lambda>c. (if 0 < c then Some ok_result else None, c - 1)), wait_write = (\<lambda>c. (None, c - 1)), wait_read = (\<lambda>c. (None, c))\<rparr>"




section \<open>Both executors give the same answer\<close>

text \<open>When the pieces of the asynchronous protocol yield the result that the blocking call returns, the executors return
  the same.\<close>

lemma async_matches_sync:
  assumes "validate_state pq ex = None" "ae_conn ex = Some c"
    and "(if any_params params then PQsendQueryParams pq query (the params) c else PQsendQuery pq query c) = (True, c1)"
    and "async_flush pq c1 = Some (None, c2)" "async_consume_until_ready pq c2 = Some (None, c3)"
    and "PQgetResult pq c3 = (Some r, c4)" "run_loop (drain_turn pq) c4 = Some c5"
    and "(if any_params params then PQexecParams pq query (the params) c else PQexec (lib pq) query c) = (Some r, c5)"
  shows "async_execute pq PostgreSQL query params ex = Some (sync_execute pq PostgreSQL query params (Some c))"
proof -
  have "is_success (check_connection (Some (PQstatus (lib pq) c)))"
    using assms(1,2) by (auto simp: validate_state_def split: if_splits)
  then have s: "sync_execute pq PostgreSQL query params (Some c) = (process_result r, Some c5)"
    using assms(8) by (simp add: sync_execute_def sync_execute_impl_def Let_def)
  have "collect_single_result pq c3 = Some (process_result r, c5)"
    using assms(6,7) by (simp add: collect_single_result_def)
  then have "async_execute_impl pq query params ex = Some (process_result r, Some c5)"
    unfolding async_execute_impl_def assms(1-3) option.case by (simp add: assms(4,5))
  then show ?thesis by (simp add: async_execute_def s)
qed

section \<open>A constructor that throws\<close>

text \<open>A pooled connection that died while idle is lost for good when an asynchronous executor is built on it. The
  constructor throws, so no destructor gives the holder back: the timed and untimed \<open>with_async\<close> pass the exception on
  with the holder still lent, and \<open>try_with_async\<close>, which is \<open>noexcept\<close>, ends the program. Giving the same holder back
  would have dropped it, so that the pool could open another connection.\<close>

theorem async_construction_leaks:
  assumes "conn_handle (connection h) = Some c" "PQstatus (lib pq) c \<noteq> CONNECTION_OK"
  shows "(\<exists>msg. with_async pq timed NoError (Some h) = Thrown msg) \<and> try_with_async pq (Some h) = Terminated
    \<and> (\<exists>h'. reset_holder (lib pq) fallback_sql h = Dropped h')"
proof -
  have "\<not> is_success (check_connection (Some (PQstatus (lib pq) c)))"
    using assms(2) by (cases "PQstatus (lib pq) c") (simp_all add: check_connection_def)
  then have "\<exists>msg. new_async pq (Some h) = Inl msg" using assms(1) by (simp add: new_async_def setup_connection_def)
  moreover have "\<exists>h'. reset_holder (lib pq) fallback_sql h = Dropped h'"
    using assms by (auto simp: reset_holder_def run_cleanup_sql_def run_cleanup_def verify_def Let_def split: prod.splits bool.splits)
  ultimately show ?thesis by (auto simp: with_async_def try_with_async_def)
qed

theorem async_construction_leaks_witness:
  "try_with_async (counting CONNECTION_BAD)
     (Some \<lparr>connection = \<lparr>conn_handle = Some 0, conn_state = READY\<rparr>, cleanup_sql = None\<rparr>) = Terminated"
  using async_construction_leaks [of "\<lparr>connection = \<lparr>conn_handle = Some 0, conn_state = READY\<rparr>, cleanup_sql = None\<rparr>" 0
      "counting CONNECTION_BAD"] by (simp add: counting_def)

end
