(* ===== verification/Starling_Pool.thy ===== *)
theory Starling_Pool
  imports Menagerie_Prelude "HOL-Library.Word" "HOL-Library.Numeral_Type"
begin

text \<open>
  The object pool of \<open>concurrency-starling/pool\<close>: \<open>pool.hpp\<close>, \<open>detail/sync_acquire.hpp\<close>, \<open>detail/async_acquire.hpp\<close>,
  \<open>detail/borrowed.hpp\<close> and \<open>detail/reserved_slot.hpp\<close>. Free objects are bits of an array of 64-bit words that are claimed
  and published without a lock; everything else is under a mutex, and a counter of waiting clients, the gate, ties the
  two together.

  Each client is at a point of the code (\<open>pool_pc\<close>), and one step is one access to the shared words, the gate or the flag,
  or a section under the mutex with at most one such access. A section with more of them keeps the mutex from step to
  step. A failed compare-and-exchange is no step: the load that sees an empty word and the exchange that succeeds are the
  points that count. A client stands for one token or call, so a thread that holds two objects is two clients. Deadlines
  are an oracle: \<open>ex p\<close> says that the deadline of client \<open>p\<close> has passed. An asynchronous client differs from a blocked
  thread in that it can be cancelled as well: in the queue by a step of its own, before that with the effect of a passed
  deadline.
\<close>

unbundle bit_operations_syntax

section \<open>State\<close>

datatype SlotState = vacant | reserved | idle | borrowed | quarantined

datatype WaiterState = queued | assigned nat | timeout | cancelled | shut_down

datatype claim_for = ForTry | ForAcquire | ForTake

datatype pool_pc =
    Away
  | Scan claim_for nat
  | Claimed claim_for nat
  | Park
  | ParkScan nat
  | Parked WaiterState
  | Holding nat
  | Release nat
  | Release_gate nat
  | Release_pub nat
  | Published nat
  | Published_gate
  | Reclaim nat
  | Quarantining nat
  | Handoff bool nat
  | Serve
  | ServeScan nat
  | Taking
  | Reserved nat bool
  | Sweep nat
  | Abort

record 'p Pool =
  words :: "64 word list"
  states :: "SlotState list"
  vacant_slots :: "nat list"
  quarantined_slots :: "nat list"
  mutex :: "'p option"
  waiters :: "'p list"
  waiter_gate :: nat
  usable_size :: nat
  reserved_count :: nat
  closed :: bool
  pcs :: "'p \<Rightarrow> pool_pc"

definition new_arena :: "nat \<Rightarrow> 'p Pool" where
  "new_arena capacity = \<lparr>
     words = replicate (capacity div 64 + (if capacity mod 64 \<noteq> 0 then 1 else 0)) 0,
     states = replicate capacity vacant, vacant_slots = rev [0..<capacity], quarantined_slots = [], mutex = None,
     waiters = [], waiter_gate = 0, usable_size = 0, reserved_count = 0, closed = False, pcs = (\<lambda>_. Away)\<rparr>"

definition go :: "'p \<Rightarrow> pool_pc \<Rightarrow> 'p Pool \<Rightarrow> 'p Pool" where
  "go p pc s = s\<lparr>pcs := (pcs s)(p := pc)\<rparr>"

definition unlock :: "'p Pool \<Rightarrow> 'p Pool" where
  "unlock s = s\<lparr>mutex := None\<rparr>"

definition can_lock :: "'p \<Rightarrow> 'p Pool \<Rightarrow> bool" where
  "can_lock p s \<longleftrightarrow> mutex s = None \<or> mutex s = Some p"

section \<open>The words\<close>

definition countr_zero :: "64 word \<Rightarrow> nat" where
  "countr_zero x = length (takeWhile (\<lambda>k. \<not> bit x k) [0..<64])"

definition set_state :: "nat \<Rightarrow> SlotState \<Rightarrow> 'p Pool \<Rightarrow> 'p Pool" where
  "set_state i st s = s\<lparr>states := (states s)[i := st]\<rparr>"

text \<open>The successful exchange of \<open>claim_idle\<close> on word \<open>w\<close>.\<close>

definition claim_index :: "nat \<Rightarrow> 'p Pool \<Rightarrow> nat" where
  "claim_index w s = w * 64 + countr_zero (words s ! w)"

definition claim_bit :: "nat \<Rightarrow> 'p Pool \<Rightarrow> 'p Pool" where
  "claim_bit w s = set_state (claim_index w s) borrowed
     (s\<lparr>words := (words s)[w := words s ! w AND (words s ! w - 1)]\<rparr>)"

definition publish_bit :: "nat \<Rightarrow> 'p Pool \<Rightarrow> 'p Pool" where
  "publish_bit i s = s\<lparr>words := (words s)[i div 64 := words s ! (i div 64) OR push_bit (i mod 64) 1]\<rparr>"

definition has_bit :: "nat \<Rightarrow> 'p Pool \<Rightarrow> bool" where
  "has_bit i s \<longleftrightarrow> i div 64 < length (words s) \<and> bit (words s ! (i div 64)) (i mod 64)"

definition reclaim_idle :: "nat \<Rightarrow> 'p Pool \<Rightarrow> 'p Pool" where
  "reclaim_idle i s = set_state i borrowed
     (s\<lparr>words := (words s)[i div 64 := words s ! (i div 64) AND NOT (push_bit (i mod 64) 1)]\<rparr>)"

section \<open>Under the mutex\<close>

definition quarantine_borrowed :: "nat \<Rightarrow> 'p Pool \<Rightarrow> 'p Pool" where
  "quarantine_borrowed i s = set_state i quarantined
     (s\<lparr>usable_size := usable_size s - 1, quarantined_slots := quarantined_slots s @ [i]\<rparr>)"

definition unlink_waiter :: "'p \<Rightarrow> WaiterState \<Rightarrow> 'p Pool \<Rightarrow> 'p Pool" where
  "unlink_waiter q st s = go q (Parked st) (s\<lparr>waiters := remove1 q (waiters s), waiter_gate := waiter_gate s - 1\<rparr>)"

text \<open>One turn of \<open>handoff_or_publish_locked\<close>; \<open>serving\<close> tells that \<open>serve_waiters_locked\<close> called it and goes on with its
  loop.\<close>

definition handoff_done :: "'p \<Rightarrow> bool \<Rightarrow> 'p Pool \<Rightarrow> 'p Pool" where
  "handoff_done p serving s = (if serving then (go p Serve s)\<lparr>mutex := Some p\<rparr> else unlock (go p Away s))"

definition handoff_or_publish_locked :: "'p \<Rightarrow> bool \<Rightarrow> nat \<Rightarrow> ('p \<Rightarrow> bool) \<Rightarrow> 'p Pool \<Rightarrow> 'p Pool" where
  "handoff_or_publish_locked p serving i ex s =
     (if closed s then handoff_done p serving (quarantine_borrowed i s)
      else case waiters s of
        [] \<Rightarrow> handoff_done p serving (publish_bit i (set_state i idle s))
      | q # _ \<Rightarrow>
          if ex q then unlock (unlink_waiter q timeout s)
          else unlock (go p (if serving then Serve else Away) (unlink_waiter q (assigned i) s)))"

definition serve_waiters_locked :: "'p \<Rightarrow> 'p Pool \<Rightarrow> 'p Pool" where
  "serve_waiters_locked p s =
     (if closed s \<or> waiters s = [] then unlock (go p Away s) else (go p (ServeScan 0) s)\<lparr>mutex := Some p\<rparr>)"

definition serve_scan :: "'p \<Rightarrow> nat \<Rightarrow> 'p Pool \<Rightarrow> 'p Pool" where
  "serve_scan p w s =
     (if length (words s) \<le> w then unlock (go p Away s)
      else if words s ! w = 0 then go p (ServeScan (w + 1)) s
      else go p (Handoff True (claim_index w s)) (claim_bit w s))"

section \<open>Acquiring\<close>

definition start_acquire :: "'p \<Rightarrow> bool \<Rightarrow> ('p \<Rightarrow> bool) \<Rightarrow> 'p Pool \<Rightarrow> 'p Pool" where
  "start_acquire p waits ex s =
     (if closed s \<or> waits \<and> ex p then s else go p (Scan (if waits then ForAcquire else ForTry) 0) s)"

definition claim_scan :: "'p \<Rightarrow> claim_for \<Rightarrow> nat \<Rightarrow> 'p Pool \<Rightarrow> 'p Pool" where
  "claim_scan p mode w s =
     (if length (words s) \<le> w then go p (if mode = ForAcquire then Park else Away) s
      else if words s ! w = 0 then go p (Scan mode (w + 1)) s
      else go p (Claimed mode (claim_index w s)) (claim_bit w s))"

text \<open>\<open>try_take_idle\<close> looks at the flag and the gate first, and again under the mutex.\<close>

definition take_idle_locked :: "'p \<Rightarrow> nat \<Rightarrow> 'p Pool \<Rightarrow> 'p Pool" where
  "take_idle_locked p i s =
     (if closed s then unlock (go p Away (quarantine_borrowed i s))
      else if waiter_gate s \<noteq> 0 then (go p Serve (publish_bit i (set_state i idle s)))\<lparr>mutex := Some p\<rparr>
      else unlock (go p (Reserved i True)
        (set_state i reserved (s\<lparr>usable_size := usable_size s - 1, reserved_count := reserved_count s + 1\<rparr>))))"

definition claimed_slot :: "'p \<Rightarrow> claim_for \<Rightarrow> nat \<Rightarrow> ('p \<Rightarrow> bool) \<Rightarrow> 'p Pool \<Rightarrow> 'p Pool option" where
  "claimed_slot p mode i ex s =
     (if mode = ForTake then if can_lock p s then Some (take_idle_locked p i s) else None
      else if closed s then Some (go p (Quarantining i) s)
      else if mode = ForAcquire \<and> ex p then Some (go p (Release i) s)
      else Some (go p (Holding i) s))"

definition park :: "'p \<Rightarrow> ('p \<Rightarrow> bool) \<Rightarrow> 'p Pool \<Rightarrow> 'p Pool" where
  "park p ex s =
     (if closed s \<or> ex p then unlock (go p Away s)
      else (go p (ParkScan 0) s)\<lparr>mutex := Some p, waiter_gate := waiter_gate s + 1\<rparr>)"

definition park_scan :: "'p \<Rightarrow> nat \<Rightarrow> ('p \<Rightarrow> bool) \<Rightarrow> 'p Pool \<Rightarrow> 'p Pool" where
  "park_scan p w ex s =
     (if length (words s) \<le> w then unlock (go p (Parked queued) (s\<lparr>waiters := waiters s @ [p]\<rparr>))
      else if words s ! w = 0 then go p (ParkScan (w + 1)) s
      else let i = claim_index w s; s = (claim_bit w s)\<lparr>waiter_gate := waiter_gate s - 1\<rparr>
        in if ex p then go p (Handoff False i) s else unlock (go p (Holding i) s))"

text \<open>A parked client wakes with the outcome chosen for it, or its deadline or a cancellation takes it out of the queue.\<close>

definition parked :: "'p \<Rightarrow> WaiterState \<Rightarrow> 'p Pool \<Rightarrow> 'p Pool option" where
  "parked p st s = (case st of queued \<Rightarrow> None | assigned i \<Rightarrow> Some (go p (Holding i) s) | _ \<Rightarrow> Some (go p Away s))"

section \<open>Releasing\<close>

definition handoff_or_publish :: "'p \<Rightarrow> nat \<Rightarrow> 'p Pool \<Rightarrow> 'p Pool" where
  "handoff_or_publish p i s = go p (if closed s then Handoff False i else Release_gate i) s"

definition release_gate :: "'p \<Rightarrow> nat \<Rightarrow> 'p Pool \<Rightarrow> 'p Pool" where
  "release_gate p i s = go p (if waiter_gate s \<noteq> 0 then Handoff False i else Release_pub i) s"

definition release_pub :: "'p \<Rightarrow> nat \<Rightarrow> 'p Pool \<Rightarrow> 'p Pool" where
  "release_pub p i s = go p (Published i) (publish_bit i (set_state i idle s))"

definition published_slot :: "'p \<Rightarrow> nat \<Rightarrow> 'p Pool \<Rightarrow> 'p Pool" where
  "published_slot p i s = go p (if closed s then Reclaim i else Published_gate) s"

definition published_gate :: "'p \<Rightarrow> 'p Pool \<Rightarrow> 'p Pool" where
  "published_gate p s = go p (if waiter_gate s \<noteq> 0 then Serve else Away) s"

definition reclaim :: "'p \<Rightarrow> nat \<Rightarrow> 'p Pool \<Rightarrow> 'p Pool" where
  "reclaim p i s = (if has_bit i s then go p (Quarantining i) (reclaim_idle i s) else go p Away s)"

section \<open>Reserved slots\<close>

definition try_reserve :: "'p \<Rightarrow> 'p Pool \<Rightarrow> 'p Pool" where
  "try_reserve p s =
     (if closed s \<or> vacant_slots s = [] then s
      else let i = last (vacant_slots s)
        in go p (Reserved i False) (set_state i reserved
             (s\<lparr>vacant_slots := butlast (vacant_slots s), reserved_count := reserved_count s + 1\<rparr>)))"

definition try_take_quarantined :: "'p \<Rightarrow> 'p Pool \<Rightarrow> 'p Pool" where
  "try_take_quarantined p s =
     (if closed s \<or> quarantined_slots s = [] then s
      else let i = last (quarantined_slots s)
        in go p (Reserved i True) (set_state i reserved
             (s\<lparr>quarantined_slots := butlast (quarantined_slots s), reserved_count := reserved_count s + 1\<rparr>)))"

definition publish_reserved :: "'p \<Rightarrow> nat \<Rightarrow> 'p Pool \<Rightarrow> 'p Pool" where
  "publish_reserved p i s =
     (if closed s then s
      else (go p (Handoff False i) (set_state i borrowed
             (s\<lparr>reserved_count := reserved_count s - 1, usable_size := usable_size s + 1\<rparr>)))\<lparr>mutex := Some p\<rparr>)"

definition rollback :: "'p \<Rightarrow> nat \<Rightarrow> 'p Pool \<Rightarrow> 'p Pool" where
  "rollback p i s = go p Away (set_state i vacant
     (s\<lparr>vacant_slots := vacant_slots s @ [i], reserved_count := reserved_count s - 1\<rparr>))"

section \<open>Shutdown\<close>

definition shutdown :: "'p \<Rightarrow> 'p Pool \<Rightarrow> 'p Pool" where
  "shutdown p s = (if closed s then s else (go p (Sweep 0) s)\<lparr>closed := True, mutex := Some p\<rparr>)"

text \<open>The loop over the bits of one word.\<close>

definition word_slots :: "nat \<Rightarrow> 'p Pool \<Rightarrow> nat list" where
  "word_slots w s = map (\<lambda>k. w * 64 + k) (filter (bit (words s ! w)) [0..<64])"

definition sweep :: "'p \<Rightarrow> nat \<Rightarrow> 'p Pool \<Rightarrow> 'p Pool" where
  "sweep p w s =
     (if length (words s) \<le> w then go p Abort s
      else go p (Sweep (w + 1)) (fold quarantine_borrowed (word_slots w s) (s\<lparr>words := (words s)[w := 0]\<rparr>)))"

definition shutdown_waiters :: "'p \<Rightarrow> ('p \<Rightarrow> bool) \<Rightarrow> 'p Pool \<Rightarrow> 'p Pool" where
  "shutdown_waiters p ex s =
     (case waiters s of
        [] \<Rightarrow> unlock (go p Away s)
      | q # _ \<Rightarrow> unlock (unlink_waiter q (if ex q then timeout else shut_down) s))"

section \<open>Steps\<close>

definition locked :: "'p \<Rightarrow> 'p Pool \<Rightarrow> 'p Pool \<Rightarrow> 'p Pool option" where
  "locked p s s' = (if can_lock p s then Some s' else None)"

text \<open>The next step of a client inside the code, if it is not blocked.\<close>

definition advance :: "'p \<Rightarrow> ('p \<Rightarrow> bool) \<Rightarrow> 'p Pool \<Rightarrow> 'p Pool option" where
  "advance p ex s =
     (case pcs s p of
        Away \<Rightarrow> None
      | Holding i \<Rightarrow> None
      | Reserved i c \<Rightarrow> None
      | Scan mode w \<Rightarrow> Some (claim_scan p mode w s)
      | Claimed mode i \<Rightarrow> claimed_slot p mode i ex s
      | Park \<Rightarrow> locked p s (park p ex s)
      | ParkScan w \<Rightarrow> Some (park_scan p w ex s)
      | Parked st \<Rightarrow> parked p st s
      | Release i \<Rightarrow> Some (handoff_or_publish p i s)
      | Release_gate i \<Rightarrow> Some (release_gate p i s)
      | Release_pub i \<Rightarrow> Some (release_pub p i s)
      | Published i \<Rightarrow> Some (published_slot p i s)
      | Published_gate \<Rightarrow> Some (published_gate p s)
      | Reclaim i \<Rightarrow> Some (reclaim p i s)
      | Quarantining i \<Rightarrow> locked p s (go p Away (quarantine_borrowed i s))
      | Handoff serving i \<Rightarrow> locked p s (handoff_or_publish_locked p serving i ex s)
      | Serve \<Rightarrow> locked p s (serve_waiters_locked p s)
      | ServeScan w \<Rightarrow> Some (serve_scan p w s)
      | Taking \<Rightarrow> Some (if waiter_gate s \<noteq> 0 then go p Away s else go p (Scan ForTake 0) s)
      | Sweep w \<Rightarrow> Some (sweep p w s)
      | Abort \<Rightarrow> locked p s (shutdown_waiters p ex s))"

text \<open>What a client may do of its own accord.\<close>

inductive arena_step :: "'p Pool \<Rightarrow> 'p Pool \<Rightarrow> bool" where
  step_advance: "advance p ex s = Some s' \<Longrightarrow> arena_step s s'"
| step_acquire: "pcs s p = Away \<Longrightarrow> arena_step s (start_acquire p waits ex s)"
| step_take_idle: "pcs s p = Away \<Longrightarrow> \<not> closed s \<Longrightarrow> arena_step s (go p Taking s)"
| step_reserve: "pcs s p = Away \<Longrightarrow> mutex s = None \<Longrightarrow> arena_step s (try_reserve p s)"
| step_take_quarantined: "pcs s p = Away \<Longrightarrow> mutex s = None \<Longrightarrow> arena_step s (try_take_quarantined p s)"
| step_release: "pcs s p = Holding i \<Longrightarrow> arena_step s (go p (Release i) s)"
| step_quarantine: "pcs s p = Holding i \<Longrightarrow> arena_step s (go p (Quarantining i) s)"
| step_emplace: "pcs s p = Reserved i False \<Longrightarrow> arena_step s (go p (Reserved i True) s)"
| step_destroy: "pcs s p = Reserved i True \<Longrightarrow> arena_step s (go p (Reserved i False) s)"
| step_publish: "pcs s p = Reserved i True \<Longrightarrow> mutex s = None \<Longrightarrow> arena_step s (publish_reserved p i s)"
| step_rollback: "pcs s p = Reserved i c \<Longrightarrow> mutex s = None \<Longrightarrow> arena_step s (rollback p i s)"
| step_shutdown: "pcs s p = Away \<Longrightarrow> mutex s = None \<Longrightarrow> arena_step s (shutdown p s)"
| step_give_up: "pcs s p = Parked queued \<Longrightarrow> mutex s = None \<Longrightarrow> st = timeout \<or> st = cancelled \<Longrightarrow>
    arena_step s (unlink_waiter p st s)"

section \<open>Telemetry\<close>

record PoolStats =
  stat_capacity :: nat
  stat_vacant :: nat
  stat_reserved :: nat
  stat_idle :: nat
  stat_borrowed :: nat
  stat_quarantined :: nat
  stat_waiters :: nat

text \<open>\<open>stats\<close> holds the mutex, but the words are loaded one after the other while other clients claim bits: \<open>seen\<close> are
  the words as they were loaded.\<close>

definition idle_count :: "64 word list \<Rightarrow> nat" where
  "idle_count seen = sum_list (map (\<lambda>x. length (filter (bit x) [0..<64])) seen)"

definition stats :: "64 word list \<Rightarrow> 'p Pool \<Rightarrow> PoolStats" where
  "stats seen s = (let n = min (idle_count seen) (usable_size s) in
     \<lparr>stat_capacity = length (states s), stat_vacant = length (vacant_slots s), stat_reserved = reserved_count s,
      stat_idle = n, stat_borrowed = usable_size s - n, stat_quarantined = length (quarantined_slots s),
      stat_waiters = length (waiters s)\<rparr>)"

section \<open>Words and bits\<close>

lemma countr_zero:
  assumes "x \<noteq> 0"
  shows "countr_zero x < 64" "bit x (countr_zero x)" "\<And>j. j < countr_zero x \<Longrightarrow> \<not> bit x j"
proof -
  let ?xs = "[0..<64]" and ?P = "\<lambda>k. \<not> bit x k"
  obtain n where "n < 64" "bit x n" using assms bit_word_eqI [of x 0] by auto
  then have "\<exists>k \<in> set ?xs. \<not> ?P k" by auto
  then have "takeWhile ?P ?xs \<noteq> ?xs" unfolding takeWhile_eq_all_conv by blast
  then have "length (takeWhile ?P ?xs) \<noteq> length ?xs" using takeWhile_eq_take [of ?P ?xs] by (metis take_all_iff order_refl)
  then have lt: "length (takeWhile ?P ?xs) < length ?xs" using length_takeWhile_le [of ?P ?xs] by linarith
  then show "countr_zero x < 64" by (simp only: countr_zero_def length_upt)
  show "bit x (countr_zero x)" using nth_length_takeWhile [OF lt] lt by (simp del: upt_Suc add: countr_zero_def)
  show "\<not> bit x j" if "j < countr_zero x" for j
  proof -
    have j: "j < length (takeWhile ?P ?xs)" using that by (simp only: countr_zero_def)
    then have "takeWhile ?P ?xs ! j = j" using lt takeWhile_nth [OF j] by simp
    then show ?thesis using set_takeWhileD [OF nth_mem [OF j]] by simp
  qed
qed

lemma bit_clear_lowest:
  assumes "x \<noteq> (0 :: 64 word)"
  shows "bit (x AND (x - 1)) k \<longleftrightarrow> bit x k \<and> k \<noteq> countr_zero x"
proof -
  define n where "n = countr_zero x"
  note z = countr_zero [OF assms, folded n_def]
  have "unset_bit n x = x - 2 ^ n" using z(2) by (simp add: unset_bit_eq)
  then have "x - 1 = unset_bit n x + mask n" by (simp add: mask_eq_exp_minus_1)
  also have "\<dots> = unset_bit n x OR mask n"
    by (rule disjunctive_add) (use z(3) in \<open>auto simp: bit_unset_bit_iff bit_mask_iff\<close>)
  finally have "bit (x - 1) k \<longleftrightarrow> bit x k \<and> k \<noteq> n \<or> k < n \<and> k < 64"
    by (auto simp: bit_or_iff bit_unset_bit_iff bit_mask_iff dest: bit_imp_le_length)
  then show ?thesis using z(3) [of k] by (auto simp: bit_and_iff n_def)
qed

text \<open>The slots whose bits are set.\<close>

definition bits :: "64 word list \<Rightarrow> nat set" where
  "bits ws = {i. i div 64 < length ws \<and> bit (ws ! (i div 64)) (i mod 64)}"

lemma has_bit_bits: "has_bit i s \<longleftrightarrow> i \<in> bits (words s)"
  by (simp add: has_bit_def bits_def)

lemma claim_index_div:
  assumes "words s ! w \<noteq> 0"
  shows "claim_index w s div 64 = w" "claim_index w s mod 64 = countr_zero (words s ! w)"
  using countr_zero(1) [OF assms] by (simp_all add: claim_index_def)

lemma bits_update:
  "w < length ws \<Longrightarrow> i \<in> bits (ws[w := x]) \<longleftrightarrow> (if i div 64 = w then bit x (i mod 64) else i \<in> bits ws)"
  by (auto simp: bits_def nth_list_update)

lemma bits_claim:
  assumes "w < length (words s)" "words s ! w \<noteq> 0"
  shows "bits (words (claim_bit w s)) = bits (words s) - {claim_index w s}" "claim_index w s \<in> bits (words s)"
proof -
  note d = claim_index_div [OF assms(2)]
  show "claim_index w s \<in> bits (words s)" using assms countr_zero(2) by (simp add: bits_def d)
  have "i = claim_index w s \<longleftrightarrow> i div 64 = w \<and> i mod 64 = countr_zero (words s ! w)" for i
    using d by (metis div_mult_mod_eq)
  then have "i \<in> bits (words (claim_bit w s)) \<longleftrightarrow> i \<in> bits (words s) \<and> i \<noteq> claim_index w s" for i
    using assms by (simp add: claim_bit_def set_state_def bits_update bit_clear_lowest) (simp add: bits_def)
  then show "bits (words (claim_bit w s)) = bits (words s) - {claim_index w s}" by blast
qed

lemma bit_one_push: "k < 64 \<Longrightarrow> bit ((2 :: 64 word) ^ k) j \<longleftrightarrow> j = k"
  by (auto simp: bit_exp_iff)

lemma div_mod_eq: "(i :: nat) div 64 = j div 64 \<Longrightarrow> i mod 64 = j mod 64 \<Longrightarrow> i = j"
  by (metis div_mult_mod_eq)

lemma bits_publish:
  assumes "i div 64 < length ws"
  shows "bits (ws[i div 64 := ws ! (i div 64) OR push_bit (i mod 64) 1]) = insert i (bits ws)"
proof -
  have "j \<in> bits (ws[i div 64 := ws ! (i div 64) OR push_bit (i mod 64) 1]) \<longleftrightarrow> j = i \<or> j \<in> bits ws" for j
    using assms div_mod_eq [of j i] by (simp add: bits_update bit_or_iff bit_one_push) (auto simp: bits_def)
  then show ?thesis by blast
qed

lemma bits_reclaim: "bits (ws[i div 64 := ws ! (i div 64) AND NOT (push_bit (i mod 64) 1)]) = bits ws - {i}"
proof (cases "i div 64 < length ws")
  case True
  have "j \<in> bits (ws[i div 64 := ws ! (i div 64) AND NOT (push_bit (i mod 64) 1)]) \<longleftrightarrow> j \<noteq> i \<and> j \<in> bits ws" for j
    using True div_mod_eq [of j i] by (simp add: bits_update bit_and_iff bit_not_iff bit_one_push) (auto simp: bits_def)
  then show ?thesis by blast
qed (auto simp: bits_def)

lemma bits_sweep: "w < length ws \<Longrightarrow> bits (ws[w := 0]) = {i \<in> bits ws. i div 64 \<noteq> w}"
  by (auto simp: bits_update split: if_splits)

lemma word_slots_set:
  assumes "w < length (words s)"
  shows "set (word_slots w s) = {i \<in> bits (words s). i div 64 = w}"
proof -
  have "i \<in> set (word_slots w s) \<longleftrightarrow> i div 64 = w \<and> bit (words s ! w) (i mod 64)" for i
    by (auto simp: word_slots_def image_iff intro!: exI [of _ "i mod 64"])
  then show ?thesis using assms by (auto simp: bits_def)
qed

lemma distinct_word_slots [simp]: "distinct (word_slots w s)"
  by (simp add: word_slots_def distinct_map inj_on_def)

end
