(* ===== verification/Starling_Pool_Safety.thy ===== *)
theory Starling_Pool_Safety
  imports Starling_Pool
begin

text \<open>
  Invariants of the object pool under every interleaving. The array of slot states is the ground truth: the bits, the two
  lists of slots, the owners among the clients and the two counters all agree with it, which also means that every
  assertion of the code holds. The mutex, the gate and the queue of waiters agree with the clients. And no free object is
  left over while somebody waits, unless a client is about to serve the queue.
\<close>

section \<open>Owners\<close>

text \<open>The slot that a client has borrowed, or reserved.\<close>

fun lends :: "pool_pc \<Rightarrow> nat option" where
  "lends (Claimed _ i) = Some i"
| "lends (Holding i) = Some i"
| "lends (Release i) = Some i"
| "lends (Release_gate i) = Some i"
| "lends (Release_pub i) = Some i"
| "lends (Quarantining i) = Some i"
| "lends (Handoff _ i) = Some i"
| "lends (Parked (assigned i)) = Some i"
| "lends _ = None"

fun reserves :: "pool_pc \<Rightarrow> nat option" where
  "reserves (Reserved i _) = Some i"
| "reserves _ = None"

definition slots :: "SlotState \<Rightarrow> SlotState list \<Rightarrow> nat set" where
  "slots st S = {i. i < length S \<and> S ! i = st}"

text \<open>Every slot of the set has exactly one owner, and nothing else is owned.\<close>

definition owned :: "('p \<rightharpoonup> nat) \<Rightarrow> nat set \<Rightarrow> bool" where
  "owned m A \<longleftrightarrow> inj_on m (dom m) \<and> ran m = A"

definition inventory ::
  "nat set \<Rightarrow> SlotState list \<Rightarrow> nat list \<Rightarrow> nat list \<Rightarrow> ('p \<rightharpoonup> nat) \<Rightarrow> ('p \<rightharpoonup> nat) \<Rightarrow> nat \<Rightarrow> nat \<Rightarrow> bool" where
  "inventory B S V Q lend resv usable reserved_n \<longleftrightarrow>
     B = slots idle S \<and> set V = slots vacant S \<and> distinct V \<and> set Q = slots quarantined S \<and> distinct Q
     \<and> owned lend (slots borrowed S) \<and> owned resv (slots reserved S)
     \<and> usable = card (slots idle S) + card (slots borrowed S) \<and> reserved_n = card (slots reserved S)"

definition inventory_of :: "'p Pool \<Rightarrow> bool" where
  "inventory_of s \<longleftrightarrow> length (states s) \<le> 64 * length (words s)
     \<and> inventory (bits (words s)) (states s) (vacant_slots s) (quarantined_slots s) (lends \<circ> pcs s) (reserves \<circ> pcs s)
         (usable_size s) (reserved_count s)"

lemma slots_update:
  "i < length S \<Longrightarrow> slots st (S[i := st']) = (if st = st' then insert i (slots st S) else slots st S - {i})"
  by (auto simp: slots_def nth_list_update)

lemma finite_slots [simp]: "finite (slots st S)"
  by (simp add: slots_def)

lemma slots_other: "i \<in> slots st S \<Longrightarrow> st' \<noteq> st \<Longrightarrow> i \<notin> slots st' S"
  by (auto simp: slots_def)

lemma slots_move:
  assumes "i \<in> slots st S"
  shows "slots st' (S[i := u]) = (if st' = u then insert i (slots st' S) else if st' = st then slots st S - {i} else slots st' S)"
  using assms slots_other [OF assms, of st'] by (auto simp: slots_def nth_list_update)

lemma card_slots_move:
  assumes "i \<in> slots st S"
  shows "st' \<noteq> st \<Longrightarrow> card (insert i (slots st' S)) = card (slots st' S) + 1"
    and "card (slots st S - {i}) = card (slots st S) - 1" and "0 < card (slots st S)"
  using assms slots_other [OF assms, of st'] by (auto simp: card_gt_0_iff)

lemma comp_upd: "f \<circ> (g(p := x)) = (f \<circ> g)(p := f x)"
  by (auto simp: fun_eq_iff)

lemma ownedD: "owned m A \<Longrightarrow> m p = Some i \<Longrightarrow> i \<in> A"
  unfolding owned_def by (blast intro: ranI)
lemma owned_inj: "owned m A \<Longrightarrow> m p = Some i \<Longrightarrow> m q = Some i \<Longrightarrow> p = q"
  unfolding owned_def inj_on_def by (metis domI)

lemma owned_ex: "owned m A \<Longrightarrow> i \<in> A \<Longrightarrow> \<exists>p. m p = Some i"
  unfolding owned_def ran_def by blast
lemma owned_take:
  assumes "owned m A" "m p = None" "i \<notin> A"
  shows "owned (m(p \<mapsto> i)) (insert i A)"
proof -
  have no: "m q \<noteq> Some i" for q using ownedD [OF assms(1), of q i] assms(3) by blast
  have "inj_on (m(p \<mapsto> i)) (dom (m(p \<mapsto> i)))"
  proof (rule inj_onI)
    fix x y assume a: "x \<in> dom (m(p \<mapsto> i))" "(m(p \<mapsto> i)) x = (m(p \<mapsto> i)) y"
    then obtain j where j: "(m(p \<mapsto> i)) x = Some j" "(m(p \<mapsto> i)) y = Some j" unfolding dom_def by auto
    show "x = y"
    proof (cases "j = i")
      case True
      then show ?thesis using j no [of x] no [of y] by (simp split: if_splits)
    next
      case False
      then show ?thesis using j owned_inj [OF assms(1), of x j y] by (simp split: if_splits)
    qed
  qed
  moreover have "ran (m(p \<mapsto> i)) = insert i A" using assms(1,2) by (simp add: owned_def)
  ultimately show ?thesis unfolding owned_def by (intro conjI)
qed

lemma drop_Some: "(m(p := None)) q = Some j \<longleftrightarrow> q \<noteq> p \<and> m q = Some j"
  by simp

lemma owned_drop:
  assumes "owned m A" "m p = Some i"
  shows "owned (m(p := None)) (A - {i})"
proof -
  have "j \<in> ran (m(p := None)) \<longleftrightarrow> j \<in> A - {i}" for j
  proof
    assume "j \<in> ran (m(p := None))"
    then obtain q where "(m(p := None)) q = Some j" unfolding ran_def by blast
    then have q: "q \<noteq> p" "m q = Some j" unfolding drop_Some by blast+
    then have "j \<noteq> i" using owned_inj [OF assms, of q] by blast
    then show "j \<in> A - {i}" using ownedD [OF assms(1) q(2)] by blast
  next
    assume j: "j \<in> A - {i}"
    then obtain q where q: "m q = Some j" using owned_ex [OF assms(1), of j] by blast
    have "q \<noteq> p"
    proof
      assume "q = p" then show False using q assms(2) j by simp
    qed
    then have "(m(p := None)) q = Some j" using q unfolding drop_Some by blast
    then show "j \<in> ran (m(p := None))" by (rule ranI)
  qed
  then have r: "ran (m(p := None)) = A - {i}" by blast
  have "inj_on (m(p := None)) (dom (m(p := None)))"
  proof (rule inj_onI)
    fix x y assume a: "x \<in> dom (m(p := None))" "(m(p := None)) x = (m(p := None)) y"
    then obtain j where j: "(m(p := None)) x = Some j" "(m(p := None)) y = Some j" unfolding dom_def by auto
    then show "x = y" unfolding drop_Some by (blast intro: owned_inj [OF assms(1)])
  qed
  with r show ?thesis unfolding owned_def by (intro conjI)
qed
lemma owned_move:
  assumes "owned m A" "m p = Some i" "m q = None"
  shows "owned (m(p := None, q \<mapsto> i)) A"
proof -
  have "q \<noteq> p" using assms(2,3) by auto
  then have "owned (m(p := None, q \<mapsto> i)) (insert i (A - {i}))"
    using owned_take [OF owned_drop [OF assms(1,2)], of q i] assms(3) by simp
  moreover have "insert i (A - {i}) = A" using ownedD [OF assms(1,2)] by blast
  ultimately show ?thesis by simp
qed

section \<open>Moves of one slot\<close>

lemma inventory_claim:
  assumes "inventory B S V Q L R u n" "i \<in> B" "L p = None"
  shows "inventory (B - {i}) (S[i := borrowed]) V Q (L(p \<mapsto> i)) R u n"
proof -
  have i: "i \<in> slots idle S" using assms by (simp add: inventory_def)
  have "owned (L(p \<mapsto> i)) (insert i (slots borrowed S))"
    using assms slots_other [OF i] by (intro owned_take) (simp_all add: inventory_def)
  then show ?thesis using assms card_slots_move [OF i] by (simp add: inventory_def slots_move [OF i])
qed

lemma inventory_publish:
  assumes "inventory B S V Q L R u n" "L p = Some i"
  shows "inventory (insert i B) (S[i := idle]) V Q (L(p := None)) R u n"
proof -
  have o: "owned L (slots borrowed S)" using assms by (simp add: inventory_def)
  note i = ownedD [OF o assms(2)]
  show ?thesis using assms card_slots_move [OF i] owned_drop [OF o assms(2)] by (simp add: inventory_def slots_move [OF i])
qed

lemma inventory_quarantine:
  assumes "inventory B S V Q L R u n" "L p = Some i"
  shows "inventory B (S[i := quarantined]) V (Q @ [i]) (L(p := None)) R (u - 1) n"
proof -
  have o: "owned L (slots borrowed S)" using assms by (simp add: inventory_def)
  note i = ownedD [OF o assms(2)]
  show ?thesis using assms card_slots_move [OF i] owned_drop [OF o assms(2)] slots_other [OF i]
    by (simp add: inventory_def slots_move [OF i])
qed

lemma inventory_sweep:
  assumes "inventory B S V Q L R u n" "i \<in> B"
  shows "inventory (B - {i}) (S[i := quarantined]) V (Q @ [i]) L R (u - 1) n"
proof -
  have i: "i \<in> slots idle S" using assms by (simp add: inventory_def)
  show ?thesis using assms card_slots_move [OF i] slots_other [OF i] by (simp add: inventory_def slots_move [OF i])
qed

lemma inventory_assign:
  "inventory B S V Q L R u n \<Longrightarrow> L p = Some i \<Longrightarrow> L q = None \<Longrightarrow> inventory B S V Q (L(p := None, q \<mapsto> i)) R u n"
  using owned_move [of L "slots borrowed S" p i q] by (simp add: inventory_def)

lemma inventory_reserve:
  assumes "inventory B S (V @ [i]) Q L R u n" "R p = None"
  shows "inventory B (S[i := reserved]) V Q L (R(p \<mapsto> i)) u (n + 1)"
proof -
  have i: "i \<in> slots vacant S" using assms by (auto simp: inventory_def)
  have o: "owned (R(p \<mapsto> i)) (insert i (slots reserved S))"
    using assms slots_other [OF i] by (intro owned_take) (simp_all add: inventory_def)
  have "set V = slots vacant S - {i}" using assms(1) unfolding inventory_def by auto
  then show ?thesis using assms o card_slots_move [OF i] by (simp add: inventory_def slots_move [OF i])
qed

lemma inventory_take_quarantined:
  assumes "inventory B S V (Q @ [i]) L R u n" "R p = None"
  shows "inventory B (S[i := reserved]) V Q L (R(p \<mapsto> i)) u (n + 1)"
proof -
  have i: "i \<in> slots quarantined S" using assms by (auto simp: inventory_def)
  have o: "owned (R(p \<mapsto> i)) (insert i (slots reserved S))"
    using assms slots_other [OF i] by (intro owned_take) (simp_all add: inventory_def)
  have "set Q = slots quarantined S - {i}" using assms(1) unfolding inventory_def by auto
  then show ?thesis using assms o card_slots_move [OF i] by (simp add: inventory_def slots_move [OF i])
qed

lemma inventory_publish_reserved:
  assumes "inventory B S V Q L R u n" "R p = Some i" "L p = None"
  shows "inventory B (S[i := borrowed]) V Q (L(p \<mapsto> i)) (R(p := None)) (u + 1) (n - 1)"
proof -
  have o: "owned R (slots reserved S)" using assms by (simp add: inventory_def)
  note i = ownedD [OF o assms(2)]
  have "owned (L(p \<mapsto> i)) (insert i (slots borrowed S))"
    using assms slots_other [OF i] by (intro owned_take) (simp_all add: inventory_def)
  then show ?thesis using assms card_slots_move [OF i] owned_drop [OF o assms(2)] by (simp add: inventory_def slots_move [OF i])
qed

lemma inventory_rollback:
  assumes "inventory B S V Q L R u n" "R p = Some i"
  shows "inventory B (S[i := vacant]) (V @ [i]) Q L (R(p := None)) u (n - 1)"
proof -
  have o: "owned R (slots reserved S)" using assms by (simp add: inventory_def)
  note i = ownedD [OF o assms(2)]
  show ?thesis using assms card_slots_move [OF i] owned_drop [OF o assms(2)] slots_other [OF i]
    by (simp add: inventory_def slots_move [OF i])
qed

lemma inventory_take_idle:
  assumes "inventory B S V Q L R u n" "L p = Some i" "R p = None"
  shows "inventory B (S[i := reserved]) V Q (L(p := None)) (R(p \<mapsto> i)) (u - 1) (n + 1)"
proof -
  have o: "owned L (slots borrowed S)" using assms by (simp add: inventory_def)
  note i = ownedD [OF o assms(2)]
  have "owned (R(p \<mapsto> i)) (insert i (slots reserved S))"
    using assms slots_other [OF i] by (intro owned_take) (simp_all add: inventory_def)
  then show ?thesis using assms card_slots_move [OF i] owned_drop [OF o assms(2)] by (simp add: inventory_def slots_move [OF i])
qed

section \<open>The inventory is kept\<close>

lemma go_simps [simp]:
  "words (go p pc s) = words s" "states (go p pc s) = states s" "vacant_slots (go p pc s) = vacant_slots s"
  "quarantined_slots (go p pc s) = quarantined_slots s" "mutex (go p pc s) = mutex s" "waiters (go p pc s) = waiters s"
  "waiter_gate (go p pc s) = waiter_gate s" "usable_size (go p pc s) = usable_size s"
  "reserved_count (go p pc s) = reserved_count s" "closed (go p pc s) = closed s" "pcs (go p pc s) = (pcs s)(p := pc)"
  by (simp_all add: go_def)

lemma inventory_of_simps [simp]:
  "inventory_of (unlock s) = inventory_of s" "inventory_of (s\<lparr>mutex := x\<rparr>) = inventory_of s"
  "inventory_of (s\<lparr>closed := c\<rparr>) = inventory_of s"
  "inventory_of (s\<lparr>waiters := ws\<rparr>) = inventory_of s" "inventory_of (s\<lparr>waiter_gate := g\<rparr>) = inventory_of s"
  "inventory_of (s\<lparr>mutex := x, waiter_gate := g\<rparr>) = inventory_of s"
  by (simp_all add: inventory_of_def unlock_def)

lemma go_commute:
  "go p pc (s\<lparr>waiters := ws\<rparr>) = (go p pc s)\<lparr>waiters := ws\<rparr>"
  "go p pc (s\<lparr>waiter_gate := g\<rparr>) = (go p pc s)\<lparr>waiter_gate := g\<rparr>"
  "go p pc (s\<lparr>waiters := ws, waiter_gate := g\<rparr>) = (go p pc s)\<lparr>waiters := ws\<rparr>\<lparr>waiter_gate := g\<rparr>"
  by (simp_all add: go_def)

lemma inventory_ofD:
  "inventory_of s \<Longrightarrow> inventory (bits (words s)) (states s) (vacant_slots s) (quarantined_slots s)
     (lends \<circ> pcs s) (reserves \<circ> pcs s) (usable_size s) (reserved_count s)"
  by (simp add: inventory_of_def)

lemma inv_go:
  assumes "inventory_of s" "lends pc = lends (pcs s p)" "reserves pc = reserves (pcs s p)"
  shows "inventory_of (go p pc s)"
proof -
  have "(lends \<circ> pcs s)(p := lends pc) = lends \<circ> pcs s" "(reserves \<circ> pcs s)(p := reserves pc) = reserves \<circ> pcs s"
    using assms(2,3) by auto
  then show ?thesis using assms(1) by (simp add: inventory_of_def comp_upd)
qed

lemma upd_None: "reserves (pcs s p) = None \<Longrightarrow> (reserves \<circ> pcs s)(p := None) = reserves \<circ> pcs s"
  by (simp add: fun_upd_idem)

lemma inv_claim:
  assumes "inventory_of s" "w < length (words s)" "words s ! w \<noteq> 0" "lends (pcs s p) = None" "reserves (pcs s p) = None"
    "lends pc = Some (claim_index w s)" "reserves pc = None"
  shows "inventory_of (go p pc (claim_bit w s))"
proof -
  note b = bits_claim [OF assms(2,3)]
  have "(lends \<circ> pcs s) p = None" "(reserves \<circ> pcs s) p = None" using assms(4,5) by simp_all
  note c = inventory_claim [OF inventory_ofD [OF assms(1)] b(2), OF this(1)] and r = upd_None [of s p]
  show ?thesis using assms(1,5,6,7) c b(1)
    by (simp add: inventory_of_def comp_upd) (simp add: claim_bit_def set_state_def r)
qed

lemma lend_bound:
  assumes "inventory_of s" "lends (pcs s p) = Some i"
  shows "i < length (states s)" "i div 64 < length (words s)"
proof -
  have "i \<in> slots borrowed (states s)"
    using assms ownedD [of "lends \<circ> pcs s" "slots borrowed (states s)" p i] by (simp add: inventory_of_def inventory_def)
  then show "i < length (states s)" by (simp add: slots_def)
  moreover have "length (states s) \<le> 64 * length (words s)" using assms(1) by (simp add: inventory_of_def)
  ultimately show "i div 64 < length (words s)" by (simp add: div_less_iff_less_mult ac_simps)
qed

lemma inv_publish:
  assumes "inventory_of s" "lends (pcs s p) = Some i" "reserves (pcs s p) = None" "lends pc = None" "reserves pc = None"
  shows "inventory_of (go p pc (publish_bit i (set_state i idle s)))"
proof -
  have "(lends \<circ> pcs s) p = Some i" "(reserves \<circ> pcs s) p = None" using assms(2,3) by simp_all
  note c = inventory_publish [OF inventory_ofD [OF assms(1)], OF this(1)] and r = upd_None [of s p]
  show ?thesis using assms(1,3,4,5) c bits_publish [OF lend_bound(2) [OF assms(1,2)]]
    by (simp add: inventory_of_def comp_upd) (simp add: publish_bit_def set_state_def r)
qed

lemma inv_quarantine:
  assumes "inventory_of s" "lends (pcs s p) = Some i" "reserves (pcs s p) = None" "lends pc = None" "reserves pc = None"
  shows "inventory_of (go p pc (quarantine_borrowed i s))"
proof -
  have "(lends \<circ> pcs s) p = Some i" "(reserves \<circ> pcs s) p = None" using assms(2,3) by simp_all
  note c = inventory_quarantine [OF inventory_ofD [OF assms(1)], OF this(1)] and r = upd_None [of s p]
  show ?thesis using assms(1,3,4,5) c
    by (simp add: inventory_of_def comp_upd) (simp add: quarantine_borrowed_def set_state_def r)
qed

lemma inv_reclaim:
  assumes "inventory_of s" "has_bit i s" "lends (pcs s p) = None" "reserves (pcs s p) = None" "lends pc = Some i"
    "reserves pc = None"
  shows "inventory_of (go p pc (reclaim_idle i s))"
proof -
  have "(lends \<circ> pcs s) p = None" "(reserves \<circ> pcs s) p = None" using assms(3,4) by simp_all
  note c = inventory_claim [OF inventory_ofD [OF assms(1)] assms(2) [unfolded has_bit_bits], OF this(1)] and r = upd_None [of s p]
  show ?thesis using assms(1,4,5,6) c bits_reclaim [of "words s" i]
    by (simp add: inventory_of_def comp_upd) (simp add: reclaim_idle_def set_state_def r)
qed

lemma inv_assign:
  assumes "inventory_of s" "lends (pcs s p) = Some i" "reserves (pcs s p) = None" "lends (pcs s q) = None"
    "reserves (pcs s q) = None" "lends pc = None" "reserves pc = None"
  shows "inventory_of (go p pc (unlink_waiter q (assigned i) s))"
proof -
  have "(lends \<circ> pcs s) p = Some i" "(lends \<circ> pcs s) q = None" "(reserves \<circ> pcs s) p = None" "(reserves \<circ> pcs s) q = None"
    using assms(2-5) by simp_all
  note c = inventory_assign [OF inventory_ofD [OF assms(1)], OF this(1,2)] and r = upd_None [of s p] upd_None [of s q]
  have "q \<noteq> p" using assms(2,4) by auto
  then show ?thesis using assms(1,3,5,6,7) c
    by (simp add: inventory_of_def comp_upd r unlink_waiter_def fun_upd_twist [of q p])
qed

lemma inv_unlink:
  assumes "inventory_of s" "lends (pcs s q) = None" "reserves (pcs s q) = None" "\<And>i. st \<noteq> assigned i"
  shows "inventory_of (unlink_waiter q st s)"
proof -
  have "lends (Parked st) = None" using assms(4) by (cases st) auto
  then show ?thesis using assms(1-3) by (simp add: unlink_waiter_def go_commute inv_go)
qed

lemma inv_take_idle:
  assumes "inventory_of s" "lends (pcs s p) = Some i" "reserves (pcs s p) = None"
  shows "inventory_of (go p (Reserved i c)
    (set_state i reserved (s\<lparr>usable_size := usable_size s - 1, reserved_count := reserved_count s + 1\<rparr>)))"
proof -
  have "(lends \<circ> pcs s) p = Some i" "(reserves \<circ> pcs s) p = None" using assms(2,3) by simp_all
  note c = inventory_take_idle [OF inventory_ofD [OF assms(1)], OF this]
  show ?thesis using assms(1) c
    by (simp add: inventory_of_def comp_upd set_state_def)
qed

lemma inv_sweep:
  assumes "inventory_of s" "w < length (words s)"
  shows "inventory_of (fold quarantine_borrowed (word_slots w s) (s\<lparr>words := (words s)[w := 0]\<rparr>))"
proof -
  let ?inv = "\<lambda>B s. inventory B (states s) (vacant_slots s) (quarantined_slots s) (lends \<circ> pcs s) (reserves \<circ> pcs s)
    (usable_size s) (reserved_count s)"
  have step: "?inv (B - {i}) (quarantine_borrowed i t)" if "?inv B t" "i \<in> B" for B i and t :: "'a Pool"
    using inventory_sweep [OF that] by (simp add: quarantine_borrowed_def set_state_def)
  have F: "?inv (B - set xs) (fold quarantine_borrowed xs t)" if "?inv B t" "set xs \<subseteq> B" "distinct xs" for B xs and t :: "'a Pool"
    using that
  proof (induction xs arbitrary: B t)
    case (Cons i xs)
    have "?inv (B - {i} - set xs) (fold quarantine_borrowed xs (quarantine_borrowed i t))"
      by (rule Cons.IH, rule step [OF Cons.prems(1)]) (use Cons.prems(2,3) in auto)
    moreover have "B - {i} - set xs = B - set (i # xs)" by auto
    ultimately show ?case by (simp only: fold.simps comp_def)
  qed simp
  have "?inv (bits (words s)) (s\<lparr>words := (words s)[w := 0]\<rparr>)" using assms(1) by (simp add: inventory_of_def)
  then have "?inv (bits (words s) - set (word_slots w s)) (fold quarantine_borrowed (word_slots w s) (s\<lparr>words := (words s)[w := 0]\<rparr>))"
    by (rule F) (use word_slots_set [OF assms(2)] in auto)
  moreover have "bits (words s) - set (word_slots w s) = bits ((words s)[w := 0])"
    using word_slots_set [OF assms(2)] bits_sweep [OF assms(2)] by auto
  moreover have "words (fold quarantine_borrowed xs t) = words t" "length (states (fold quarantine_borrowed xs t)) = length (states t)"
    for xs and t :: "'a Pool" by (induction xs arbitrary: t) (simp_all add: quarantine_borrowed_def set_state_def)
  ultimately show ?thesis using assms(1) by (simp add: inventory_of_def)
qed

lemma sweep_simps:
  "words (fold quarantine_borrowed xs s) = words s" "pcs (fold quarantine_borrowed xs s) = pcs s"
  "mutex (fold quarantine_borrowed xs s) = mutex s" "waiters (fold quarantine_borrowed xs s) = waiters s"
  "waiter_gate (fold quarantine_borrowed xs s) = waiter_gate s" "closed (fold quarantine_borrowed xs s) = closed s"
  by (induction xs arbitrary: s) (simp_all add: quarantine_borrowed_def set_state_def)

text \<open>A queued waiter owns nothing. The full claim about the queue comes below.\<close>

definition waiters_parked :: "'p Pool \<Rightarrow> bool" where
  "waiters_parked s \<longleftrightarrow> distinct (waiters s) \<and> set (waiters s) = {q. pcs s q = Parked queued}"

lemma waiter_head:
  "waiters_parked s \<Longrightarrow> waiters s = q # qs \<Longrightarrow> pcs s q = Parked queued"
  by (auto simp: waiters_parked_def)

lemma inv_handoff:
  assumes "inventory_of s" "waiters_parked s" "pcs s p = Handoff serving i"
  shows "inventory_of (handoff_or_publish_locked p serving i ex s)"
proof (cases "closed s \<or> waiters s = []")
  case True
  then show ?thesis using assms inv_quarantine [OF assms(1), of p i] inv_publish [OF assms(1), of p i]
    by (auto simp: handoff_or_publish_locked_def handoff_done_def)
next
  case False
  then obtain q qs where q: "\<not> closed s" "waiters s = q # qs" by (cases "waiters s") auto
  note h = waiter_head [OF assms(2) q(2)]
  show ?thesis using assms(1,3) q h by (simp add: handoff_or_publish_locked_def inv_unlink inv_assign)
qed

lemma inv_park_scan:
  assumes "inventory_of s" "pcs s p = ParkScan w"
  shows "inventory_of (park_scan p w ex s)"
proof -
  have "inventory_of (go p (Parked queued) s)" "inventory_of (go p (ParkScan (w + 1)) s)"
    using assms by (simp_all add: inv_go)
  then show ?thesis using assms inv_claim [OF assms(1), of w p] by (simp add: park_scan_def Let_def go_commute)
qed

lemma inv_take_idle_locked:
  assumes "inventory_of s" "pcs s p = Claimed m i"
  shows "inventory_of (take_idle_locked p i s)"
  using assms inv_take_idle [OF assms(1), of p i True] by (simp add: take_idle_locked_def inv_quarantine inv_publish)

lemmas code_points = claim_scan_def claimed_slot_def park_def parked_def handoff_or_publish_def release_gate_def
  release_pub_def published_slot_def published_gate_def reclaim_def serve_waiters_locked_def serve_scan_def sweep_def
  shutdown_waiters_def locked_def

lemma inv_advance:
  assumes "inventory_of s" "waiters_parked s" "advance p ex s = Some s'"
  shows "inventory_of s'"
proof (cases "pcs s p")
  case (Handoff serving i)
  then show ?thesis using assms by (auto simp: advance_def locked_def inv_handoff split: if_splits)
next
  case (ParkScan w)
  then show ?thesis using assms by (auto simp: advance_def inv_park_scan)
next
  case (Claimed m i)
  then show ?thesis using assms
    by (auto simp: advance_def claimed_slot_def inv_take_idle_locked inv_go split: if_splits)
next
  case (Sweep w)
  then show ?thesis using assms inv_sweep [OF assms(1), of w]
    by (auto simp: advance_def sweep_def sweep_simps inv_go split: if_splits)
next
  case Abort
  then show ?thesis using assms waiter_head [OF assms(2)]
    by (auto simp: advance_def shutdown_waiters_def locked_def inv_go inv_unlink split: if_splits list.splits)
next
  case (Scan m w)
  then show ?thesis using assms by (auto simp: advance_def claim_scan_def inv_go inv_claim split: if_splits)
next
  case (ServeScan w)
  then show ?thesis using assms by (auto simp: advance_def serve_scan_def inv_go inv_claim split: if_splits)
next
  case (Parked st)
  then show ?thesis using assms by (auto simp: advance_def parked_def inv_go split: WaiterState.splits)
qed (use assms in \<open>auto simp: advance_def code_points inv_go inv_publish inv_quarantine inv_reclaim split: if_splits\<close>)

lemma inv_reserve:
  assumes "inventory_of s" "pcs s p = Away"
  shows "inventory_of (try_reserve p s)" "inventory_of (try_take_quarantined p s)"
proof -
  have n: "(reserves \<circ> pcs s) p = None" "lends (pcs s p) = None" using assms(2) by simp_all
  have l: "(lends \<circ> pcs s)(p := None) = lends \<circ> pcs s" using n(2) by (simp add: fun_upd_idem)
  show "inventory_of (try_reserve p s)"
  proof (cases "vacant_slots s" rule: rev_cases)
    case (snoc V i)
    show ?thesis using assms(1) inventory_reserve [OF inventory_ofD [OF assms(1), unfolded snoc], OF n(1)] l
      by (simp add: try_reserve_def inventory_of_def comp_upd set_state_def snoc)
  qed (simp add: try_reserve_def assms(1))
  show "inventory_of (try_take_quarantined p s)"
  proof (cases "quarantined_slots s" rule: rev_cases)
    case (snoc Q i)
    show ?thesis using assms(1) inventory_take_quarantined [OF inventory_ofD [OF assms(1), unfolded snoc], OF n(1)] l
      by (simp add: try_take_quarantined_def inventory_of_def comp_upd set_state_def snoc)
  qed (simp add: try_take_quarantined_def assms(1))
qed

lemma inv_reserved:
  assumes "inventory_of s" "pcs s p = Reserved i c"
  shows "inventory_of (publish_reserved p i s)" "inventory_of (rollback p i s)"
proof -
  have n: "(reserves \<circ> pcs s) p = Some i" "(lends \<circ> pcs s) p = None" using assms(2) by simp_all
  have l: "(lends \<circ> pcs s)(p := None) = lends \<circ> pcs s" using n(2) by (simp add: fun_upd_idem)
  show "inventory_of (publish_reserved p i s)"
    using assms(1) inventory_publish_reserved [OF inventory_ofD [OF assms(1)], OF n]
    by (simp add: publish_reserved_def) (simp add: inventory_of_def comp_upd set_state_def)
  show "inventory_of (rollback p i s)"
    using assms(1) inventory_rollback [OF inventory_ofD [OF assms(1)], OF n(1)] l
    by (simp add: rollback_def inventory_of_def comp_upd set_state_def)
qed

lemma inv_step:
  "arena_step s s' \<Longrightarrow> inventory_of s \<Longrightarrow> waiters_parked s \<Longrightarrow> inventory_of s'"
proof (induction rule: arena_step.induct)
  case (step_give_up s p st)
  then show ?case by (auto simp: inv_unlink)
qed (auto simp: inv_advance inv_reserve inv_reserved start_acquire_def shutdown_def inv_go)

lemma inv_new: "inventory_of (new_arena capacity :: 'p Pool)"
proof -
  have "capacity \<le> 64 * (capacity div 64 + (if capacity mod 64 \<noteq> 0 then 1 else 0))"
    by simp presburger
  moreover have "bits (replicate n 0) = {}" for n by (auto simp: bits_def)
  moreover have "lends \<circ> (\<lambda>_ :: 'p. Away) = (\<lambda>_. None)" "reserves \<circ> (\<lambda>_ :: 'p. Away) = (\<lambda>_. None)" by auto
  moreover have "slots st (replicate capacity vacant) = (if st = vacant then {..<capacity} else {})" for st
    by (auto simp: slots_def)
  ultimately show ?thesis by (auto simp: inventory_of_def inventory_def new_arena_def owned_def)
qed

section \<open>The mutex, the queue and the gate\<close>

fun scanning :: "pool_pc \<Rightarrow> bool" where
  "scanning (ParkScan _) = True"
| "scanning (ServeScan _) = True"
| "scanning (Sweep _) = True"
| "scanning _ = False"

fun critical :: "pool_pc \<Rightarrow> bool" where
  "critical (Handoff _ _) = True"
| "critical Serve = True"
| "critical Abort = True"
| "critical pc = scanning pc"

fun arriving :: "pool_pc \<Rightarrow> bool" where
  "arriving (ParkScan _) = True"
| "arriving _ = False"

fun open_only :: "pool_pc \<Rightarrow> bool" where
  "open_only (ParkScan _) = True"
| "open_only (ServeScan _) = True"
| "open_only _ = False"

fun closing :: "pool_pc \<Rightarrow> bool" where
  "closing (Sweep _) = True"
| "closing Abort = True"
| "closing _ = False"

definition arrivals :: "'p Pool \<Rightarrow> nat" where
  "arrivals s = (case mutex s of None \<Rightarrow> 0 | Some p \<Rightarrow> if arriving (pcs s p) then 1 else 0)"

definition serialised :: "'p Pool \<Rightarrow> bool" where
  "serialised s \<longleftrightarrow> waiters_parked s \<and> (\<forall>p. scanning (pcs s p) \<longrightarrow> mutex s = Some p)
     \<and> (\<forall>p. mutex s = Some p \<longrightarrow> critical (pcs s p)) \<and> (\<forall>p. open_only (pcs s p) \<longrightarrow> \<not> closed s)
     \<and> (\<forall>p. closing (pcs s p) \<longrightarrow> closed s) \<and> waiter_gate s = length (waiters s) + arrivals s"

lemma frame_simps [simp]:
  "words (unlock s) = words s" "mutex (unlock s) = None" "pcs (unlock s) = pcs s" "closed (unlock s) = closed s" "waiters (unlock s) = waiters s"
  "waiter_gate (unlock s) = waiter_gate s"
  "mutex (set_state i st s) = mutex s" "pcs (set_state i st s) = pcs s" "closed (set_state i st s) = closed s"
  "waiters (set_state i st s) = waiters s" "waiter_gate (set_state i st s) = waiter_gate s"
  "mutex (claim_bit w s) = mutex s" "pcs (claim_bit w s) = pcs s" "closed (claim_bit w s) = closed s"
  "waiters (claim_bit w s) = waiters s" "waiter_gate (claim_bit w s) = waiter_gate s"
  "mutex (publish_bit i s) = mutex s" "pcs (publish_bit i s) = pcs s" "closed (publish_bit i s) = closed s"
  "waiters (publish_bit i s) = waiters s" "waiter_gate (publish_bit i s) = waiter_gate s"
  "mutex (reclaim_idle i s) = mutex s" "pcs (reclaim_idle i s) = pcs s" "closed (reclaim_idle i s) = closed s"
  "waiters (reclaim_idle i s) = waiters s" "waiter_gate (reclaim_idle i s) = waiter_gate s"
  "mutex (quarantine_borrowed i s) = mutex s" "pcs (quarantine_borrowed i s) = pcs s"
  "closed (quarantine_borrowed i s) = closed s" "waiters (quarantine_borrowed i s) = waiters s"
  "waiter_gate (quarantine_borrowed i s) = waiter_gate s"
  by (simp_all add: unlock_def set_state_def claim_bit_def publish_bit_def reclaim_idle_def quarantine_borrowed_def)

lemma arrivals_simps:
  "mutex s = None \<Longrightarrow> arrivals s = 0" "mutex s = Some p \<Longrightarrow> arrivals s = (if arriving (pcs s p) then 1 else 0)"
  by (simp_all add: arrivals_def)

lemma serialisedD:
  assumes "serialised s"
  shows "scanning (pcs s p) \<Longrightarrow> mutex s = Some p" "mutex s = Some p \<Longrightarrow> critical (pcs s p)"
    "open_only (pcs s p) \<Longrightarrow> \<not> closed s" "closing (pcs s p) \<Longrightarrow> closed s" "waiters_parked s"
    "waiter_gate s = length (waiters s) + arrivals s"
  using assms unfolding serialised_def by blast+

text \<open>A step outside the critical sections.\<close>

lemma ser_plain:
  assumes "serialised s" "pcs s' = (pcs s)(p := pc)" "mutex s' = mutex s" "waiters s' = waiters s" "closed s' = closed s"
    "waiter_gate s' = waiter_gate s" "pcs s p \<noteq> Parked queued" "pc \<noteq> Parked queued" "critical (pcs s p) \<longrightarrow> critical pc"
    "\<not> arriving (pcs s p)" "\<not> scanning pc" "closing pc \<longrightarrow> closed s"
  shows "serialised s'"
proof -
  have "\<not> open_only pc" "\<not> arriving pc" using assms(11) by (cases pc; simp)+
  moreover have "waiters_parked s'" using assms by (auto simp: serialised_def waiters_parked_def)
  moreover have "arrivals s' = arrivals s" using assms \<open>\<not> arriving pc\<close> by (auto simp: arrivals_def split: option.splits)
  ultimately show ?thesis using assms by (auto simp: serialised_def)
qed

text \<open>A section under the mutex that leaves the queue alone.\<close>

lemma ser_locked:
  assumes "serialised s" "can_lock p s" "pcs s' = (pcs s)(p := pc)" "mutex s' = None \<and> \<not> scanning pc \<or> mutex s' = Some p \<and> critical pc"
    "waiters s' = waiters s" "closed s' = closed s"
    "waiter_gate s' + (if arriving (pcs s p) then 1 else 0) = waiter_gate s + (if arriving pc then 1 else 0)"
    "pcs s p \<noteq> Parked queued" "pc \<noteq> Parked queued" "open_only pc \<longrightarrow> \<not> closed s" "closing pc \<longrightarrow> closed s"
  shows "serialised s'"
proof -
  have ap: "arriving pc' \<Longrightarrow> scanning pc'" for pc' by (cases pc') simp_all
  have q: "\<not> scanning (pcs s q)" if "q \<noteq> p" for q
    using assms(1,2) that by (auto simp: serialised_def can_lock_def)
  have "waiters_parked s'" using assms by (auto simp: serialised_def waiters_parked_def)
  moreover have "arrivals s = (if arriving (pcs s p) then 1 else 0)"
    using assms(1,2) ap [of "pcs s p"] by (auto simp: arrivals_def can_lock_def serialised_def split: option.splits)
  moreover have "arrivals s' = (if arriving pc then 1 else 0)"
    using assms(3,4) ap [of pc] by (auto simp: arrivals_def)
  ultimately show ?thesis using assms q by (auto simp: serialised_def)
qed

text \<open>Taking a waiter out of the queue.\<close>

lemma ser_unlink:
  assumes "serialised s" "can_lock p s" "\<not> scanning (pcs s p)" "pcs s q = Parked queued" "st \<noteq> queued"
  shows "serialised (unlock (unlink_waiter q st s))"
proof -
  have n: "\<not> scanning (pcs s r)" for r
    using assms(1-3) by (cases "r = p") (auto simp: serialised_def can_lock_def)
  then have "arrivals s = 0" using assms(1) by (auto simp: arrivals_def split: option.splits) (metis arriving.elims(2) scanning.simps(1))
  moreover have "q \<in> set (waiters s)" "distinct (waiters s)" "set (waiters s) = {q. pcs s q = Parked queued}"
    using assms(1,4) by (auto simp: serialised_def waiters_parked_def)
  moreover from this have "length (waiters s) > 0" by (cases "waiters s") auto
  ultimately show ?thesis using assms n
    by (auto simp: serialised_def waiters_parked_def arrivals_def unlink_waiter_def length_remove1)
qed

lemma ser_handoff:
  assumes "serialised s" "can_lock p s" "pcs s p = Handoff serving i"
  shows "serialised (handoff_or_publish_locked p serving i ex s)"
proof (cases "closed s \<or> waiters s = []")
  case True
  then show ?thesis using assms
    by (intro ser_locked [OF assms(1,2), of _ "if serving then Serve else Away"])
      (auto simp: handoff_or_publish_locked_def handoff_done_def)
next
  case False
  then obtain q qs where q: "\<not> closed s" "waiters s = q # qs" by (cases "waiters s") auto
  have h: "pcs s q = Parked queued" using waiter_head q assms(1) by (auto simp: serialised_def)
  have u: "serialised (unlock (unlink_waiter q st s))" if "st \<noteq> queued" for st
    using ser_unlink [OF assms(1,2) _ h that] assms(3) by simp
  have "serialised (unlock (go p (if serving then Serve else Away) (unlink_waiter q (assigned i) s)))"
    by (rule ser_locked [OF u [of "assigned i"], of p _ "if serving then Serve else Away"])
      (use assms(3) h in \<open>auto simp: can_lock_def unlink_waiter_def\<close>)
  then show ?thesis using q u [of timeout] by (simp add: handoff_or_publish_locked_def)
qed

lemma ser_park_scan:
  assumes "serialised s" "pcs s p = ParkScan w"
  shows "serialised (park_scan p w ex s)"
proof -
  have m: "can_lock p s" "mutex s = Some p" using assms by (auto simp: serialised_def can_lock_def)
  have g: "waiter_gate s = length (waiters s) + 1" using assms m by (simp add: serialised_def arrivals_def)
  have "\<not> closed s" using serialisedD(3) [OF assms(1), of p] assms(2) by simp
  have "\<not> scanning (pcs s q)" if "q \<noteq> p" for q using assms(1) m that by (auto simp: serialised_def)
  then have "serialised (unlock (go p (Parked queued) (s\<lparr>waiters := waiters s @ [p]\<rparr>)))"
    using assms g by (auto simp: serialised_def waiters_parked_def arrivals_def)
  moreover have "serialised (go p (ParkScan (w + 1)) s)"
    by (rule ser_locked [OF assms(1) m(1)]) (use assms m \<open>\<not> closed s\<close> in auto)
  moreover have "serialised (go p (Handoff False i) (claim_bit w s\<lparr>waiter_gate := waiter_gate s - 1\<rparr>))"
    "serialised (unlock (go p (Holding i) (claim_bit w s\<lparr>waiter_gate := waiter_gate s - 1\<rparr>)))" for i
    by (rule ser_locked [OF assms(1) m(1), where pc = "Handoff False i"], (use assms m g in simp_all)[9],
      rule ser_locked [OF assms(1) m(1), where pc = "Holding i"], (use assms m g in simp_all)[9])
  ultimately show ?thesis by (simp add: park_scan_def Let_def)
qed

lemma ser_advance:
  assumes "serialised s" "advance p ex s = Some s'"
  shows "serialised s'"
proof (cases "pcs s p")
  case (Handoff serving i)
  then show ?thesis using assms by (auto simp: advance_def locked_def ser_handoff split: if_splits)
next
  case (ParkScan w)
  then show ?thesis using assms by (auto simp: advance_def ser_park_scan)
next
  case Park
  then show ?thesis using assms
    by (auto simp: advance_def locked_def park_def split: if_splits intro: ser_locked [OF assms(1), of p])
next
  case (Claimed m i)
  then show ?thesis using assms
    by (auto simp: advance_def claimed_slot_def take_idle_locked_def split: if_splits
      intro: ser_locked [OF assms(1), of p] ser_plain [OF assms(1), of _ p])
next
  case Serve
  then show ?thesis using assms
    by (auto simp: advance_def locked_def serve_waiters_locked_def split: if_splits intro: ser_locked [OF assms(1), of p])
next
  case (ServeScan w)
  then have "can_lock p s" "mutex s = Some p" "\<not> closed s" using serialisedD(1,3) [OF assms(1), of p] by (simp_all add: can_lock_def)
  then show ?thesis using assms ServeScan
    by (auto simp: advance_def serve_scan_def split: if_splits intro: ser_locked [OF assms(1), of p])
next
  case (Sweep w)
  then have "can_lock p s" "mutex s = Some p" "closed s" using serialisedD(1,4) [OF assms(1), of p] by (simp_all add: can_lock_def)
  then show ?thesis using assms Sweep
    by (auto simp: advance_def sweep_def sweep_simps split: if_splits intro: ser_locked [OF assms(1), of p])
next
  case Abort
  then show ?thesis using assms waiter_head [OF serialisedD(5) [OF assms(1)]]
    by (auto simp: advance_def shutdown_waiters_def locked_def split: if_splits list.splits intro: ser_unlink [OF assms(1), of p]
      ser_locked [OF assms(1), of p])
next
  case (Quarantining i)
  then show ?thesis using assms
    by (auto simp: advance_def locked_def split: if_splits intro: ser_plain [OF assms(1), of _ p])
next
  case (Parked st)
  then show ?thesis using assms
    by (auto simp: advance_def parked_def split: WaiterState.splits intro: ser_plain [OF assms(1), of _ p])
qed (use assms in \<open>auto simp: advance_def code_points split: if_splits intro: ser_plain [OF assms(1), of _ p]\<close>)

lemma ser_step: "arena_step s s' \<Longrightarrow> serialised s \<Longrightarrow> serialised s'"
proof (induction rule: arena_step.induct)
  case (step_advance p ex s s')
  then show ?case by (blast intro: ser_advance)
next
  case (step_give_up s p st)
  then have "serialised (unlock (unlink_waiter p st s))" by (intro ser_unlink [of s p]) (auto simp: can_lock_def)
  moreover have "unlock (unlink_waiter p st s) = unlink_waiter p st s"
    using step_give_up(2) by (simp add: unlink_waiter_def unlock_def)
  ultimately show ?case by simp
next
  case (step_shutdown s p)
  have "\<not> open_only (pcs s q)" for q
    using serialisedD(1) [OF step_shutdown(3), of q] step_shutdown(2) by (cases "pcs s q") simp_all
  moreover have "arrivals s = 0" using step_shutdown(2) by (simp add: arrivals_def)
  ultimately show ?case using step_shutdown unfolding shutdown_def
    by (auto simp: serialised_def waiters_parked_def arrivals_def)
qed (auto simp: start_acquire_def try_reserve_def try_take_quarantined_def publish_reserved_def rollback_def Let_def can_lock_def
  intro: ser_plain ser_locked)

end
