(* ===== verification/Starling_Pool_Wakeup.thy ===== *)
theory Starling_Pool_Wakeup
  imports Starling_Pool_Safety
begin

text \<open>
  No lost wake-up in the object pool. A client that publishes a free object looks at the gate afterwards, and a client
  that wants to wait opens the gate before it looks at the words once more. So no free object is left over while somebody
  waits, unless some client is about to serve the queue; and after a shutdown no object is left on the words and nobody
  in the queue.
\<close>

section \<open>Nobody waits for a free object\<close>

lemma words_simps [simp]:
  "words (set_state i st s) = words s" "words (quarantine_borrowed i s) = words s"
  by (simp_all add: set_state_def quarantine_borrowed_def)

fun helps :: "pool_pc \<Rightarrow> nat \<Rightarrow> bool" where
  "helps (Published _) i = True"
| "helps Published_gate i = True"
| "helps Serve i = True"
| "helps (Handoff True _) i = True"
| "helps (ServeScan w) i = (w \<le> i div 64)"
| "helps _ i = False"

fun drains :: "pool_pc \<Rightarrow> nat \<Rightarrow> bool" where
  "drains (Sweep w) i = (w \<le> i div 64)"
| "drains (Published j) i = (j = i)"
| "drains (Reclaim j) i = (j = i)"
| "drains _ i = False"

definition helped :: "'p Pool \<Rightarrow> nat \<Rightarrow> bool" where
  "helped s i \<longleftrightarrow> (\<exists>q. helps (pcs s q) i)"

definition supplied :: "'p Pool \<Rightarrow> bool" where
  "supplied s \<longleftrightarrow> (\<not> closed s \<longrightarrow>
     (waiters s \<noteq> [] \<longrightarrow> (\<forall>i \<in> bits (words s). helped s i))
     \<and> (\<forall>p w. pcs s p = ParkScan w \<longrightarrow> (\<forall>i \<in> bits (words s). i div 64 < w \<longrightarrow> helped s i)))"

definition drained :: "'p Pool \<Rightarrow> bool" where
  "drained s \<longleftrightarrow> (closed s \<longrightarrow>
     (\<forall>i \<in> bits (words s). \<exists>q. drains (pcs s q) i) \<and> (waiters s \<noteq> [] \<longrightarrow> (\<exists>q. closing (pcs s q))))"

lemma sup_all: "(\<And>i. helps (pcs s p) i) \<Longrightarrow> supplied s"
  by (auto simp: supplied_def helped_def)

lemma sup_idle: "waiters s = [] \<Longrightarrow> (\<And>p w. pcs s p \<noteq> ParkScan w) \<Longrightarrow> supplied s"
  by (simp add: supplied_def)

lemma sup_keep:
  assumes "supplied s" "bits (words s') \<subseteq> bits (words s)" "closed s \<Longrightarrow> closed s'" "waiters s = [] \<Longrightarrow> waiters s' = []"
    "\<And>i. i \<in> bits (words s') \<Longrightarrow> helped s i \<Longrightarrow> helped s' i" "\<And>p w. pcs s' p = ParkScan w \<Longrightarrow> w = 0 \<or> pcs s p = ParkScan w"
  shows "supplied s'"
  unfolding supplied_def
proof (intro impI conjI ballI allI)
  fix i assume "\<not> closed s'" "waiters s' \<noteq> []" "i \<in> bits (words s')"
  then show "helped s' i" using assms(1-5) unfolding supplied_def by blast
next
  fix p w i assume a: "\<not> closed s'" "pcs s' p = ParkScan w" "i \<in> bits (words s')" "i div 64 < w"
  then have "pcs s p = ParkScan w" using assms(6) by (metis not_less_zero)
  then show "helped s' i" using a assms(1-3,5) unfolding supplied_def by blast
qed

lemma helped_keep:
  assumes "pcs s' = (pcs s)(p := pc)" "helps (pcs s p) i \<Longrightarrow> helps pc i" "helped s i"
  shows "helped s' i"
proof -
  obtain q where "helps (pcs s q) i" using assms(3) by (auto simp: helped_def)
  then have "helps (pcs s' q) i" using assms(1,2) by auto
  then show ?thesis by (auto simp: helped_def)
qed

text \<open>A step of one client that publishes nothing.\<close>

lemma sup_go:
  assumes "supplied s" "pcs s' = (pcs s)(p := pc)" "bits (words s') \<subseteq> bits (words s)" "closed s \<longrightarrow> closed s'"
    "waiters s' = waiters s" "\<forall>i \<in> bits (words s'). helps (pcs s p) i \<longrightarrow> helps pc i" "\<forall>w. pc = ParkScan w \<longrightarrow> w = 0"
  shows "supplied s'"
  using assms(4-7) helped_keep [OF assms(2)] by (intro sup_keep [OF assms(1)]) (auto simp: assms(2,3) split: if_splits)

lemma drains_keep:
  assumes "drained s" "pcs s' = (pcs s)(p := pc)" "bits (words s') \<subseteq> bits (words s)" "closed s' \<longrightarrow> closed s"
    "waiters s' = [] \<or> waiters s' = waiters s" "\<forall>i \<in> bits (words s'). drains (pcs s p) i \<longrightarrow> drains pc i"
    "closing (pcs s p) \<longrightarrow> closing pc \<or> waiters s' = []"
  shows "drained s'"
  unfolding drained_def
proof (intro impI conjI ballI)
  fix i assume a: "closed s'" "i \<in> bits (words s')"
  then obtain q where "drains (pcs s q) i" using assms(1,3,4) unfolding drained_def by blast
  then have "drains (pcs s' q) i" using assms(2,6) a(2) by auto
  then show "\<exists>q. drains (pcs s' q) i" ..
next
  assume a: "closed s'" "waiters s' \<noteq> []"
  then obtain q where "closing (pcs s q)" using assms(1,4,5) unfolding drained_def by auto
  then have "closing (pcs s' q)" using assms(2,7) a(2) by auto
  then show "\<exists>q. closing (pcs s' q)" ..
qed

lemma sup_unlink:
  assumes "supplied s" "pcs s q = Parked queued"
  shows "supplied (unlink_waiter q st s)"
proof (rule sup_keep [OF assms(1)])
  show "helped (unlink_waiter q st s) i" if "helped s i" for i
    using helped_keep [OF _ _ that, of "unlink_waiter q st s" q "Parked st"] assms(2) by (simp add: unlink_waiter_def)
qed (auto simp: unlink_waiter_def split: if_splits)

lemma no_arrival:
  assumes "serialised s" "can_lock p s" "\<not> scanning (pcs s p)"
  shows "pcs s q \<noteq> ParkScan w"
  using serialisedD(1) [OF assms(1), of q] assms(2,3) by (auto simp: can_lock_def)

lemma sup_handoff:
  assumes "supplied s" "serialised s" "can_lock p s" "pcs s p = Handoff serving i"
  shows "supplied (handoff_or_publish_locked p serving i ex s)"
proof (cases "closed s")
  case True
  then show ?thesis by (simp add: handoff_or_publish_locked_def handoff_done_def supplied_def)
next
  case accepting: False
  show ?thesis
  proof (cases "waiters s")
    case Nil
    then show ?thesis using no_arrival [OF assms(2,3)] accepting assms(4)
      by (intro sup_idle) (auto simp: handoff_or_publish_locked_def handoff_done_def)
  next
    case (Cons q qs)
    have q: "pcs s q = Parked queued" using waiter_head [OF serialisedD(5) [OF assms(2)] Cons] .
    have u: "supplied (unlock (unlink_waiter q st s))" for st
      using sup_unlink [OF assms(1) q, of st] by (simp add: supplied_def helped_def unlock_def)
    have "supplied (unlock (go p (if serving then Serve else Away) (unlink_waiter q (assigned i) s)))"
      by (rule sup_go [OF u [of "assigned i"], where p = p and pc = "if serving then Serve else Away"])
        (use q assms(4) in \<open>auto simp: unlink_waiter_def\<close>)
    then show ?thesis using u [of timeout] Cons accepting by (simp add: handoff_or_publish_locked_def)
  qed
qed

lemma bits_zero: "i \<in> bits ws \<Longrightarrow> ws ! (i div 64) \<noteq> 0"
  by (auto simp: bits_def)

lemma bits_length: "i \<in> bits ws \<Longrightarrow> i div 64 < length ws"
  by (simp add: bits_def)

lemma claim_subset:
  "w < length (words s) \<Longrightarrow> words s ! w \<noteq> 0 \<Longrightarrow> bits (words (claim_bit w s)) \<subseteq> bits (words s)"
  using bits_claim by blast

lemma reclaim_subset: "bits (words (reclaim_idle i s)) \<subseteq> bits (words s)"
  using bits_reclaim [of "words s" i] by (auto simp: reclaim_idle_def set_state_def)

lemma helped_waiting:
  "supplied s \<Longrightarrow> \<not> closed s \<Longrightarrow> waiters s \<noteq> [] \<Longrightarrow> i \<in> bits (words s) \<Longrightarrow> helped s i"
  "supplied s \<Longrightarrow> \<not> closed s \<Longrightarrow> pcs s p = ParkScan w \<Longrightarrow> i \<in> bits (words s) \<Longrightarrow> i div 64 < w \<Longrightarrow> helped s i"
  unfolding supplied_def by blast+

lemma sup_arrive:
  assumes "supplied s" "serialised s" "pcs s p = ParkScan w" "length (words s) \<le> w"
  shows "supplied (unlock (go p (Parked queued) (s\<lparr>waiters := waiters s @ [p]\<rparr>)))" (is "supplied ?t")
proof -
  have m: "pcs s q \<noteq> ParkScan v" if "q \<noteq> p" for q v
    using serialisedD(1) [OF assms(2), of q] serialisedD(1) [OF assms(2), of p] assms(3) that by auto
  have "helped ?t i" if "i \<in> bits (words s)" "\<not> closed s" for i
  proof (rule helped_keep [where p = p and pc = "Parked queued"])
    show "helped s i" using helped_waiting(2) [OF assms(1) that(2) assms(3) that(1)] bits_length [OF that(1)] assms(4) by simp
  qed (simp_all add: assms(3))
  then show ?thesis using m by (simp add: supplied_def)
qed

lemma sup_next_word:
  assumes "supplied s" "serialised s" "pcs s p = ParkScan w" "words s ! w = 0"
  shows "supplied (go p (ParkScan (w + 1)) s)" (is "supplied ?t")
proof -
  have m: "q = p" if "pcs s q = ParkScan v" for q v
    using serialisedD(1) [OF assms(2), of q] serialisedD(1) [OF assms(2), of p] assms(3) that by auto
  have k: "helped ?t i" if "helped s i" for i
    by (rule helped_keep [where p = p and pc = "ParkScan (w + 1)", OF _ _ that]) (simp_all add: assms(3))
  show ?thesis unfolding supplied_def
  proof (intro impI conjI ballI allI)
    fix i assume "\<not> closed ?t" "waiters ?t \<noteq> []" "i \<in> bits (words ?t)"
    then show "helped ?t i" by (intro k helped_waiting(1) [OF assms(1)]) simp_all
  next
    fix q v i assume a: "\<not> closed ?t" "pcs ?t q = ParkScan v" "i \<in> bits (words ?t)" "i div 64 < v"
    have "q = p" using m [of q v] a(2) by (cases "q = p") simp_all
    then have "i div 64 < w + 1" using a(2,4) by simp
    moreover have "i div 64 \<noteq> w" using bits_zero [of i "words s"] a(3) assms(4) by auto
    ultimately show "helped ?t i" using a(1,3) by (intro k helped_waiting(2) [OF assms(1) _ assms(3)]) simp_all
  qed
qed

lemma sup_park_scan:
  assumes "supplied s" "serialised s" "pcs s p = ParkScan w"
  shows "supplied (park_scan p w ex s)"
proof (cases "length (words s) \<le> w")
  case True
  then show ?thesis using sup_arrive [OF assms] by (simp add: park_scan_def)
next
  case False
  show ?thesis
  proof (cases "words s ! w = 0")
    case True
    then show ?thesis using False sup_next_word [OF assms] by (simp add: park_scan_def)
  next
    case nonzero: False
    then have b: "bits (words (claim_bit w s)) \<subseteq> bits (words s)" using False by (intro claim_subset) simp
    have "supplied s'" if "pcs s' = (pcs s)(p := pc)" "words s' = words (claim_bit w s)" "waiters s' = waiters s" "closed s' = closed s"
      "\<not> arriving pc" for s' pc
      by (rule sup_go [OF assms(1) that(1)]) (use that b assms(3) in auto)
    then show ?thesis using False nonzero by (auto simp: park_scan_def Let_def)
  qed
qed

lemma sup_serve_scan:
  assumes "supplied s" "pcs s p = ServeScan w"
  shows "supplied (serve_scan p w s)"
proof -
  consider "length (words s) \<le> w" | "w < length (words s)" "words s ! w = 0" | "w < length (words s)" "words s ! w \<noteq> 0"
    by linarith
  then show ?thesis
  proof cases
    case 1
    then show ?thesis using bits_length [of _ "words s"] assms(2)
      by (intro sup_go [OF assms(1), where p = p and pc = Away]) (fastforce simp: serve_scan_def)+
  next
    case 2
    have "w + 1 \<le> i div 64" if "i \<in> bits (words s)" "w \<le> i div 64" for i
      using bits_zero [OF that(1)] that(2) 2(2) by (cases "i div 64 = w") auto
    then show ?thesis using 2 assms(2)
      by (intro sup_go [OF assms(1), where p = p and pc = "ServeScan (w + 1)"]) (auto simp: serve_scan_def)
  next
    case 3
    then show ?thesis by (intro sup_all [where p = p]) (simp add: serve_scan_def)
  qed
qed

lemma sup_advance:
  assumes "supplied s" "serialised s" "advance p ex s = Some s'"
  shows "supplied s'"
proof (cases "pcs s p")
  case (Handoff serving i)
  then show ?thesis using assms by (auto simp: advance_def locked_def sup_handoff split: if_splits)
next
  case (ParkScan w)
  then show ?thesis using assms by (auto simp: advance_def sup_park_scan)
next
  case (ServeScan w)
  then show ?thesis using assms by (auto simp: advance_def sup_serve_scan)
next
  case (Scan m w)
  then show ?thesis using assms claim_subset [of w s]
    by (auto simp: advance_def claim_scan_def split: if_splits intro!: sup_go [OF assms(1), where p = p])
next
  case (Sweep w)
  then have "closed s" using serialisedD(4) [OF assms(2), of p] by simp
  then show ?thesis using assms Sweep by (auto simp: advance_def sweep_def sweep_simps supplied_def split: if_splits)
next
  case Abort
  then have "closed s" using serialisedD(4) [OF assms(2), of p] by simp
  then show ?thesis using assms Abort
    by (auto simp: advance_def shutdown_waiters_def locked_def unlink_waiter_def supplied_def split: if_splits list.splits)
next
  case (Parked st)
  then show ?thesis using assms
    by (auto simp: advance_def parked_def split: WaiterState.splits intro!: sup_go [OF assms(1), where p = p])
next
  case Published_gate
  show ?thesis
  proof (cases "waiter_gate s = 0")
    case True
    have "pcs s q \<noteq> ParkScan w" for q w
      using serialisedD(1) [OF assms(2), of q] serialisedD(6) [OF assms(2)] True by (auto simp: arrivals_def)
    moreover have "waiters s = []" using serialisedD(6) [OF assms(2)] True by simp
    ultimately show ?thesis using assms(3) Published_gate True
      by (auto simp: advance_def published_gate_def split: if_splits intro!: sup_idle)
  next
    case False
    then show ?thesis using assms(3) Published_gate by (auto simp: advance_def published_gate_def intro: sup_all [of _ p])
  qed
next
  case Serve
  then show ?thesis using assms no_arrival [OF assms(2), of p]
    by (auto simp: advance_def locked_def serve_waiters_locked_def split: if_splits intro: sup_idle sup_all [of _ p])
      (auto simp: supplied_def)
next
  case (Claimed m i)
  then show ?thesis using assms
    by (auto simp: advance_def claimed_slot_def take_idle_locked_def split: if_splits intro: sup_all [of _ p] sup_go [OF assms(1), where p = p])
next
  case (Release_pub i)
  then show ?thesis using assms(3) by (auto simp: advance_def release_pub_def intro: sup_all [of _ p])
next
  case (Published i)
  then show ?thesis using assms(3) by (auto simp: advance_def published_slot_def supplied_def helped_def intro: sup_all [of _ p])
next
  case (Reclaim i)
  then show ?thesis using assms(3) reclaim_subset [of i s]
    by (auto simp: advance_def reclaim_def split: if_splits intro!: sup_go [OF assms(1), where p = p])
qed (use assms in \<open>auto simp: advance_def code_points split: if_splits intro!: sup_go [OF assms(1), where p = p]\<close>)

lemma sup_step: "arena_step s s' \<Longrightarrow> supplied s \<Longrightarrow> serialised s \<Longrightarrow> supplied s'"
proof (induction rule: arena_step.induct)
  case (step_advance p ex s s')
  then show ?case by (blast intro: sup_advance)
next
  case (step_shutdown s p)
  then show ?case by (auto simp: shutdown_def supplied_def)
next
  case (step_give_up s p st)
  then show ?case by (simp add: sup_unlink)
next
  case (step_acquire s p waits ex)
  then show ?case by (auto simp: start_acquire_def intro!: sup_go [OF step_acquire(2), where p = p])
next
  case (step_take_idle s p)
  then show ?case by (auto intro!: sup_go [OF step_take_idle(3), where p = p])
next
  case (step_reserve s p)
  then show ?case by (auto simp: try_reserve_def Let_def set_state_def intro!: sup_go [OF step_reserve(3), where p = p])
next
  case (step_take_quarantined s p)
  then show ?case by (auto simp: try_take_quarantined_def Let_def set_state_def intro!: sup_go [OF step_take_quarantined(3), where p = p])
next
  case (step_release s p i)
  then show ?case by (auto intro!: sup_go [OF step_release(2), where p = p])
next
  case (step_quarantine s p i)
  then show ?case by (auto intro!: sup_go [OF step_quarantine(2), where p = p])
next
  case (step_emplace s p i)
  then show ?case by (auto intro!: sup_go [OF step_emplace(2), where p = p])
next
  case (step_destroy s p i)
  then show ?case by (auto intro!: sup_go [OF step_destroy(2), where p = p])
next
  case (step_publish s p i)
  then show ?case by (auto simp: publish_reserved_def set_state_def intro!: sup_go [OF step_publish(3), where p = p])
next
  case (step_rollback s p i c)
  then show ?case by (auto simp: rollback_def set_state_def intro!: sup_go [OF step_rollback(3), where p = p])
qed

section \<open>Nothing is left after a shutdown\<close>

lemma drain_open: "\<not> closed s \<Longrightarrow> drained s"
  by (simp add: drained_def)

lemma drain_unlink:
  assumes "drained s" "pcs s q = Parked queued"
  shows "drained (unlink_waiter q st s)"
  unfolding drained_def
proof (intro impI conjI ballI)
  fix i assume "closed (unlink_waiter q st s)" "i \<in> bits (words (unlink_waiter q st s))"
  then obtain r where "drains (pcs s r) i" using assms(1) by (auto simp: drained_def unlink_waiter_def)
  then have "drains (pcs (unlink_waiter q st s) r) i" using assms(2) by (auto simp: unlink_waiter_def)
  then show "\<exists>r. drains (pcs (unlink_waiter q st s) r) i" ..
next
  assume "closed (unlink_waiter q st s)" "waiters (unlink_waiter q st s) \<noteq> []"
  then obtain r where "closing (pcs s r)" using assms(1) by (auto simp: drained_def unlink_waiter_def)
  then have "closing (pcs (unlink_waiter q st s) r)" using assms(2) by (auto simp: unlink_waiter_def)
  then show "\<exists>r. closing (pcs (unlink_waiter q st s) r)" ..
qed

lemma drain_unlock: "drained (unlock s) = drained s"
  by (simp add: drained_def)

lemma drain_publish:
  assumes "drained s" "pcs s p = Release_pub i" "i div 64 < length (words s)"
  shows "drained (release_pub p i s)"
  unfolding drained_def
proof (intro impI conjI ballI)
  fix j assume a: "closed (release_pub p i s)" "j \<in> bits (words (release_pub p i s))"
  have "j = i \<or> j \<in> bits (words s)"
    using a(2) bits_publish [OF assms(3)] by (simp add: release_pub_def publish_bit_def set_state_def)
  then show "\<exists>q. drains (pcs (release_pub p i s) q) j"
  proof
    assume "j = i"
    then have "drains (pcs (release_pub p i s) p) j" by (simp add: release_pub_def)
    then show ?thesis ..
  next
    assume "j \<in> bits (words s)"
    then obtain q where q: "drains (pcs s q) j" using assms(1) a(1) by (auto simp: drained_def release_pub_def)
    then have "q \<noteq> p" using assms(2) by auto
    then have "drains (pcs (release_pub p i s) q) j" using q by (simp add: release_pub_def)
    then show ?thesis ..
  qed
next
  assume "closed (release_pub p i s)" "waiters (release_pub p i s) \<noteq> []"
  then obtain r where r: "closing (pcs s r)" using assms(1) by (auto simp: drained_def release_pub_def)
  then have "r \<noteq> p" using assms(2) by auto
  then have "closing (pcs (release_pub p i s) r)" using r by (simp add: release_pub_def)
  then show "\<exists>r. closing (pcs (release_pub p i s) r)" ..
qed

lemma drain_sweep:
  assumes "drained s" "pcs s p = Sweep w"
  shows "drained (sweep p w s)"
proof (cases "length (words s) \<le> w")
  case True
  show ?thesis by (rule drains_keep [OF assms(1), where p = p and pc = Abort])
    (use True assms(2) bits_length [of _ "words s"] in \<open>fastforce simp: sweep_def\<close>)+
next
  case False
  then have b: "bits (words (sweep p w s)) = {i \<in> bits (words s). i div 64 \<noteq> w}"
    using bits_sweep [of w "words s"] by (simp add: sweep_def sweep_simps)
  show ?thesis by (rule drains_keep [OF assms(1), where p = p and pc = "Sweep (w + 1)"])
    (use False assms(2) b in \<open>auto simp: sweep_def sweep_simps\<close>)
qed

lemma drain_advance:
  assumes "drained s" "serialised s" "inventory_of s" "advance p ex s = Some s'"
  shows "drained s'"
proof (cases "pcs s p")
  case (Release_pub i)
  then show ?thesis using assms drain_publish [OF assms(1) Release_pub] lend_bound(2) [OF assms(3), of p i]
    by (auto simp: advance_def)
next
  case (Sweep w)
  then show ?thesis using assms drain_sweep by (auto simp: advance_def)
next
  case Abort
  show ?thesis
  proof (cases "waiters s")
    case Nil
    have "drained (unlock (go p Away s))"
      by (rule drains_keep [OF assms(1), where p = p and pc = Away]) (use Nil Abort in simp_all)
    then show ?thesis using assms(4) Abort Nil by (auto simp: advance_def shutdown_waiters_def locked_def split: if_splits)
  next
    case (Cons q qs)
    have "drained (unlock (unlink_waiter q st s))" for st
      using waiter_head [OF serialisedD(5) [OF assms(2)] Cons] by (simp add: drain_unlock drain_unlink [OF assms(1)])
    then show ?thesis using assms(4) Abort Cons by (auto simp: advance_def shutdown_waiters_def locked_def split: if_splits)
  qed
next
  case (Handoff serving i)
  show ?thesis
  proof (cases "closed s")
    case True
    then show ?thesis using assms Handoff
      by (auto simp: advance_def handoff_or_publish_locked_def handoff_done_def locked_def split: if_splits
        intro!: drains_keep [OF assms(1), where p = p])
  next
    case False
    then have "\<not> closed s'" using assms Handoff
      by (auto simp: advance_def handoff_or_publish_locked_def handoff_done_def locked_def unlink_waiter_def split: if_splits list.splits)
    then show ?thesis by (rule drain_open)
  qed
next
  case (ParkScan w)
  then have "\<not> closed s" using serialisedD(3) [OF assms(2), of p] by simp
  then have "\<not> closed s'" using assms ParkScan by (auto simp: advance_def park_scan_def Let_def split: if_splits)
  then show ?thesis by (rule drain_open)
next
  case (ServeScan w)
  then have "\<not> closed s" using serialisedD(3) [OF assms(2), of p] by simp
  then have "\<not> closed s'" using assms ServeScan by (auto simp: advance_def serve_scan_def split: if_splits)
  then show ?thesis by (rule drain_open)
next
  case (Scan m w)
  then show ?thesis using assms claim_subset [of w s]
    by (auto simp: advance_def claim_scan_def split: if_splits intro!: drains_keep [OF assms(1), where p = p])
next
  case (Claimed m i)
  show ?thesis
  proof (cases "closed s")
    case True
    then show ?thesis using assms Claimed
      by (auto simp: advance_def claimed_slot_def take_idle_locked_def split: if_splits
        intro!: drains_keep [OF assms(1), where p = p])
  next
    case False
    then have "\<not> closed s'" using assms Claimed by (auto simp: advance_def claimed_slot_def take_idle_locked_def split: if_splits)
    then show ?thesis by (rule drain_open)
  qed
next
  case (Parked st)
  then show ?thesis using assms
    by (auto simp: advance_def parked_def split: WaiterState.splits intro!: drains_keep [OF assms(1), where p = p])
next
  case (Published i)
  have "drained (go p (Reclaim i) s)"
    by (rule drains_keep [OF assms(1), where p = p and pc = "Reclaim i"]) (use Published in simp_all)
  moreover have "drained (go p Published_gate s)" if "\<not> closed s" using that by (intro drain_open) simp
  ultimately show ?thesis using assms(4) Published by (auto simp: advance_def published_slot_def)
next
  case (Reclaim i)
  have b: "bits (words (reclaim_idle i s)) = bits (words s) - {i}"
    using bits_reclaim [of "words s" i] by (simp add: reclaim_idle_def set_state_def)
  have "drained (reclaim p i s)"
  proof (cases "has_bit i s")
    case True
    show ?thesis by (rule drains_keep [OF assms(1), where p = p and pc = "Quarantining i"])
      (use True Reclaim b in \<open>simp_all add: reclaim_def\<close>)
  next
    case False
    then have "i \<notin> bits (words s)" by (simp add: has_bit_bits)
    then show ?thesis using False Reclaim
      by (intro drains_keep [OF assms(1), where p = p and pc = Away]) (auto simp: reclaim_def)
  qed
  then show ?thesis using assms(4) Reclaim by (simp add: advance_def)
qed (use assms in \<open>auto simp: advance_def code_points split: if_splits
  intro!: drains_keep [OF assms(1), where p = p]\<close>)

lemma drain_step: "arena_step s s' \<Longrightarrow> drained s \<Longrightarrow> serialised s \<Longrightarrow> inventory_of s \<Longrightarrow> drained s'"
proof (induction rule: arena_step.induct)
  case (step_advance p ex s s')
  then show ?case by (blast intro: drain_advance)
next
  case (step_shutdown s p)
  have "closing (pcs ((go p (Sweep 0) s)\<lparr>closed := True, mutex := Some p\<rparr>) p)"
    "drains (pcs ((go p (Sweep 0) s)\<lparr>closed := True, mutex := Some p\<rparr>) p) i" for i by simp_all
  then show ?case using step_shutdown(3) unfolding shutdown_def drained_def by auto
next
  case (step_give_up s p st)
  then show ?case by (simp add: drain_unlink)
next
  case (step_acquire s p waits ex)
  then show ?case by (auto simp: start_acquire_def intro!: drains_keep [OF step_acquire(2), where p = p])
next
  case (step_take_idle s p)
  then show ?case by (auto intro!: drains_keep [OF step_take_idle(3), where p = p])
next
  case (step_reserve s p)
  then show ?case by (auto simp: try_reserve_def Let_def set_state_def intro!: drains_keep [OF step_reserve(3), where p = p])
next
  case (step_take_quarantined s p)
  then show ?case by (auto simp: try_take_quarantined_def Let_def set_state_def intro!: drains_keep [OF step_take_quarantined(3), where p = p])
next
  case (step_release s p i)
  then show ?case by (auto intro!: drains_keep [OF step_release(2), where p = p])
next
  case (step_quarantine s p i)
  then show ?case by (auto intro!: drains_keep [OF step_quarantine(2), where p = p])
next
  case (step_emplace s p i)
  then show ?case by (auto intro!: drains_keep [OF step_emplace(2), where p = p])
next
  case (step_destroy s p i)
  then show ?case by (auto intro!: drains_keep [OF step_destroy(2), where p = p])
next
  case (step_publish s p i)
  then show ?case by (auto simp: publish_reserved_def set_state_def intro!: drains_keep [OF step_publish(3), where p = p])
next
  case (step_rollback s p i c)
  then show ?case by (auto simp: rollback_def set_state_def intro!: drains_keep [OF step_rollback(3), where p = p])
qed

section \<open>Reachable states\<close>

lemma states_step: "arena_step s s' \<Longrightarrow> length (states s') = length (states s)"
proof (induction rule: arena_step.induct)
  case (step_advance p ex s s')
  have "length (states (fold quarantine_borrowed xs t)) = length (states t)" for xs and t :: "'a Pool"
    by (induction xs arbitrary: t) (simp_all add: quarantine_borrowed_def set_state_def)
  then show ?case using step_advance
    by (cases "pcs s p") (auto simp: advance_def code_points park_scan_def take_idle_locked_def handoff_or_publish_locked_def
      handoff_done_def unlink_waiter_def unlock_def set_state_def claim_bit_def publish_bit_def reclaim_idle_def
      quarantine_borrowed_def Let_def split: if_splits list.splits WaiterState.splits)
qed (auto simp: start_acquire_def try_reserve_def try_take_quarantined_def publish_reserved_def rollback_def shutdown_def
  unlink_waiter_def set_state_def Let_def)

lemma reachable_inv:
  assumes "arena_step\<^sup>*\<^sup>* (new_arena capacity) s"
  shows "inventory_of s" "serialised s" "supplied s" "drained s" "length (states s) = capacity"
proof -
  have "inventory_of s \<and> serialised s \<and> supplied s \<and> drained s \<and> length (states s) = capacity"
    using assms
  proof (induction rule: rtranclp_induct)
    case base
    then show ?case
      by (auto simp: inv_new) (auto simp: new_arena_def serialised_def waiters_parked_def arrivals_def supplied_def drained_def)
  next
    case (step s s')
    then have "waiters_parked s" by (blast intro: serialisedD(5))
    then show ?case
      using step.IH inv_step [OF step.hyps(2)] ser_step [OF step.hyps(2)] sup_step [OF step.hyps(2)] drain_step [OF step.hyps(2)]
        states_step [OF step.hyps(2)] by simp
  qed
  then show "inventory_of s" "serialised s" "supplied s" "drained s" "length (states s) = capacity" by blast+
qed

fun resting :: "pool_pc \<Rightarrow> bool" where
  "resting Away = True"
| "resting (Holding _) = True"
| "resting (Reserved _ _) = True"
| "resting (Parked st) = (st = queued)"
| "resting _ = False"

lemma advance_enabled:
  assumes "serialised s" "\<not> resting (pcs s p)"
  shows "\<exists>q ex. advance q ex s \<noteq> None"
proof (cases "mutex s")
  case None
  then have "advance p ex s \<noteq> None" for ex
    using assms(2) by (cases "pcs s p") (auto simp: advance_def code_points can_lock_def split: WaiterState.splits)
  then show ?thesis by blast
next
  case (Some q)
  have "critical (pcs s q)" using serialisedD(2) [OF assms(1) Some] .
  then have "advance q ex s \<noteq> None" for ex
    using Some by (cases "pcs s q") (auto simp: advance_def code_points can_lock_def)
  then show ?thesis by blast
qed

lemma resting_simps: "resting pc \<Longrightarrow> \<not> helps pc i \<and> \<not> drains pc i \<and> \<not> closing pc \<and> \<not> critical pc"
  by (cases pc) simp_all

lemma slots_count:
  "card (slots vacant S) + card (slots reserved S) + card (slots idle S) + card (slots borrowed S) + card (slots quarantined S)
     = length S"
proof -
  have "card (slots st S) = length (filter (\<lambda>x. x = st) S)" for st by (simp add: slots_def length_filter_conv_card)
  moreover have "length (filter (\<lambda>x. x = vacant) S) + length (filter (\<lambda>x. x = reserved) S) + length (filter (\<lambda>x. x = idle) S)
    + length (filter (\<lambda>x. x = borrowed) S) + length (filter (\<lambda>x. x = quarantined) S) = length S"
  proof (induction S)
    case (Cons x S)
    then show ?case by (cases x) simp_all
  qed simp
  ultimately show ?thesis by simp
qed

lemma lent_state:
  assumes "inventory_of s"
  shows "lends (pcs s p) = Some i \<Longrightarrow> i < length (states s) \<and> states s ! i = borrowed \<and> \<not> has_bit i s"
    and "reserves (pcs s p) = Some i \<Longrightarrow> i < length (states s) \<and> states s ! i = reserved \<and> \<not> has_bit i s"
    and "lends (pcs s p) = Some i \<Longrightarrow> lends (pcs s q) = Some i \<Longrightarrow> p = q"
    and "reserves (pcs s p) = Some i \<Longrightarrow> reserves (pcs s q) = Some i \<Longrightarrow> p = q"
proof -
  have o: "owned (lends \<circ> pcs s) (slots borrowed (states s))" "owned (reserves \<circ> pcs s) (slots reserved (states s))"
    and b: "bits (words s) = slots idle (states s)"
    using assms by (simp_all add: inventory_of_def inventory_def)
  show "lends (pcs s p) = Some i \<Longrightarrow> i < length (states s) \<and> states s ! i = borrowed \<and> \<not> has_bit i s"
    using ownedD [OF o(1), of p i] b by (simp add: has_bit_bits slots_def)
  show "reserves (pcs s p) = Some i \<Longrightarrow> i < length (states s) \<and> states s ! i = reserved \<and> \<not> has_bit i s"
    using ownedD [OF o(2), of p i] b by (simp add: has_bit_bits slots_def)
  show "lends (pcs s p) = Some i \<Longrightarrow> lends (pcs s q) = Some i \<Longrightarrow> p = q"
    using owned_inj [OF o(1), of p i q] by simp
  show "reserves (pcs s p) = Some i \<Longrightarrow> reserves (pcs s q) = Some i \<Longrightarrow> p = q"
    using owned_inj [OF o(2), of p i q] by simp
qed

text \<open>The number of set bits, word by word, is the number of free slots.\<close>

lemma idle_count_bits: "idle_count seen = card (bits seen)"
proof -
  have "sum_list (map (\<lambda>x. length (filter (bit x) [0..<64])) ws) = card (bits ws)" for ws :: "64 word list"
  proof (induction ws rule: rev_induct)
    case Nil
    then show ?case by (simp add: bits_def)
  next
    case (snoc x ws)
    let ?new = "(\<lambda>k. length ws * 64 + k) ` {k. k < 64 \<and> bit x k}"
    have "i \<in> bits (ws @ [x]) \<longleftrightarrow> i \<in> bits ws \<or> i \<in> ?new" for i
    proof -
      have new: "i \<in> ?new \<longleftrightarrow> i div 64 = length ws \<and> bit x (i mod 64)"
      proof
        assume "i div 64 = length ws \<and> bit x (i mod 64)"
        then show "i \<in> ?new" using div_mult_mod_eq [of i 64] by (intro image_eqI [of _ _ "i mod 64"]) simp_all
      qed auto
      show ?thesis unfolding new by (cases "i div 64 < length ws") (auto simp: bits_def nth_append less_Suc_eq)
    qed
    then have "bits (ws @ [x]) = bits ws \<union> ?new" by blast
    moreover have "finite (bits ws)"
      by (rule finite_subset [of _ "{..<64 * length ws}"]) (auto simp: bits_def div_less_iff_less_mult ac_simps)
    moreover have "bits ws \<inter> ?new = {}" by (auto simp: bits_def)
    moreover have "card ?new = length (filter (bit x) [0..<64])"
    proof -
      have "{k. k < 64 \<and> bit x k} = set (filter (bit x) [0..<64])" by auto
      then have "card {k. k < 64 \<and> bit x k} = card (set (filter (bit x) [0..<64]))" by (rule arg_cong)
      moreover have "card ?new = card {k. k < 64 \<and> bit x k}" by (rule card_image) (simp add: inj_on_def)
      moreover have "card (set (filter (bit x) [0..<64])) = length (filter (bit x) [0..<64])" by (rule distinct_card) simp
      ultimately show ?thesis by (simp only:)
    qed
    ultimately show ?case using snoc by (simp add: card_Un_disjoint)
  qed
  then show ?thesis by (simp add: idle_count_def)
qed

section \<open>Properties\<close>

text \<open>C9: under every interleaving each object has one owner at a time. Two clients never hold the same slot, a held slot is
  marked borrowed and not free for others, a reserved one likewise, and the counters add up: the slots that are usable,
  reserved, vacant and quarantined are the capacity of the pool. Whatever words the scan of \<open>stats\<close> has seen, its
  numbers add up to the capacity and the idle and borrowed ones to the usable objects; a scan that no claim interrupts
  reports the free and the borrowed objects exactly.\<close>

theorem arena_exclusive:
  assumes "arena_step\<^sup>*\<^sup>* (new_arena capacity) s"
  shows "(lends (pcs s p) = Some i \<longrightarrow> i < capacity \<and> states s ! i = borrowed \<and> \<not> has_bit i s \<and> (\<forall>q. lends (pcs s q) = Some i \<longrightarrow> p = q))
    \<and> (reserves (pcs s p) = Some i \<longrightarrow> i < capacity \<and> states s ! i = reserved \<and> \<not> has_bit i s
         \<and> (\<forall>q. reserves (pcs s q) = Some i \<longrightarrow> p = q))
    \<and> usable_size s + reserved_count s + length (vacant_slots s) + length (quarantined_slots s) = capacity
    \<and> stat_capacity (stats seen s) = capacity
    \<and> stat_vacant (stats seen s) + stat_reserved (stats seen s) + stat_idle (stats seen s) + stat_borrowed (stats seen s)
        + stat_quarantined (stats seen s) = capacity
    \<and> stat_idle (stats seen s) + stat_borrowed (stats seen s) = usable_size s
    \<and> stat_idle (stats (words s) s) = card {i. has_bit i s}
    \<and> stat_borrowed (stats (words s) s) = card {i. i < capacity \<and> states s ! i = borrowed}"
proof -
  note inv = reachable_inv [OF assms]
  have "length (vacant_slots s) = card (slots vacant (states s))" "length (quarantined_slots s) = card (slots quarantined (states s))"
    "usable_size s = card (slots idle (states s)) + card (slots borrowed (states s))" "reserved_count s = card (slots reserved (states s))"
    and idle: "{i. has_bit i s} = slots idle (states s)" "idle_count (words s) = card (slots idle (states s))"
    using inv(1) idle_count_bits [of "words s"] distinct_card [of "vacant_slots s"] distinct_card [of "quarantined_slots s"]
    by (auto simp: inventory_of_def inventory_def has_bit_bits)
  note counts = this
  have "stat_idle (stats (words s) s) = card (slots idle (states s))" "stat_borrowed (stats (words s) s) = card (slots borrowed (states s))"
    using counts(3) idle(2) by (simp_all add: stats_def Let_def)
  moreover have "stat_capacity (stats seen s) = capacity" "stat_vacant (stats seen s) = length (vacant_slots s)"
    "stat_reserved (stats seen s) = reserved_count s" "stat_quarantined (stats seen s) = length (quarantined_slots s)"
    "stat_idle (stats seen s) + stat_borrowed (stats seen s) = usable_size s"
    using inv(5) by (simp_all add: stats_def Let_def)
  moreover have "usable_size s + reserved_count s + length (vacant_slots s) + length (quarantined_slots s) = capacity"
    using counts(1-4) slots_count [of "states s"] inv(5) by linarith
  moreover have "slots borrowed (states s) = {i. i < capacity \<and> states s ! i = borrowed}" by (simp add: slots_def inv(5))
  ultimately show ?thesis
    using lent_state(1,2) [OF inv(1), of p i] lent_state(3,4) [OF inv(1), of p i] inv(5) idle(1) by simp
qed

text \<open>C10: no lost wake-up and no deadlock. When no client can take a step of its own, the mutex is free, every client is
  outside, holds or has reserved an object or waits in the queue; if somebody waits then no object is free; and after a
  shutdown nobody waits and no object is left for taking.\<close>

theorem arena_no_lost_wakeup:
  assumes "arena_step\<^sup>*\<^sup>* (new_arena capacity) s" "\<forall>p ex. advance p ex s = None"
  shows "mutex s = None \<and> (\<forall>p. resting (pcs s p)) \<and> set (waiters s) = {p. pcs s p = Parked queued}
    \<and> waiter_gate s = length (waiters s)
    \<and> (if closed s then waiters s = [] \<and> (\<forall>i. \<not> has_bit i s) else waiters s = [] \<or> (\<forall>i. \<not> has_bit i s))"
proof -
  note inv = reachable_inv [OF assms(1)]
  have r: "resting (pcs s p)" for p using advance_enabled [OF inv(2), of p] assms(2) by auto
  then have n: "\<not> helps (pcs s q) i" "\<not> drains (pcs s q) i" "\<not> closing (pcs s q)" "\<not> critical (pcs s q)" for q i
    using resting_simps by blast+
  then have "mutex s = None" using serialisedD(2) [OF inv(2)] by (cases "mutex s") blast+
  moreover from this have "waiter_gate s = length (waiters s)" using serialisedD(6) [OF inv(2)] by (simp add: arrivals_def)
  moreover have "set (waiters s) = {p. pcs s p = Parked queued}" using serialisedD(5) [OF inv(2)] by (simp add: waiters_parked_def)
  moreover have "waiters s = [] \<and> (\<forall>i. \<not> has_bit i s)" if "closed s"
    using inv(4) n that by (auto simp: drained_def has_bit_bits)
  moreover have "waiters s = [] \<or> (\<forall>i. \<not> has_bit i s)" if "\<not> closed s"
    using inv(3) n that by (auto simp: supplied_def helped_def has_bit_bits)
  ultimately show ?thesis using r by simp
qed

text \<open>One object is borrowed by client 1 while client 2 waits for it.\<close>

fun advances :: "'p list \<Rightarrow> 'p Pool \<Rightarrow> 'p Pool option" where
  "advances [] s = Some s"
| "advances (p # ps) s = (case advance p (\<lambda>_. False) s of None \<Rightarrow> None | Some s \<Rightarrow> advances ps s)"

lemma advances_steps: "advances ps s = Some s' \<Longrightarrow> arena_step\<^sup>*\<^sup>* s s'"
proof (induction ps arbitrary: s)
  case (Cons p ps)
  then obtain t where t: "advance p (\<lambda>_. False) s = Some t" "advances ps t = Some s'" by (auto split: option.splits)
  show ?case by (rule converse_rtranclp_into_rtranclp [of arena_step, OF step_advance [OF t(1)] Cons.IH [OF t(2)]])
qed simp

lemma step_star: "arena_step s t \<Longrightarrow> arena_step\<^sup>*\<^sup>* t u \<Longrightarrow> arena_step\<^sup>*\<^sup>* s u"
  by (rule converse_rtranclp_into_rtranclp)

lemma pool_example:
  "arena_step\<^sup>*\<^sup>* (new_arena 1) \<lparr>words = [0], states = [borrowed], vacant_slots = [], quarantined_slots = [], mutex = None,
     waiters = [2 :: nat], waiter_gate = 1, usable_size = 1, reserved_count = 0, closed = False,
     pcs = (\<lambda>_. Away)(0 := Away, 1 := Holding 0, 2 := Parked queued)\<rparr>"
proof -
  let ?a = "publish_reserved (0 :: nat) 0 (go 0 (Reserved 0 True) (try_reserve 0 (new_arena 1)))"
  let ?b = "\<lparr>words = [1], states = [idle], vacant_slots = [], quarantined_slots = [], mutex = None,
     waiters = [], waiter_gate = 0, usable_size = 1, reserved_count = 0, closed = False,
     pcs = (\<lambda>_. Away)(0 :: nat := Away)\<rparr>"
  let ?c = "\<lparr>words = [0], states = [borrowed], vacant_slots = [], quarantined_slots = [], mutex = None,
     waiters = [], waiter_gate = 0, usable_size = 1, reserved_count = 0, closed = False,
     pcs = (\<lambda>_. Away)(0 := Away, 1 :: nat := Holding 0)\<rparr>"
  let ?d = "\<lparr>words = [0], states = [borrowed], vacant_slots = [], quarantined_slots = [], mutex = None,
     waiters = [2 :: nat], waiter_gate = 1, usable_size = 1, reserved_count = 0, closed = False,
     pcs = (\<lambda>_. Away)(0 := Away, 1 := Holding 0, 2 := Parked queued)\<rparr>"
  have c: "countr_zero 1 = 0" by code_simp
  have a1: "arena_step (new_arena 1) (try_reserve (0 :: nat) (new_arena 1))" by (rule step_reserve) (simp_all add: new_arena_def)
  have a2: "arena_step (try_reserve (0 :: nat) (new_arena 1)) (go (0 :: nat) (Reserved 0 True) (try_reserve 0 (new_arena 1)))"
    by (rule step_emplace) (simp add: try_reserve_def new_arena_def)
  have a3: "arena_step (go (0 :: nat) (Reserved 0 True) (try_reserve 0 (new_arena 1))) ?a"
    by (rule step_publish) (simp_all add: try_reserve_def new_arena_def set_state_def go_def)
  have 1: "arena_step\<^sup>*\<^sup>* (new_arena 1) ?a" by (rule step_star [OF a1 step_star [OF a2 step_star [OF a3 rtranclp.rtrancl_refl]]])
  have "advances [0] ?a = Some ?b"
    by (simp add: try_reserve_def new_arena_def set_state_def go_def publish_reserved_def advance_def locked_def can_lock_def
      handoff_or_publish_locked_def handoff_done_def unlock_def publish_bit_def)
  then have 2: "arena_step\<^sup>*\<^sup>* ?a ?b" by (rule advances_steps)
  have b1: "arena_step ?b (start_acquire 1 False (\<lambda>_. False) ?b)" by (rule step_acquire) simp
  have b2: "advances [1, 1] (start_acquire 1 False (\<lambda>_. False) ?b) = Some ?c"
    by (simp add: start_acquire_def go_def advance_def claim_scan_def claimed_slot_def claim_bit_def claim_index_def
      set_state_def c)
  have 3: "arena_step\<^sup>*\<^sup>* ?b ?c" by (rule step_star [OF b1 advances_steps [OF b2]])
  have c1: "arena_step ?c (start_acquire 2 True (\<lambda>_. False) ?c)" by (rule step_acquire) simp
  have c2: "advances [2, 2, 2, 2, 2] (start_acquire 2 True (\<lambda>_. False) ?c) = Some ?d"
    by (simp add: start_acquire_def go_def advance_def claim_scan_def locked_def can_lock_def park_def park_scan_def unlock_def)
  have 4: "arena_step\<^sup>*\<^sup>* ?c ?d" by (rule step_star [OF c1 advances_steps [OF c2]])
  show ?thesis by (rule rtranclp_trans [OF 1 rtranclp_trans [OF 2 rtranclp_trans [OF 3 4]]])
qed

theorem arena_exclusive_witness:
  "\<exists>s :: nat Pool. arena_step\<^sup>*\<^sup>* (new_arena 1) s \<and> lends (pcs s 1) = Some 0 \<and> states s ! 0 = borrowed \<and> \<not> has_bit 0 s
     \<and> usable_size s + reserved_count s + length (vacant_slots s) + length (quarantined_slots s) = 1"
  using pool_example arena_exclusive [OF pool_example, of 1 0] by (intro exI conjI) (assumption | simp)+

theorem arena_no_lost_wakeup_witness:
  "\<exists>s :: nat Pool. arena_step\<^sup>*\<^sup>* (new_arena 1) s \<and> (\<forall>p ex. advance p ex s = None) \<and> waiters s = [2] \<and> (\<forall>i. \<not> has_bit i s)"
proof (intro exI conjI)
  let ?d = "\<lparr>words = [0], states = [borrowed], vacant_slots = [], quarantined_slots = [], mutex = None,
     waiters = [2 :: nat], waiter_gate = 1, usable_size = 1, reserved_count = 0, closed = False,
     pcs = (\<lambda>_. Away)(0 := Away, 1 := Holding 0, 2 := Parked queued)\<rparr>"
  show "arena_step\<^sup>*\<^sup>* (new_arena 1) ?d" by (rule pool_example)
  show stuck: "\<forall>p ex. advance p ex ?d = None" by (simp add: advance_def parked_def)
  show "waiters ?d = [2]" by simp
  show "\<forall>i. \<not> has_bit i ?d" using arena_no_lost_wakeup [OF pool_example stuck] by simp
qed

end
